(* ===== verification/Prelude.thy ===== *)
theory Prelude
  imports Complex_Main "HOL-Library.Char_ord" "HOL-Library.List_Lexorder"
begin

text \<open>
  Shared vocabulary of the development: points in time and durations (Go's
  \<^verbatim>\<open>time.Time\<close> and \<^verbatim>\<open>time.Duration\<close>, both counted in nanoseconds), the
  fragments of \<^verbatim>\<open>strings\<close>, \<^verbatim>\<open>strconv\<close> and \<^verbatim>\<open>fmt\<close> the gateway uses, the shape
  of an SQL \<^verbatim>\<open>UPDATE ... WHERE\<close>, and the generic lemmas on lists that the component
  theories share.
\<close>

named_theorems client_simps "unfolding rules for the service clients"
named_theorems table_simps "rewrite rules for the database tables"
named_theorems clock_intros "a call never moves the clock backwards"

section \<open>Time\<close>

type_synonym time = int
type_synonym duration = int

definition Millisecond :: duration where
  "Millisecond = 1000000"

definition Second :: duration where
  "Second = 1000 * Millisecond"

lemma Millisecond_pos [simp]: "0 < Millisecond"
  by (simp add: Millisecond_def)

lemma Second_pos [simp]: "0 < Second" "0 \<le> Second" "Second \<noteq> 0" "\<not> Second \<le> 0"
  by (simp_all add: Second_def Millisecond_def)

text \<open>Go converts a floating-point number to an integer by dropping the fraction.\<close>

definition trunc :: "rat \<Rightarrow> int" where
  "trunc x = (if 0 \<le> x then \<lfloor>x\<rfloor> else - \<lfloor>- x\<rfloor>)"

lemma trunc_of_int [simp]: "trunc (of_int i) = i"
  by (simp add: trunc_def flip: of_int_minus)

lemma trunc_mono_nonneg: "0 \<le> x \<Longrightarrow> x \<le> y \<Longrightarrow> trunc x \<le> trunc y"
  by (simp add: trunc_def floor_mono)

lemma trunc_nonneg: "0 \<le> x \<Longrightarrow> 0 \<le> trunc x"
  by (simp add: trunc_def)

lemma trunc_le_of_int: "0 \<le> x \<Longrightarrow> x \<le> of_int i \<Longrightarrow> trunc x \<le> i"
  by (simp add: trunc_def floor_le_iff)

section \<open>Strings\<close>

text \<open>\<^verbatim>\<open>strconv.Itoa\<close> and the verb \<^verbatim>\<open>%d\<close>.\<close>

definition digit :: "nat \<Rightarrow> char" where
  "digit d = char_of (48 + d)"

fun nat_digits :: "nat \<Rightarrow> string" where
  "nat_digits n = (if n < 10 then [digit n] else nat_digits (n div 10) @ [digit (n mod 10)])"

declare nat_digits.simps [simp del]

definition itoa :: "int \<Rightarrow> string" where
  "itoa i = (if i < 0 then CHR ''-'' # nat_digits (nat (- i)) else nat_digits (nat i))"

text \<open>\<^verbatim>\<open>strings.TrimRight(s, "/")\<close>.\<close>

definition trim_right_slash :: "string \<Rightarrow> string" where
  "trim_right_slash s = rev (dropWhile (\<lambda>c. c = CHR ''/'') (rev s))"

lemma trim_right_slash_idem [simp]: "trim_right_slash (trim_right_slash s) = trim_right_slash s"
  by (simp add: trim_right_slash_def dropWhile_idem)

lemma trim_right_slash_last:
  "trim_right_slash s \<noteq> [] \<Longrightarrow> last (trim_right_slash s) \<noteq> CHR ''/''"
  using hd_dropWhile [of "\<lambda>c. c = CHR ''/''" "rev s"]
  by (auto simp: trim_right_slash_def last_rev)

text \<open>\<^verbatim>\<open>strings.Contains(s, sub)\<close>.\<close>

definition prefix_of :: "string \<Rightarrow> string \<Rightarrow> bool" where
  "prefix_of p s \<longleftrightarrow> take (length p) s = p"

fun str_contains :: "string \<Rightarrow> string \<Rightarrow> bool" where
  "str_contains [] sub = (sub = [])"
| "str_contains (c # cs) sub = (prefix_of sub (c # cs) \<or> str_contains cs sub)"

lemma prefix_of_append [simp]: "prefix_of p (p @ s)"
  by (simp add: prefix_of_def)

lemma str_contains_prefix: "prefix_of sub s \<Longrightarrow> str_contains s sub"
  by (cases s) (auto simp: prefix_of_def)

lemma str_contains_append: "str_contains s sub \<Longrightarrow> str_contains (pre @ s) sub"
  by (induction pre) auto

lemma str_contains_infix: "str_contains (pre @ sub @ post) sub"
  by (rule str_contains_append) (rule str_contains_prefix, simp)

section \<open>Rows\<close>

text \<open>\<^verbatim>\<open>UPDATE t SET f WHERE p\<close> rewrites the rows that satisfy \<open>p\<close> in place.\<close>

definition update_where :: "('a \<Rightarrow> bool) \<Rightarrow> ('a \<Rightarrow> 'a) \<Rightarrow> 'a list \<Rightarrow> 'a list" where
  "update_where p f rows = map (\<lambda>r. if p r then f r else r) rows"

lemma update_where_Nil [simp]: "update_where p f [] = []"
  by (simp add: update_where_def)

lemma update_where_Cons [simp]:
  "update_where p f (r # rs) = (if p r then f r else r) # update_where p f rs"
  by (simp add: update_where_def)

lemma length_update_where [simp]: "length (update_where p f rows) = length rows"
  by (simp add: update_where_def)

lemma map_update_where:
  "(\<And>r. p r \<Longrightarrow> k (f r) = k r) \<Longrightarrow> map k (update_where p f rows) = map k rows"
  by (simp add: update_where_def)

lemma set_update_where:
  "set (update_where p f rows) = (\<lambda>r. if p r then f r else r) ` set rows"
  by (simp add: update_where_def)

lemma update_where_none: "(\<And>r. r \<in> set rows \<Longrightarrow> \<not> p r) \<Longrightarrow> update_where p f rows = rows"
  by (simp add: update_where_def map_idI)

lemma filter_update_where_disjoint:
  "(\<And>r. p r \<Longrightarrow> \<not> q r \<and> \<not> q (f r)) \<Longrightarrow> filter q (update_where p f rows) = filter q rows"
  by (induction rows) (auto simp: update_where_def)

lemma filter_update_where_keep:
  "(\<And>r. p r \<Longrightarrow> q (f r) = q r) \<Longrightarrow>
     filter q (update_where p f rows) = update_where p f (filter q rows)"
  by (induction rows) auto

lemma update_where_comp_disjoint:
  assumes "\<And>r. p r \<Longrightarrow> \<not> q r" and "\<And>r. p r \<Longrightarrow> \<not> q (f r)" and "\<And>r. q r \<Longrightarrow> \<not> p (g r)"
  shows "update_where p f (update_where q g rows) = update_where q g (update_where p f rows)"
  using assms by (induction rows) auto

lemma find_filter_hd: "find p xs = (case filter p xs of [] \<Rightarrow> None | x # _ \<Rightarrow> Some x)"
  by (induction xs) auto

lemma find_SomeD: "find P xs = Some x \<Longrightarrow> x \<in> set xs \<and> P x"
  by (auto simp: find_Some_iff)

lemma find_map_eq: "(\<And>x. P (f x) = P x) \<Longrightarrow> find P (map f xs) = map_option f (find P xs)"
  by (induction xs) auto

end
