(* ===== verification/GoTime.thy ===== *)
theory GoTime
  imports Prelude
begin

text \<open>
  \<^verbatim>\<open>Time.Format(time.RFC3339)\<close> of Go's \<^verbatim>\<open>time\<close> package, which the HTTP handlers use:
  the civil date of a point in time in the proleptic Gregorian calendar, and its layout. The
  zone of the server is its offset from UTC in minutes.
\<close>

definition pad :: "nat \<Rightarrow> int \<Rightarrow> string" where
  "pad n i = (let s = itoa i in replicate (n - length s) CHR ''0'' @ s)"

text \<open>Year, month and day of the day that is \<open>n\<close> days after January 1, 1970.\<close>

definition civil_of_days :: "int \<Rightarrow> int \<times> int \<times> int" where
  "civil_of_days n =
     (let z = n + 719468; era = z div 146097; doe = z mod 146097;
          yoe = (doe - doe div 1460 + doe div 36524 - doe div 146096) div 365;
          doy = doe - (365 * yoe + yoe div 4 - yoe div 100);
          mp = (5 * doy + 2) div 153;
          d = doy - (153 * mp + 2) div 5 + 1;
          m = (if mp < 10 then mp + 3 else mp - 9) in
      (yoe + era * 400 + (if m \<le> 2 then 1 else 0), m, d))"

definition zone_suffix :: "int \<Rightarrow> string" where
  "zone_suffix off =
     (if off = 0 then ''Z''
      else (if off < 0 then ''-'' else ''+'') @ pad 2 (\<bar>off\<bar> div 60) @ '':'' @ pad 2 (\<bar>off\<bar> mod 60))"

definition format_rfc3339 :: "int \<Rightarrow> time \<Rightarrow> string" where
  "format_rfc3339 off t =
     (let secs = t div Second + off * 60; (y, m, d) = civil_of_days (secs div 86400);
          s = secs mod 86400 in
      pad 4 y @ ''-'' @ pad 2 m @ ''-'' @ pad 2 d @ ''T'' @
      pad 2 (s div 3600) @ '':'' @ pad 2 (s mod 3600 div 60) @ '':'' @ pad 2 (s mod 60) @
      zone_suffix off)"

text \<open>Known dates: the epoch, a leap day, the last second of a year seen from India.\<close>

lemma format_rfc3339_examples:
  "format_rfc3339 0 0 = ''1970-01-01T00:00:00Z''"
  "format_rfc3339 0 (951782400 * Second) = ''2000-02-29T00:00:00Z''"
  "format_rfc3339 330 (1767205799 * Second) = ''2025-12-31T23:59:59+05:30''"
  by code_simp+

end
