(* ===== verification/CircuitBreaker.thy ===== *)
theory CircuitBreaker
  imports Prelude
begin

text \<open>
  The circuit breaker of \<^verbatim>\<open>backend/internal/resilience/circuitbreaker.go\<close>. Each method
  is one critical section of the mutex, hence one function on the breaker record; the
  reading of the clock inside it is the argument \<open>now\<close>. The string type \<^verbatim>\<open>CBState\<close>
  only ever holds its three constants, so it is a datatype and the \<^verbatim>\<open>default\<close> branch of
  \<^verbatim>\<open>Allow\<close> disappears.
\<close>

section \<open>State\<close>

datatype CBState = CBClosed | CBOpen | CBHalfOpen

primrec CBState_string :: "CBState \<Rightarrow> string" where
  "CBState_string CBClosed = ''closed''"
| "CBState_string CBOpen = ''open''"
| "CBState_string CBHalfOpen = ''half-open''"

record CircuitBreaker =
  cb_name :: string
  maxFailures :: int
  cooldown :: duration
  cb_state :: CBState
  failures :: int
  lastFailure :: time
  openedAt :: time

text \<open>The zero value of \<^verbatim>\<open>time.Time\<close>: midnight of January 1 of year 1, UTC.\<close>

definition zero_time :: time where
  "zero_time = - 62135596800 * Second"

section \<open>Operations\<close>

definition NewCircuitBreaker :: "string \<Rightarrow> int \<Rightarrow> duration \<Rightarrow> CircuitBreaker" where
  "NewCircuitBreaker name mf cd =
     \<lparr>cb_name = name, maxFailures = mf, cooldown = cd, cb_state = CBClosed,
      failures = 0, lastFailure = zero_time, openedAt = zero_time\<rparr>"

definition Allow :: "time \<Rightarrow> CircuitBreaker \<Rightarrow> bool \<times> CircuitBreaker" where
  "Allow now cb =
     (case cb_state cb of
        CBClosed \<Rightarrow> (True, cb)
      | CBOpen \<Rightarrow>
          (if now - openedAt cb \<ge> cooldown cb then (True, cb\<lparr>cb_state := CBHalfOpen\<rparr>)
           else (False, cb))
      | CBHalfOpen \<Rightarrow> (False, cb))"

definition RecordSuccess :: "CircuitBreaker \<Rightarrow> CircuitBreaker" where
  "RecordSuccess cb = cb\<lparr>failures := 0, cb_state := CBClosed\<rparr>"

definition RecordFailure :: "time \<Rightarrow> CircuitBreaker \<Rightarrow> CircuitBreaker" where
  "RecordFailure now cb =
     (let cb1 = cb\<lparr>failures := failures cb + 1, lastFailure := now\<rparr> in
      case cb_state cb1 of
        CBClosed \<Rightarrow>
          (if failures cb1 \<ge> maxFailures cb1 then cb1\<lparr>cb_state := CBOpen, openedAt := now\<rparr>
           else cb1)
      | CBHalfOpen \<Rightarrow> cb1\<lparr>cb_state := CBOpen, openedAt := now\<rparr>
      | CBOpen \<Rightarrow> cb1)"

definition CB_State :: "time \<Rightarrow> CircuitBreaker \<Rightarrow> CBState \<times> CircuitBreaker" where
  "CB_State now cb =
     (let cb1 = (if cb_state cb = CBOpen \<and> now - openedAt cb \<ge> cooldown cb
                 then cb\<lparr>cb_state := CBHalfOpen\<rparr> else cb)
      in (cb_state cb1, cb1))"

definition CB_Name :: "CircuitBreaker \<Rightarrow> string" where
  "CB_Name cb = cb_name cb"

definition CB_Failures :: "CircuitBreaker \<Rightarrow> int" where
  "CB_Failures cb = failures cb"

lemmas cb_defs = Allow_def RecordSuccess_def RecordFailure_def CB_State_def

lemma Allow_config [simp]:
  "maxFailures (snd (Allow t b)) = maxFailures b" "cooldown (snd (Allow t b)) = cooldown b"
  "cb_name (snd (Allow t b)) = cb_name b" "failures (snd (Allow t b)) = failures b"
  "openedAt (snd (Allow t b)) = openedAt b"
  by (simp_all add: Allow_def split: CBState.splits)

section \<open>Histories of calls\<close>

datatype cb_event = EvAllow time | EvSuccess | EvFailure time | EvState time

text \<open>One call; the boolean says whether the call let a request through.\<close>

primrec cb_step :: "CircuitBreaker \<Rightarrow> cb_event \<Rightarrow> bool \<times> CircuitBreaker" where
  "cb_step cb (EvAllow t) = Allow t cb"
| "cb_step cb EvSuccess = (False, RecordSuccess cb)"
| "cb_step cb (EvFailure t) = (False, RecordFailure t cb)"
| "cb_step cb (EvState t) = (False, snd (CB_State t cb))"

primrec run_events :: "('b \<Rightarrow> 'e \<Rightarrow> bool \<times> 'b) \<Rightarrow> 'b \<Rightarrow> 'e list \<Rightarrow> bool list \<times> 'b" where
  "run_events step b [] = ([], b)"
| "run_events step b (e # es) =
     (fst (step b e) # fst (run_events step (snd (step b e)) es),
      snd (run_events step (snd (step b e)) es))"

lemma run_events_append:
  "run_events step b (es @ es') =
     (fst (run_events step b es) @ fst (run_events step (snd (run_events step b es)) es'),
      snd (run_events step (snd (run_events step b es)) es'))"
  by (induction es arbitrary: b) auto

text \<open>A report is what a caller that was let through owes the breaker.\<close>

definition is_report :: "cb_event \<Rightarrow> bool" where
  "is_report e \<longleftrightarrow> (case e of EvSuccess \<Rightarrow> True | EvFailure t \<Rightarrow> True | _ \<Rightarrow> False)"

lemma is_report_simps [simp]:
  "\<not> is_report (EvAllow t)" "is_report EvSuccess" "is_report (EvFailure t)"
  "\<not> is_report (EvState t)"
  by (simp_all add: is_report_def)

section \<open>The contract of a three-state guard\<close>

text \<open>
  What a caller of a breaker relies on, whatever counts the failures: a closed guard lets
  requests through, a half-open one does not, an open one may let one through and is then
  half-open, and only reports lead out of half-open.
\<close>

locale three_state_guard =
  fixes step :: "'b \<Rightarrow> cb_event \<Rightarrow> bool \<times> 'b"
    and phase :: "'b \<Rightarrow> CBState"
  assumes closed_grants: "phase b = CBClosed \<Longrightarrow> step b (EvAllow t) = (True, b)"
    and half_denies: "phase b = CBHalfOpen \<Longrightarrow> step b (EvAllow t) = (False, b)"
    and open_allow: "phase b = CBOpen \<Longrightarrow>
          step b (EvAllow t) = (False, b) \<or>
          fst (step b (EvAllow t)) \<and> phase (snd (step b (EvAllow t))) = CBHalfOpen"
    and observe_denies: "\<not> fst (step b (EvState t))"
    and observe_settled: "phase b \<noteq> CBOpen \<Longrightarrow> snd (step b (EvState t)) = b"
    and observe_open: "phase b = CBOpen \<Longrightarrow> phase (snd (step b (EvState t))) \<noteq> CBClosed"
    and report_denies: "is_report e \<Longrightarrow> \<not> fst (step b e)"
    and success_closes: "phase (snd (step b EvSuccess)) = CBClosed"
    and failure_keeps_off: "phase b \<noteq> CBClosed \<Longrightarrow> phase (snd (step b (EvFailure t))) = CBOpen"
begin

lemma half_open_absorbs:
  assumes "phase b = CBHalfOpen" and "\<forall>e \<in> set es. \<not> is_report e"
  shows "fst (run_events step b es) = replicate (length es) False \<and> snd (run_events step b es) = b"
  using assms(2)
proof (induction es)
  case (Cons e es)
  from Cons.prems have "step b e = (False, b)"
    using assms(1) half_denies [of b] observe_denies [of b] observe_settled [of b]
    by (cases e) (auto simp: prod_eq_iff)
  with Cons show ?case by simp
qed simp

lemma off_step:
  assumes "phase b \<noteq> CBClosed" and "\<not> is_report e"
  shows "phase (snd (step b e)) \<noteq> CBClosed \<and>
         (fst (step b e) \<longrightarrow> phase (snd (step b e)) = CBHalfOpen)"
proof (cases "phase b")
  case CBClosed
  with assms(1) show ?thesis by simp
next
  case CBOpen
  show ?thesis
  proof (cases e)
    case (EvAllow t)
    with CBOpen show ?thesis using open_allow [of b t] by auto
  next
    case (EvState t)
    with CBOpen show ?thesis using observe_open [of b t] observe_denies [of b t] by auto
  qed (use assms(2) in auto)
next
  case CBHalfOpen
  with assms(2) show ?thesis
    using half_denies [of b] observe_settled [of b] observe_denies [of b]
    by (cases e) (auto simp: prod_eq_iff)
qed

lemma single_probe:
  assumes "phase b \<noteq> CBClosed" and "\<forall>e \<in> set es. \<not> is_report e"
  shows "length (filter id (fst (run_events step b es))) \<le> 1"
  using assms
proof (induction es arbitrary: b)
  case (Cons e es)
  from Cons.prems have off: "phase (snd (step b e)) \<noteq> CBClosed"
    and half: "fst (step b e) \<Longrightarrow> phase (snd (step b e)) = CBHalfOpen"
    using off_step [of b e] by auto
  show ?case
  proof (cases "fst (step b e)")
    case True
    with half Cons.prems(2) show ?thesis
      using half_open_absorbs [of "snd (step b e)" es] by simp
  next
    case False
    with off Cons.prems(2) Cons.IH show ?thesis by simp
  qed
qed simp

end

interpretation cbg: three_state_guard cb_step cb_state
  by unfold_locales
    (auto simp: cb_defs Let_def is_report_def split: CBState.splits cb_event.splits)

section \<open>The breaker's own invariant\<close>

text \<open>
  Off the closed state the failure count has reached the threshold; in it, it has not.
  The health endpoint shows both numbers, so this is what it can show.
\<close>

definition cb_inv :: "CircuitBreaker \<Rightarrow> bool" where
  "cb_inv cb \<longleftrightarrow> 0 \<le> failures cb \<and> (cb_state cb = CBClosed \<longleftrightarrow> failures cb < maxFailures cb)"

lemma cb_inv_New: "1 \<le> mf \<Longrightarrow> cb_inv (NewCircuitBreaker name mf cd)"
  by (simp add: cb_inv_def NewCircuitBreaker_def)

lemma cb_step_config [simp]:
  "maxFailures (snd (cb_step b e)) = maxFailures b"
  "cooldown (snd (cb_step b e)) = cooldown b"
  "cb_name (snd (cb_step b e)) = cb_name b"
  by (cases e; simp add: cb_defs Let_def split: CBState.splits)+

lemma cb_step_inv: "1 \<le> maxFailures b \<Longrightarrow> cb_inv b \<Longrightarrow> cb_inv (snd (cb_step b e))"
  by (cases e) (auto simp: cb_inv_def cb_defs Let_def split: CBState.splits if_splits)

lemma cb_run_config [simp]:
  "maxFailures (snd (run_events cb_step b es)) = maxFailures b"
  "cooldown (snd (run_events cb_step b es)) = cooldown b"
  "cb_name (snd (run_events cb_step b es)) = cb_name b"
  by (induction es arbitrary: b) auto

lemma cb_run_inv: "1 \<le> maxFailures b \<Longrightarrow> cb_inv b \<Longrightarrow> cb_inv (snd (run_events cb_step b es))"
  by (induction es arbitrary: b) (auto simp: cb_step_inv)

section \<open>The breaker against its history\<close>

text \<open>The failures reported since the last success, read off the history alone.\<close>

primrec fails_since_success :: "cb_event list \<Rightarrow> int \<Rightarrow> int" where
  "fails_since_success [] n = n"
| "fails_since_success (e # es) n =
     fails_since_success es (case e of EvSuccess \<Rightarrow> 0 | EvFailure t \<Rightarrow> n + 1 | _ \<Rightarrow> n)"

lemma run_failures:
  "failures (snd (run_events cb_step b es)) = fails_since_success es (failures b)"
proof (induction es arbitrary: b)
  case (Cons e es)
  have "failures (snd (cb_step b e)) =
          (case e of EvSuccess \<Rightarrow> 0 | EvFailure t \<Rightarrow> failures b + 1 | _ \<Rightarrow> failures b)"
    by (cases e) (auto simp: cb_defs Let_def split: CBState.splits)
  with Cons show ?case by simp
qed simp

lemma fails_since_success_failures:
  "fails_since_success (map EvFailure ts) n = n + int (length ts)"
  by (induction ts arbitrary: n) auto


section \<open>Properties\<close>

text \<open>
  Claim C12. The breaker refines its history: after any sequence of calls on a new breaker
  with a positive threshold, the failure count is the number of failures reported since the
  last success, and the circuit is closed exactly while that number is below the threshold.
\<close>

theorem breaker_refines_history:
  assumes "1 \<le> mf"
  shows "failures (snd (run_events cb_step (NewCircuitBreaker name mf cd) es)) =
           fails_since_success es 0 \<and>
         (cb_state (snd (run_events cb_step (NewCircuitBreaker name mf cd) es)) = CBClosed
            \<longleftrightarrow> fails_since_success es 0 < mf)"
proof -
  let ?b = "NewCircuitBreaker name mf cd"
  have cfg: "maxFailures ?b = mf" "failures ?b = 0" by (simp_all add: NewCircuitBreaker_def)
  have "cb_inv (snd (run_events cb_step ?b es))"
    using assms by (intro cb_run_inv cb_inv_New) (simp_all add: cfg)
  then show ?thesis by (simp add: cb_inv_def run_failures cfg)
qed

theorem breaker_refines_history_witness:
  "cb_state (snd (run_events cb_step (NewCircuitBreaker ''scra'' 2 30)
     [EvFailure 1, EvSuccess, EvFailure 2, EvFailure 3])) \<noteq> CBClosed"
  using breaker_refines_history [of 2 "''scra''" 30 "[EvFailure 1, EvSuccess, EvFailure 2, EvFailure 3]"]
  by simp

text \<open>
  Tripping and cooling down: after exactly the threshold's number of consecutive
  failures a new breaker is open since the last of them, and from then on \<^verbatim>\<open>Allow\<close> answers
  true exactly when the cooldown has passed since that failure.
\<close>

theorem breaker_trips_and_cools:
  assumes "ts \<noteq> []"
  shows "cb_state (snd (run_events cb_step (NewCircuitBreaker name (int (length ts)) cd)
           (map EvFailure ts))) = CBOpen \<and>
         (\<forall>t. fst (Allow t (snd (run_events cb_step (NewCircuitBreaker name (int (length ts)) cd)
           (map EvFailure ts)))) \<longleftrightarrow> last ts + cd \<le> t)"
proof -
  define b where "b = NewCircuitBreaker name (int (length ts)) cd"
  obtain us u where ts: "ts = us @ [u]" using assms by (cases ts rule: rev_exhaust) auto
  define m where "m = snd (run_events cb_step b (map EvFailure us))"
  have b: "maxFailures b = int (length ts)" "cooldown b = cd" "failures b = 0"
    by (simp_all add: b_def NewCircuitBreaker_def)
  then have m: "maxFailures m = int (length ts)" "cooldown m = cd" "failures m = int (length us)"
    by (simp_all add: m_def run_failures fails_since_success_failures)
  have "cb_inv m" unfolding m_def
    by (rule cb_run_inv) (use b ts in \<open>simp_all add: b_def cb_inv_New\<close>)
  with m ts have "cb_state m = CBClosed" by (simp add: cb_inv_def)
  with m have "snd (cb_step m (EvFailure u)) =
      m\<lparr>failures := int (length ts), lastFailure := u, cb_state := CBOpen, openedAt := u\<rparr>"
    by (simp add: RecordFailure_def ts)
  moreover have "snd (run_events cb_step b (map EvFailure ts)) = snd (cb_step m (EvFailure u))"
    by (simp add: ts m_def run_events_append)
  ultimately have "snd (run_events cb_step b (map EvFailure ts)) =
      m\<lparr>failures := int (length ts), lastFailure := u, cb_state := CBOpen, openedAt := u\<rparr>"
    by simp
  then show ?thesis unfolding b_def [symmetric] using m(2) ts by (auto simp: Allow_def)
qed

theorem breaker_trips_and_cools_witness:
  "fst (Allow 40 (snd (run_events cb_step (NewCircuitBreaker ''scra'' (int (length [1, 2, 9])) 30)
     (map EvFailure [1, 2, 9]))))"
  using breaker_trips_and_cools [of "[1, 2, 9]" "''scra''" 30] by simp

text \<open>
  One probe at a time: while a breaker that is not closed has heard no report, any
  sequence of \<^verbatim>\<open>Allow\<close> and \<^verbatim>\<open>State\<close> calls, at any times, lets at most one request through.
\<close>

theorem breaker_single_probe:
  "cb_state b \<noteq> CBClosed \<Longrightarrow> \<forall>e \<in> set es. \<not> is_report e \<Longrightarrow>
     length (filter id (fst (run_events cb_step b es))) \<le> 1"
  by (rule cbg.single_probe)

theorem breaker_single_probe_witness:
  "length (filter id (fst (run_events cb_step
     ((NewCircuitBreaker ''scra'' 2 30)\<lparr>cb_state := CBOpen\<rparr>)
     [EvAllow 5, EvAllow 31, EvState 40, EvAllow 99]))) \<le> 1"
  by (rule breaker_single_probe) simp_all

text \<open>
  Recovery: the probe an open breaker lets through after its cooldown decides what
  comes next. A success closes the circuit and clears the count; a failure at time \<open>u\<close>
  re-opens it and starts a new cooldown at \<open>u\<close>.
\<close>

theorem breaker_probe_decides:
  assumes "cb_state b = CBOpen" and "openedAt b + cooldown b \<le> t"
  shows "fst (Allow t b) \<and>
         cb_state (RecordSuccess (snd (Allow t b))) = CBClosed \<and>
         failures (RecordSuccess (snd (Allow t b))) = 0 \<and>
         cb_state (RecordFailure u (snd (Allow t b))) = CBOpen \<and>
         (fst (Allow t' (RecordFailure u (snd (Allow t b)))) \<longleftrightarrow> u + cooldown b \<le> t')"
  using assms by (auto simp: cb_defs)

theorem breaker_probe_decides_witness:
  "fst (Allow 40 ((NewCircuitBreaker ''scra'' 2 30)\<lparr>cb_state := CBOpen, openedAt := 10\<rparr>)) \<and>
   \<not> fst (Allow 79 (RecordFailure 50 (snd (Allow 40
     ((NewCircuitBreaker ''scra'' 2 30)\<lparr>cb_state := CBOpen, openedAt := 10\<rparr>)))))"
  using breaker_probe_decides
    [of "(NewCircuitBreaker ''scra'' 2 30)\<lparr>cb_state := CBOpen, openedAt := 10\<rparr>" 40 50 79]
  by (simp add: NewCircuitBreaker_def)



end
