(* ===== verification/GoErrors.thy ===== *)
theory GoErrors
  imports Prelude
begin

text \<open>
  Error values and cancellation contexts, from \<^verbatim>\<open>backend/internal/client/client.go\<close> and
  the parts of \<^verbatim>\<open>errors\<close>, \<^verbatim>\<open>fmt\<close> and \<^verbatim>\<open>context\<close> it relies on. An error is a chain:
  \<open>WrapError pre e post\<close> is what \<^verbatim>\<open>fmt.Errorf\<close> builds from a format with one
  \<^verbatim>\<open>%w\<close>, and \<^verbatim>\<open>errors.As\<close> walks down the chain.
\<close>

datatype goerr =
    ErrorString string
  | WrapError string goerr string
  | PermanentError goerr
  | NetError string bool
  | Canceled
  | DeadlineExceeded

text \<open>The method \<^verbatim>\<open>Error()\<close> of each kind of error.\<close>

primrec error_text :: "goerr \<Rightarrow> string" where
  "error_text (ErrorString s) = s"
| "error_text (WrapError pre e post) = pre @ error_text e @ post"
| "error_text (PermanentError e) = error_text e"
| "error_text (NetError s b) = s"
| "error_text Canceled = ''context canceled''"
| "error_text DeadlineExceeded = ''context deadline exceeded''"

text \<open>\<^verbatim>\<open>errors.As\<close>: the first error of the chain that \<open>f\<close> accepts.\<close>

primrec errors_as :: "(goerr \<Rightarrow> 'a option) \<Rightarrow> goerr \<Rightarrow> 'a option" where
  "errors_as f (ErrorString s) = f (ErrorString s)"
| "errors_as f (WrapError pre e post) =
     (case f (WrapError pre e post) of Some x \<Rightarrow> Some x | None \<Rightarrow> errors_as f e)"
| "errors_as f (PermanentError e) =
     (case f (PermanentError e) of Some x \<Rightarrow> Some x | None \<Rightarrow> errors_as f e)"
| "errors_as f (NetError s b) = f (NetError s b)"
| "errors_as f Canceled = f Canceled"
| "errors_as f DeadlineExceeded = f DeadlineExceeded"

section \<open>The sentinel errors of the client package\<close>

definition ErrNotFound :: goerr where
  "ErrNotFound = PermanentError (ErrorString ''not found'')"

definition ErrServiceUnavailable :: goerr where
  "ErrServiceUnavailable = ErrorString ''service unavailable''"

definition ErrTimeout :: goerr where
  "ErrTimeout = ErrorString ''request timed out''"

definition ErrRateLimited :: goerr where
  "ErrRateLimited = ErrorString ''rate limited''"

definition ErrMalformedResponse :: goerr where
  "ErrMalformedResponse = ErrorString ''malformed xml response''"

definition ErrSearchFailed :: goerr where
  "ErrSearchFailed = ErrorString ''scra search failed''"

lemmas sentinel_defs = ErrNotFound_def ErrServiceUnavailable_def ErrTimeout_def
  ErrRateLimited_def ErrMalformedResponse_def ErrSearchFailed_def

section \<open>Classification\<close>

primrec as_permanent :: "goerr \<Rightarrow> goerr option" where
  "as_permanent (ErrorString s) = None"
| "as_permanent (WrapError pre e post) = None"
| "as_permanent (PermanentError e) = Some e"
| "as_permanent (NetError s b) = None"
| "as_permanent Canceled = None"
| "as_permanent DeadlineExceeded = None"

definition IsPermanent :: "goerr \<Rightarrow> bool" where
  "IsPermanent err \<longleftrightarrow> errors_as as_permanent err \<noteq> None"

text \<open>The errors that have a method \<^verbatim>\<open>Timeout() bool\<close>, with its value.\<close>

primrec as_timeout :: "goerr \<Rightarrow> bool option" where
  "as_timeout (ErrorString s) = None"
| "as_timeout (WrapError pre e post) = None"
| "as_timeout (PermanentError e) = None"
| "as_timeout (NetError s b) = Some b"
| "as_timeout Canceled = None"
| "as_timeout DeadlineExceeded = Some True"

lemma IsPermanent_simps [simp]:
  "\<not> IsPermanent (ErrorString s)"
  "IsPermanent (WrapError pre e post) = IsPermanent e"
  "IsPermanent (PermanentError e)"
  "\<not> IsPermanent (NetError s b)"
  "\<not> IsPermanent Canceled"
  "\<not> IsPermanent DeadlineExceeded"
  by (simp_all add: IsPermanent_def)

section \<open>Contexts\<close>

text \<open>
  A context is the moment at which it is done, with the error \<^verbatim>\<open>ctx.Err()\<close> then gives;
  \<^verbatim>\<open>context.Background()\<close> is never done.
\<close>

type_synonym gctx = "(time \<times> goerr) option"

definition Background :: gctx where
  "Background = None"

definition ctx_Err :: "gctx \<Rightarrow> time \<Rightarrow> goerr option" where
  "ctx_Err ctx now = (case ctx of None \<Rightarrow> None | Some (t, e) \<Rightarrow> if t \<le> now then Some e else None)"

text \<open>\<^verbatim>\<open>context.WithTimeout(ctx, d)\<close> at time \<open>now\<close>: the earlier of the two moments counts.\<close>

definition WithTimeout :: "gctx \<Rightarrow> duration \<Rightarrow> time \<Rightarrow> gctx" where
  "WithTimeout ctx d now =
     (case ctx of
        None \<Rightarrow> Some (now + d, DeadlineExceeded)
      | Some (t, e) \<Rightarrow> if t \<le> now + d then Some (t, e) else Some (now + d, DeadlineExceeded))"

lemma ctx_Err_Background [simp]: "ctx_Err Background now = None"
  by (simp add: ctx_Err_def Background_def)

lemma WithTimeout_Background [simp]: "WithTimeout Background d now = Some (now + d, DeadlineExceeded)"
  by (simp add: WithTimeout_def Background_def)

lemma ctx_Err_mono: "ctx_Err ctx t = Some e \<Longrightarrow> t \<le> t' \<Longrightarrow> ctx_Err ctx t' = Some e"
  by (auto simp: ctx_Err_def split: option.splits if_splits)

definition isTimeout :: "gctx \<Rightarrow> time \<Rightarrow> goerr \<Rightarrow> bool" where
  "isTimeout ctx now err =
     (if ctx_Err ctx now \<noteq> None then True
      else (case errors_as as_timeout err of Some b \<Rightarrow> b | None \<Rightarrow> False))"

section \<open>How the clients wrap errors\<close>

text \<open>\<^verbatim>\<open>fmt.Errorf("<what>: %w", err)\<close>.\<close>

definition wrap_ctx :: "string \<Rightarrow> goerr \<Rightarrow> goerr" where
  "wrap_ctx what e = WrapError (what @ '': '') e ''''"

text \<open>\<^verbatim>\<open>fmt.Errorf("%w: %s", err, detail)\<close>.\<close>

definition wrap_detail :: "goerr \<Rightarrow> string \<Rightarrow> goerr" where
  "wrap_detail e detail = WrapError '''' e ('': '' @ detail)"

lemma IsPermanent_wrap [simp]:
  "IsPermanent (wrap_ctx what e) = IsPermanent e"
  "IsPermanent (wrap_detail e detail) = IsPermanent e"
  by (simp_all add: wrap_ctx_def wrap_detail_def)

lemma error_text_wrap [simp]:
  "error_text (wrap_ctx what e) = what @ '': '' @ error_text e"
  "error_text (wrap_detail e detail) = error_text e @ '': '' @ detail"
  by (simp_all add: wrap_ctx_def wrap_detail_def)

lemma IsPermanent_sentinels [simp]:
  "IsPermanent ErrNotFound"
  "\<not> IsPermanent ErrServiceUnavailable"
  "\<not> IsPermanent ErrTimeout"
  "\<not> IsPermanent ErrRateLimited"
  "\<not> IsPermanent ErrMalformedResponse"
  "\<not> IsPermanent ErrSearchFailed"
  by (simp_all add: sentinel_defs)

text \<open>
  Permanence is decided by the chain alone: a \<^verbatim>\<open>PermanentError\<close> somewhere below any
  number of \<^verbatim>\<open>%w\<close> wrappers, and nothing else, is permanent.
\<close>

primrec wrap_all :: "(string \<times> string) list \<Rightarrow> goerr \<Rightarrow> goerr" where
  "wrap_all [] e = e"
| "wrap_all (w # ws) e = WrapError (fst w) (wrap_all ws e) (snd w)"

lemma IsPermanent_wrap_all [simp]: "IsPermanent (wrap_all ws e) = IsPermanent e"
  by (induction ws) auto

lemma IsPermanent_iff_chain: "IsPermanent e \<longleftrightarrow> (\<exists>ws e'. e = wrap_all ws (PermanentError e'))"
proof
  assume "IsPermanent e"
  then show "\<exists>ws e'. e = wrap_all ws (PermanentError e')"
  proof (induction e)
    case (WrapError pre e post)
    then obtain ws e' where "e = wrap_all ws (PermanentError e')" by auto
    then have "WrapError pre e post = wrap_all ((pre, post) # ws) (PermanentError e')" by simp
    then show ?case by blast
  next
    case (PermanentError e)
    have "PermanentError e = wrap_all [] (PermanentError e)" by simp
    then show ?case by blast
  qed simp_all
next
  assume "\<exists>ws e'. e = wrap_all ws (PermanentError e')"
  then show "IsPermanent e" by auto
qed

end
