(* ===== verification/RateLimiter.thy ===== *)
theory RateLimiter
  imports GoErrors
begin

text \<open>
  The token bucket of \<^verbatim>\<open>backend/internal/resilience/ratelimiter.go\<close>: a channel of
  capacity one, a ticker that deposits a token per interval, and \<^verbatim>\<open>Wait\<close>. The refill
  goroutine is taken to run promptly, so the bucket at time \<open>now\<close> is what the ticks up to
  \<open>now\<close> have left in it; waiters are served in the order in which they call. Go panics
  (a ticker with a non-positive interval, a second \<^verbatim>\<open>Stop\<close>) are \<open>None\<close>.
\<close>

section \<open>State and operations\<close>

record RateLimiter =
  rl_interval :: duration
  rl_next_tick :: time
  rl_tokens :: nat
  rl_stopped :: bool

definition NewRateLimiter :: "rat \<Rightarrow> time \<Rightarrow> RateLimiter option" where
  "NewRateLimiter rate now =
     (let iv = trunc (of_int Second / rate) in
      if iv \<le> 0 then None
      else Some \<lparr>rl_interval = iv, rl_next_tick = now + iv, rl_tokens = 1, rl_stopped = False\<rparr>)"

text \<open>One tick of \<^verbatim>\<open>refill\<close>: deposit a token, or drop the tick when the bucket is full.\<close>

definition refill_tick :: "RateLimiter \<Rightarrow> RateLimiter" where
  "refill_tick rl =
     rl\<lparr>rl_tokens := (if rl_tokens rl < 1 then rl_tokens rl + 1 else rl_tokens rl),
        rl_next_tick := rl_next_tick rl + rl_interval rl\<rparr>"

text \<open>The loop of \<^verbatim>\<open>refill\<close>, run over the ticks that have fired by time \<open>now\<close>.\<close>

function refill :: "time \<Rightarrow> RateLimiter \<Rightarrow> RateLimiter" where
  "refill now rl =
     (if \<not> rl_stopped rl \<and> 0 < rl_interval rl \<and> rl_next_tick rl \<le> now
      then refill now (refill_tick rl) else rl)"
  by pat_completeness auto
termination
  by (relation "measure (\<lambda>(now, rl). nat (now + 1 - rl_next_tick rl))")
    (auto simp: refill_tick_def)

declare refill.simps [simp del]

datatype wait_result = Granted time | WaitErr time goerr | Blocked

definition take_token :: "RateLimiter \<Rightarrow> RateLimiter" where
  "take_token rl = rl\<lparr>rl_tokens := rl_tokens rl - 1\<rparr>"

text \<open>
  \<^verbatim>\<open>Wait\<close>, called at time \<open>now\<close>. When both cases of the \<^verbatim>\<open>select\<close> are ready Go picks
  one at random: \<open>coin\<close> says whether it picks the token.
\<close>

definition Wait :: "bool \<Rightarrow> gctx \<Rightarrow> time \<Rightarrow> RateLimiter \<Rightarrow> wait_result \<times> RateLimiter" where
  "Wait coin ctx now rl =
     (let rl1 = refill now rl in
      case ctx_Err ctx now of
        Some e \<Rightarrow>
          if rl_tokens rl1 > 0 \<and> coin then (Granted now, take_token rl1)
          else (WaitErr now e, rl1)
      | None \<Rightarrow>
          if rl_tokens rl1 > 0 then (Granted now, take_token rl1)
          else if rl_stopped rl1 then
            (case ctx of None \<Rightarrow> (Blocked, rl1) | Some (d, e) \<Rightarrow> (WaitErr d e, rl1))
          else
            (let t = rl_next_tick rl1; granted = (Granted t, take_token (refill_tick rl1)) in
             case ctx of
               None \<Rightarrow> granted
             | Some (d, e) \<Rightarrow>
                 if d < t \<or> d = t \<and> \<not> coin then (WaitErr d e, rl1) else granted))"

definition Stop :: "time \<Rightarrow> RateLimiter \<Rightarrow> RateLimiter option" where
  "Stop now rl = (if rl_stopped rl then None else Some ((refill now rl)\<lparr>rl_stopped := True\<rparr>))"

section \<open>The bucket\<close>

definition rl_inv :: "RateLimiter \<Rightarrow> bool" where
  "rl_inv rl \<longleftrightarrow> 0 < rl_interval rl \<and> rl_tokens rl \<le> 1"

definition rl_live :: "RateLimiter \<Rightarrow> bool" where
  "rl_live rl \<longleftrightarrow> rl_inv rl \<and> \<not> rl_stopped rl"

lemma refill_tick_simps [simp]:
  "rl_interval (refill_tick rl) = rl_interval rl"
  "rl_stopped (refill_tick rl) = rl_stopped rl"
  "rl_next_tick (refill_tick rl) = rl_next_tick rl + rl_interval rl"
  by (simp_all add: refill_tick_def)

lemma take_token_simps [simp]:
  "rl_interval (take_token rl) = rl_interval rl"
  "rl_stopped (take_token rl) = rl_stopped rl"
  "rl_next_tick (take_token rl) = rl_next_tick rl"
  "rl_tokens (take_token rl) = rl_tokens rl - 1"
  by (simp_all add: take_token_def)

lemma rl_inv_refill_tick: "rl_inv rl \<Longrightarrow> rl_inv (refill_tick rl)"
  by (auto simp: rl_inv_def refill_tick_def)

lemma refill_facts:
  "rl_inv rl \<Longrightarrow>
     rl_inv (refill now rl) \<and> rl_stopped (refill now rl) = rl_stopped rl \<and>
     rl_interval (refill now rl) = rl_interval rl \<and>
     rl_next_tick rl \<le> rl_next_tick (refill now rl) \<and>
     (\<not> rl_stopped rl \<longrightarrow> now < rl_next_tick (refill now rl)) \<and>
     (rl_tokens (refill now rl) \<noteq> rl_tokens rl \<longrightarrow>
        rl_next_tick rl \<le> now \<and> rl_next_tick rl + rl_interval rl \<le> rl_next_tick (refill now rl))"
proof (induction now rl rule: refill.induct)
  case (1 now rl)
  show ?case
  proof (cases "\<not> rl_stopped rl \<and> 0 < rl_interval rl \<and> rl_next_tick rl \<le> now")
    case True
    with "1" have "refill now rl = refill now (refill_tick rl)"
      by (simp add: refill.simps [of now rl])
    with "1" True show ?thesis by (auto simp: rl_inv_refill_tick)
  next
    case False
    with "1.prems" show ?thesis by (auto simp: refill.simps [of now rl] rl_inv_def)
  qed
qed

lemma rl_live_refill: "rl_live rl \<Longrightarrow> rl_live (refill now rl)"
  by (simp add: rl_live_def refill_facts)

lemma rl_inv_New: "NewRateLimiter rate now = Some rl \<Longrightarrow> rl_live rl"
  by (auto simp: NewRateLimiter_def rl_live_def rl_inv_def Let_def split: if_splits)

lemma Wait_inv: "rl_inv rl \<Longrightarrow> rl_inv (snd (Wait coin ctx now rl))"
  using refill_facts [of rl now]
  by (auto simp: Wait_def Let_def rl_inv_def refill_tick_def split: option.splits prod.splits)

lemma Wait_live: "rl_live rl \<Longrightarrow> rl_live (snd (Wait coin ctx now rl))"
  using refill_facts [of rl now]
  by (auto simp: Wait_def Let_def rl_live_def rl_inv_def refill_tick_def
      split: option.splits prod.splits)

section \<open>The contract of a token source\<close>

text \<open>Callers that arrive one after the other are served in that order.\<close>

primrec serve :: "(time \<Rightarrow> 'l \<Rightarrow> wait_result \<times> 'l) \<Rightarrow> 'l \<Rightarrow> time list \<Rightarrow> wait_result list" where
  "serve w l [] = []"
| "serve w l (a # as) = fst (w a l) # serve w (snd (w a l)) as"

text \<open>
  What a caller of the limiter relies on: with a context that is never done, a live source
  grants, not before it is asked, and stays live.
\<close>

locale token_source =
  fixes wait :: "bool \<Rightarrow> gctx \<Rightarrow> time \<Rightarrow> 'l \<Rightarrow> wait_result \<times> 'l"
    and live :: "'l \<Rightarrow> bool"
  assumes wait_grants: "live l \<Longrightarrow> \<exists>t \<ge> now. fst (wait coin Background now l) = Granted t"
    and wait_live: "live l \<Longrightarrow> live (snd (wait coin ctx now l))"
begin

lemma wait_granted:
  assumes "live l"
  obtains t l' where "wait coin Background now l = (Granted t, l')" "now \<le> t" "live l'"
  using wait_grants [OF assms, of now coin] wait_live [OF assms, of coin Background now]
  by (metis prod.collapse)

lemma all_served: "live l \<Longrightarrow> \<forall>r \<in> set (serve (wait coin Background) l as). \<exists>t. r = Granted t"
proof (induction as arbitrary: l)
  case (Cons a as)
  from wait_granted [OF Cons.prems, of coin a]
  obtain t l' where "wait coin Background a l = (Granted t, l')" "live l'" by metis
  with Cons.IH show ?case by simp
qed simp

end

lemma Wait_Background:
  assumes "rl_live rl"
  shows "Wait coin Background now rl =
    (if rl_tokens (refill now rl) > 0 then (Granted now, take_token (refill now rl))
     else (Granted (rl_next_tick (refill now rl)), take_token (refill_tick (refill now rl))))"
  using rl_live_refill [OF assms, of now] by (simp add: Wait_def Let_def Background_def rl_live_def ctx_Err_def)

interpretation rls: token_source Wait rl_live
proof
  fix l now coin
  assume "rl_live l"
  then show "\<exists>t \<ge> now. fst (Wait coin Background now l) = Granted t"
    using refill_facts [of l now] by (auto simp: Wait_Background rl_live_def less_imp_le)
qed (rule Wait_live)

section \<open>Spacing of the grants\<close>

text \<open>The times at which callers with a background context are let through.\<close>

primrec grant_time :: "wait_result \<Rightarrow> time" where
  "grant_time (Granted t) = t"
| "grant_time (WaitErr t e) = t"
| "grant_time Blocked = 0"

definition grants :: "RateLimiter \<Rightarrow> time list \<Rightarrow> time list" where
  "grants rl as = map grant_time (serve (Wait False Background) rl as)"

lemma grants_simps [simp]:
  "grants rl [] = []"
  "Wait False Background a rl = (Granted g, rl') \<Longrightarrow> grants rl (a # as) = g # grants rl' as"
  by (simp_all add: grants_def)

lemma length_serve [simp]: "length (serve w l as) = length as"
  by (induction as arbitrary: l) auto

lemma length_grants [simp]: "length (grants rl as) = length as"
  by (simp add: grants_def)

lemma serve_grants:
  "rl_live rl \<Longrightarrow> serve (Wait False Background) rl as = map Granted (grants rl as)"
  using rls.all_served [of rl False as] by (force simp: grants_def intro!: map_idI [symmetric])

text \<open>
  After a grant at \<open>g\<close> the bucket is empty and the next tick lies ahead; the next grant is
  no earlier than that tick, and the one after needs a further tick.
\<close>

lemma Wait_step:
  assumes "rl_live rl"
  obtains g rl' where "Wait coin Background now rl = (Granted g, rl')" "rl_live rl'"
    "rl_tokens rl' = 0" "rl_interval rl' = rl_interval rl" "g < rl_next_tick rl'"
    "rl_tokens rl = 0 \<Longrightarrow> rl_next_tick rl \<le> g \<and> rl_next_tick rl + rl_interval rl \<le> rl_next_tick rl'"
proof -
  let ?r = "refill now rl"
  have r: "rl_live ?r" "rl_inv ?r" "now < rl_next_tick ?r" "rl_interval ?r = rl_interval rl"
    "rl_next_tick rl \<le> rl_next_tick ?r" "0 < rl_interval rl"
    and ch: "rl_tokens ?r \<noteq> rl_tokens rl \<Longrightarrow>
        rl_next_tick rl \<le> now \<and> rl_next_tick rl + rl_interval rl \<le> rl_next_tick ?r"
    using refill_facts [of rl now] rl_live_refill [OF assms, of now] assms
    by (auto simp: rl_live_def rl_inv_def)
  have live: "rl_live (snd (Wait coin Background now rl))" by (rule Wait_live) (rule assms)
  show thesis
  proof (cases "rl_tokens ?r > 0")
    case True
    then have "Wait coin Background now rl = (Granted now, take_token ?r)"
      by (simp add: Wait_Background [OF assms])
    with True r ch live show thesis
      by (intro that [of now "take_token ?r"]) (auto simp: rl_inv_def)
  next
    case False
    then have "Wait coin Background now rl = (Granted (rl_next_tick ?r), take_token (refill_tick ?r))"
      by (simp add: Wait_Background [OF assms])
    with False r live show thesis
      by (intro that [of "rl_next_tick ?r" "take_token (refill_tick ?r)"])
        (auto simp: refill_tick_def)
  qed
qed

lemma grants_from_empty:
  "rl_live rl \<Longrightarrow> rl_tokens rl = 0 \<Longrightarrow> k < length as \<Longrightarrow>
     rl_next_tick rl + int k * rl_interval rl \<le> grants rl as ! k"
proof (induction as arbitrary: rl k)
  case (Cons a as)
  obtain g rl' where w: "Wait False Background a rl = (Granted g, rl')" "rl_live rl'"
    "rl_tokens rl' = 0" "rl_interval rl' = rl_interval rl" "rl_next_tick rl \<le> g"
    "rl_next_tick rl + rl_interval rl \<le> rl_next_tick rl'"
    using Wait_step [OF Cons.prems(1)] Cons.prems(2) by metis
  show ?case
  proof (cases k)
    case 0
    with w show ?thesis by simp
  next
    case (Suc j)
    with Cons.prems(3) w Cons.IH [of rl' j] show ?thesis by (simp add: algebra_simps)
  qed
qed simp

lemma grants_after_first:
  assumes "rl_live rl" "Suc k < length as"
  shows "grants rl as ! 0 + int k * rl_interval rl < grants rl as ! Suc k"
proof (cases as)
  case (Cons a as')
  obtain g rl' where w: "Wait False Background a rl = (Granted g, rl')" "rl_live rl'"
    "rl_tokens rl' = 0" "rl_interval rl' = rl_interval rl" "g < rl_next_tick rl'"
    using Wait_step [OF assms(1)] by metis
  with grants_from_empty [of rl' k as'] assms(2) Cons show ?thesis by auto
qed (use assms in simp)

lemma grants_drop:
  "rl_live rl \<Longrightarrow> i \<le> length as \<Longrightarrow>
     \<exists>rl'. rl_live rl' \<and> rl_interval rl' = rl_interval rl \<and>
           drop i (grants rl as) = grants rl' (drop i as)"
proof (induction i arbitrary: rl as)
  case 0
  then show ?case by auto
next
  case (Suc i)
  then obtain a as' where as: "as = a # as'" by (cases as) auto
  obtain g rl' where w: "Wait False Background a rl = (Granted g, rl')" "rl_live rl'"
    "rl_interval rl' = rl_interval rl"
    using Wait_step [OF Suc.prems(1)] by metis
  with Suc.IH [of rl' as'] Suc.prems as show ?case by auto
qed

section \<open>Properties\<close>

text \<open>
  The limiter paces its callers: whatever the arrival times, of any \<open>n + 2\<close>
  consecutive grants of a running limiter the last comes more than \<open>n\<close> intervals after the
  first, and every caller is served.
\<close>

theorem limiter_spacing:
  assumes "rl_live rl" and "i + n + 1 < length as"
  shows "serve (Wait False Background) rl as = map Granted (grants rl as) \<and>
         grants rl as ! i + int n * rl_interval rl < grants rl as ! (i + n + 1)"
proof -
  obtain rl' where r: "rl_live rl'" "rl_interval rl' = rl_interval rl"
    "drop i (grants rl as) = grants rl' (drop i as)"
    using grants_drop [OF assms(1), of i as] assms(2) by auto
  have "grants rl' (drop i as) ! 0 + int n * rl_interval rl' < grants rl' (drop i as) ! Suc n"
    using grants_after_first [OF r(1), of n "drop i as"] assms(2) by simp
  with r assms show ?thesis by (simp add: serve_grants flip: r(3))
qed

theorem limiter_spacing_witness:
  "serve (Wait False Background)
     \<lparr>rl_interval = 5, rl_next_tick = 5, rl_tokens = 1, rl_stopped = False\<rparr> [0, 0, 0, 0] =
   map Granted (grants
     \<lparr>rl_interval = 5, rl_next_tick = 5, rl_tokens = 1, rl_stopped = False\<rparr> [0, 0, 0, 0]) \<and>
   grants \<lparr>rl_interval = 5, rl_next_tick = 5, rl_tokens = 1, rl_stopped = False\<rparr> [0, 0, 0, 0] ! 0
     + int 2 * rl_interval \<lparr>rl_interval = 5, rl_next_tick = 5, rl_tokens = 1, rl_stopped = False\<rparr> <
   grants \<lparr>rl_interval = 5, rl_next_tick = 5, rl_tokens = 1, rl_stopped = False\<rparr> [0, 0, 0, 0]
     ! (0 + 2 + 1)"
  by (rule limiter_spacing) (simp_all add: rl_live_def rl_inv_def)

text \<open>
  Three requests in half a second: the limiter main builds for the court service,
  \<^verbatim>\<open>NewRateLimiter(2)\<close>, can let three callers through within 501 ms. A full bucket is
  spent just before a tick, and the two ticks that follow serve two waiting callers, so the
  two requests per second of the documentation hold on average only.
\<close>

theorem court_limiter_burst:
  "map_option (\<lambda>rl. grants rl [1499 * Millisecond, 1499 * Millisecond, 1499 * Millisecond])
     (NewRateLimiter 2 0) =
   Some [1499 * Millisecond, 1500 * Millisecond, 2000 * Millisecond]"
proof -
  let ?rl = "\<lambda>n k. \<lparr>rl_interval = 500000000, rl_next_tick = n, rl_tokens = k, rl_stopped = False\<rparr>"
  have live: "k \<le> 1 \<Longrightarrow> rl_live (?rl n k)" for n k by (simp add: rl_live_def rl_inv_def)
  have new: "NewRateLimiter 2 0 = Some (?rl 500000000 1)"
    by (simp add: NewRateLimiter_def trunc_def Second_def Millisecond_def)
  have "refill 1499000000 (?rl 500000000 1) = ?rl 1500000000 1"
    by (simp add: refill.simps refill_tick_def)
  then have w1: "Wait False Background 1499000000 (?rl 500000000 1) = (Granted 1499000000, ?rl 1500000000 0)"
    by (simp add: Wait_Background [OF live] take_token_def)
  have w2: "Wait False Background 1499000000 (?rl n 0) = (Granted n, ?rl (n + 500000000) 0)"
    if "1499000000 < n" for n
    using that by (simp add: Wait_Background [OF live] refill.simps take_token_def refill_tick_def)
  show ?thesis by (simp add: new Millisecond_def w1 w2 del: One_nat_def)
qed

end
