(* ===== verification/Http.thy ===== *)
theory Http
  imports GoErrors
begin

text \<open>
  What the gateway uses of Go's standard library to talk to a service: documents as
  \<^verbatim>\<open>encoding/json\<close> and \<^verbatim>\<open>encoding/xml\<close> see them, \<^verbatim>\<open>net/http\<close> with its client
  timeout, \<^verbatim>\<open>time.After\<close>, \<^verbatim>\<open>math/rand\<close>. The remote services are not part of the
  gateway: the field \<open>net\<close> of the world is an arbitrary function that says what comes back
  for the n-th request. Every theorem holds for all of them.
\<close>

section \<open>Documents\<close>

text \<open>A number literal without fraction and exponent is a \<open>JInt\<close>, any other a \<open>JDec\<close>.\<close>

datatype json =
    JNull
  | JBool bool
  | JInt int
  | JDec rat
  | JStr string
  | JArr "json list"
  | JObj "(string \<times> json) list"

datatype xml = Elem string "xml list" | CData string

text \<open>
  The bytes of a body, with what the two decoders make of them (the error text when they do
  not parse).
\<close>

record body =
  body_text :: string
  body_json :: "string + json"
  body_xml :: "string + xml"

section \<open>Requests, responses, the world\<close>

record http_request =
  req_method :: string
  req_url :: string
  req_content_type :: "string option"
  req_body :: "json option"

record http_response =
  StatusCode :: int
  RetryAfter :: string
  body_delay :: duration
  body_result :: "string + body"

text \<open>
  The transport's answer: an error (its text and \<^verbatim>\<open>Timeout()\<close>) or a response header,
  each after some time. Reading the body takes time of its own and may fail.
\<close>

datatype exchange =
    NoReply duration string bool
  | Reply duration http_response

record world =
  clock :: time
  rnd :: "nat \<Rightarrow> int"
  ndraws :: nat
  coins :: "nat \<Rightarrow> bool"
  nflips :: nat
  url_error :: "string \<Rightarrow> string option"
  net :: "nat \<Rightarrow> http_request \<Rightarrow> exchange"
  sent :: "(time \<times> http_request) list"

text \<open>
  \<open>wle w w'\<close>: \<open>w'\<close> is \<open>w\<close> some time later. The clock has not gone back, the requests
  sent are still there, and the services are the same.
\<close>

definition wle :: "world \<Rightarrow> world \<Rightarrow> bool" where
  "wle w w' \<longleftrightarrow> clock w \<le> clock w' \<and> (\<exists>more. sent w' = sent w @ more) \<and>
     rnd w' = rnd w \<and> coins w' = coins w \<and> url_error w' = url_error w \<and> net w' = net w"

lemma wle_refl [simp, intro]: "wle w w"
  by (simp add: wle_def)

lemma wle_trans: "wle a b \<Longrightarrow> wle b c \<Longrightarrow> wle a c"
  by (auto simp: wle_def)

lemma wle_clock: "wle w w' \<Longrightarrow> clock w \<le> clock w'"
  by (simp add: wle_def)

lemma wle_sent: "wle w w' \<Longrightarrow> length (sent w) \<le> length (sent w')"
  by (auto simp: wle_def)

section \<open>Randomness and waiting\<close>

text \<open>\<^verbatim>\<open>rand.Int64N(n)\<close> for positive \<open>n\<close>: some number in the range \<open>[0, n)\<close>.\<close>

definition Int64N :: "int \<Rightarrow> world \<Rightarrow> int \<times> world" where
  "Int64N n w = (rnd w (ndraws w) mod n, w\<lparr>ndraws := ndraws w + 1\<rparr>)"

text \<open>The pick of a \<^verbatim>\<open>select\<close> with two ready cases.\<close>

definition flip_coin :: "world \<Rightarrow> bool \<times> world" where
  "flip_coin w = (coins w (nflips w), w\<lparr>nflips := nflips w + 1\<rparr>)"

text \<open>
  Wait for \<open>d\<close> nanoseconds or until the context is done, whichever comes first. This is
  the \<^verbatim>\<open>select\<close> on \<^verbatim>\<open>ctx.Done()\<close> and \<^verbatim>\<open>time.After(d)\<close>, and how a transport
  operation is cut short.
\<close>

definition await :: "gctx \<Rightarrow> duration \<Rightarrow> world \<Rightarrow> goerr option \<times> world" where
  "await ctx d w =
     (let t = clock w + max 0 d in
      case ctx of
        None \<Rightarrow> (None, w\<lparr>clock := t\<rparr>)
      | Some (c, e) \<Rightarrow>
          if c \<le> t then (Some e, w\<lparr>clock := max (clock w) c\<rparr>) else (None, w\<lparr>clock := t\<rparr>))"

lemma Int64N_facts:
  "wle w (snd (Int64N n w))" "clock (snd (Int64N n w)) = clock w" "sent (snd (Int64N n w)) = sent w"
  "0 < n \<Longrightarrow> 0 \<le> fst (Int64N n w)" "0 < n \<Longrightarrow> fst (Int64N n w) < n"
  by (simp_all add: Int64N_def wle_def)

lemma flip_coin_facts:
  "wle w (snd (flip_coin w))" "clock (snd (flip_coin w)) = clock w"
  "sent (snd (flip_coin w)) = sent w"
  by (simp_all add: flip_coin_def wle_def)

lemma await_facts:
  "wle w (snd (await ctx d w))"
  "sent (snd (await ctx d w)) = sent w"
  "clock (snd (await ctx d w)) \<le> clock w + max 0 d"
  by (auto simp: await_def wle_def Let_def split: option.splits)

lemma await_Background [simp]:
  "await Background d w = (None, w\<lparr>clock := clock w + max 0 d\<rparr>)"
  by (simp add: await_def Background_def)

lemma await_deadline:
  "clock w \<le> c \<Longrightarrow> clock (snd (await (Some (c, e)) d w)) \<le> c"
  by (auto simp: await_def Let_def)

section \<open>net/http\<close>

text \<open>The error of \<^verbatim>\<open>net/http\<close> for an operation that its context or timeout cut short.\<close>

definition net_error :: "goerr \<Rightarrow> goerr" where
  "net_error c = NetError (error_text c) (as_timeout c = Some True)"

text \<open>\<^verbatim>\<open>http.Client{Timeout: timeout}.Do(req)\<close>; the timeout also covers the body.\<close>

definition http_Do ::
  "gctx \<Rightarrow> duration \<Rightarrow> http_request \<Rightarrow> world \<Rightarrow> (goerr + http_response \<times> gctx) \<times> world" where
  "http_Do ctx timeout req w =
     (case ctx_Err ctx (clock w) of
        Some c \<Rightarrow> (Inl (net_error c), w)
      | None \<Rightarrow>
          let cctx = WithTimeout ctx timeout (clock w);
              w1 = w\<lparr>sent := sent w @ [(clock w, req)]\<rparr> in
          case net w (length (sent w)) req of
            NoReply d txt tmo \<Rightarrow>
              (case await cctx d w1 of
                 (Some c, w2) \<Rightarrow> (Inl (net_error c), w2)
               | (None, w2) \<Rightarrow> (Inl (NetError txt tmo), w2))
          | Reply d resp \<Rightarrow>
              (case await cctx d w1 of
                 (Some c, w2) \<Rightarrow> (Inl (net_error c), w2)
               | (None, w2) \<Rightarrow> (Inr (resp, cctx), w2)))"

text \<open>\<^verbatim>\<open>io.ReadAll(resp.Body)\<close>.\<close>

definition ReadAll :: "http_response \<Rightarrow> gctx \<Rightarrow> world \<Rightarrow> (goerr + body) \<times> world" where
  "ReadAll resp cctx w =
     (case await cctx (body_delay resp) w of
        (Some c, w1) \<Rightarrow> (Inl (net_error c), w1)
      | (None, w1) \<Rightarrow>
          (case body_result resp of Inl txt \<Rightarrow> (Inl (ErrorString txt), w1) | Inr b \<Rightarrow> (Inr b, w1)))"

text \<open>
  The prologue the four client methods share word for word: build the request, send it,
  tell timeouts from other transport errors, read the body.
\<close>

definition call_service ::
  "gctx \<Rightarrow> duration \<Rightarrow> http_request \<Rightarrow> world \<Rightarrow> (goerr + http_response \<times> body) \<times> world" where
  "call_service ctx timeout req w =
     (case url_error w (req_url req) of
        Some txt \<Rightarrow> (Inl (wrap_ctx ''build request'' (ErrorString txt)), w)
      | None \<Rightarrow>
          (case http_Do ctx timeout req w of
             (Inl err, w1) \<Rightarrow>
               if isTimeout ctx (clock w1) err
               then (Inl (wrap_detail ErrTimeout (error_text err)), w1)
               else (Inl (wrap_ctx ''http request'' err), w1)
           | (Inr (resp, cctx), w1) \<Rightarrow>
               (case ReadAll resp cctx w1 of
                  (Inl err, w2) \<Rightarrow> (Inl (wrap_ctx ''read body'' err), w2)
                | (Inr b, w2) \<Rightarrow> (Inr (resp, b), w2))))"

section \<open>What a call can do to the world\<close>

lemma WithTimeout_Some:
  "0 \<le> d \<Longrightarrow> ctx_Err ctx now = None \<Longrightarrow>
     \<exists>c e. WithTimeout ctx d now = Some (c, e) \<and> now \<le> c \<and> c \<le> now + d"
  by (auto simp: WithTimeout_def ctx_Err_def split: option.splits if_splits)

text \<open>
  A call that started at \<open>w\<close> is over by the deadline of its own context: the world only
  moved on, at most one request went out, at most the timeout has passed.
\<close>

definition call_ok :: "duration \<Rightarrow> world \<Rightarrow> world \<Rightarrow> bool" where
  "call_ok timeout w w' \<longleftrightarrow> wle w w' \<and> length (sent w') \<le> Suc (length (sent w)) \<and>
     clock w' \<le> clock w + timeout"

lemma call_ok_refl: "0 \<le> timeout \<Longrightarrow> call_ok timeout w w"
  by (simp add: call_ok_def)

lemma call_ok_wle: "call_ok timeout w w' \<Longrightarrow> wle w w'"
  by (simp add: call_ok_def)

lemma http_Do_ok:
  assumes "0 \<le> timeout"
  shows "call_ok timeout w (snd (http_Do ctx timeout req w))"
proof (cases "ctx_Err ctx (clock w)")
  case None
  let ?w1 = "w\<lparr>sent := sent w @ [(clock w, req)]\<rparr>"
  from WithTimeout_Some [OF assms None] obtain c e where
    c: "WithTimeout ctx timeout (clock w) = Some (c, e)" "clock w \<le> c" "c \<le> clock w + timeout"
    by blast
  have "call_ok timeout w (snd (await (Some (c, e)) d ?w1))" for d
    using await_facts(1,2) [where w = ?w1 and ctx = "Some (c, e)" and d = d]
      await_deadline [of ?w1 c e d] c
    by (auto simp: call_ok_def wle_def)
  with None c show ?thesis
    by (auto simp: http_Do_def Let_def split: exchange.splits prod.splits option.splits)
      (metis snd_conv)+
qed (simp add: http_Do_def call_ok_refl [OF assms])

lemma http_Do_Inr:
  assumes "0 \<le> timeout" and "http_Do ctx timeout req w = (Inr (resp, cctx), w1)"
  shows "\<exists>c e. cctx = Some (c, e) \<and> clock w1 \<le> c \<and> c \<le> clock w + timeout"
proof -
  have None: "ctx_Err ctx (clock w) = None"
    using assms(2) by (auto simp: http_Do_def split: option.splits)
  from WithTimeout_Some [OF assms(1) None] obtain c e where
    c: "WithTimeout ctx timeout (clock w) = Some (c, e)" "clock w \<le> c" "c \<le> clock w + timeout"
    by blast
  with assms(2) None show ?thesis
    by (auto simp: http_Do_def Let_def await_def split: exchange.splits prod.splits option.splits if_splits)
qed

lemma ReadAll_world: "snd (ReadAll resp cctx w) = snd (await cctx (body_delay resp) w)"
  by (simp add: ReadAll_def split: prod.splits option.splits sum.splits)

lemma call_service_read:
  "url_error w (req_url req) = None \<Longrightarrow> http_Do ctx timeout req w = (Inr (resp, cctx), w1) \<Longrightarrow>
     snd (call_service ctx timeout req w) = snd (ReadAll resp cctx w1)"
  by (simp add: call_service_def split: prod.splits sum.splits)

lemma call_service_ok:
  assumes "0 \<le> timeout"
  shows "call_ok timeout w (snd (call_service ctx timeout req w))"
proof (cases "url_error w (req_url req)")
  case None
  obtain r w1 where d: "http_Do ctx timeout req w = (r, w1)" by fastforce
  have ok: "call_ok timeout w w1" using http_Do_ok [OF assms, of w ctx req] by (simp add: d)
  show ?thesis
  proof (cases r)
    case (Inl err)
    with None d ok show ?thesis by (simp add: call_service_def)
  next
    case (Inr rc)
    obtain resp cctx where rc: "rc = (resp, cctx)" by fastforce
    from http_Do_Inr [OF assms] d Inr rc obtain c e where
      c: "cctx = Some (c, e)" "clock w1 \<le> c" "c \<le> clock w + timeout" by blast
    let ?w2 = "snd (await cctx (body_delay resp) w1)"
    have "wle w1 ?w2" "sent ?w2 = sent w1" by (rule await_facts)+
    moreover have "clock ?w2 \<le> clock w + timeout"
      using await_deadline [of w1 c e "body_delay resp"] c by simp
    ultimately have "call_ok timeout w ?w2"
      using ok by (auto simp: call_ok_def intro: wle_trans)
    with None d Inr rc show ?thesis by (simp add: call_service_read ReadAll_world)
  qed
qed (simp add: call_service_def call_ok_refl [OF assms])

text \<open>No error of the prologue is permanent: transport failures are always retried.\<close>

lemma http_Do_transient:
  "http_Do ctx timeout req w = (Inl err, w1) \<Longrightarrow> \<not> IsPermanent err"
  by (auto simp: http_Do_def Let_def net_error_def
      split: option.splits exchange.splits prod.splits)

lemma call_service_transient:
  "call_service ctx timeout req w = (Inl err, w1) \<Longrightarrow> \<not> IsPermanent err"
  by (auto simp: call_service_def ReadAll_def net_error_def dest: http_Do_transient
      split: option.splits sum.splits prod.splits if_splits)

section \<open>A scripted world\<close>

text \<open>
  A concrete world for the examples: the services answer from a list and then refuse the
  connection, the random numbers are zero, every URL is well formed.
\<close>

definition scripted_world :: "exchange list \<Rightarrow> world" where
  "scripted_world script =
     \<lparr>clock = 0, rnd = (\<lambda>_. 0), ndraws = 0, coins = (\<lambda>_. False), nflips = 0,
      url_error = (\<lambda>_. None),
      net = (\<lambda>n _. if n < length script then script ! n else NoReply 0 ''connection refused'' False),
      sent = []\<rparr>"

definition text_response :: "int \<Rightarrow> string \<Rightarrow> http_response" where
  "text_response code txt =
     \<lparr>StatusCode = code, RetryAfter = [], body_delay = 0,
      body_result = Inr \<lparr>body_text = txt, body_json = Inl ''invalid character'', body_xml = Inl ''EOF''\<rparr>\<rparr>"

definition json_response :: "int \<Rightarrow> json \<Rightarrow> http_response" where
  "json_response code j =
     \<lparr>StatusCode = code, RetryAfter = [], body_delay = 0,
      body_result = Inr \<lparr>body_text = [], body_json = Inr j, body_xml = Inl ''EOF''\<rparr>\<rparr>"

definition xml_response :: "int \<Rightarrow> xml \<Rightarrow> http_response" where
  "xml_response code x =
     \<lparr>StatusCode = code, RetryAfter = [], body_delay = 0,
      body_result = Inr \<lparr>body_text = [], body_json = Inl ''invalid character'', body_xml = Inr x\<rparr>\<rparr>"

end
