(* ===== verification/Types.thy ===== *)
theory Types
  imports GoErrors
begin

text \<open>
  The domain types of \<^verbatim>\<open>backend/internal/model/types.go\<close>: rows of the three tables and
  the status constants. A nullable column or a Go pointer is an \<open>option\<close>; statuses and
  source names are strings, as in the code and the database. The payload of a source (the
  JSONB column) is left as a type parameter here and is a JSON value in the store.
\<close>

type_synonym float64 = rat

section \<open>Cases\<close>

record borrower =
  FirstName :: string
  LastName :: string
  SSNLast4 :: string
  DOB :: string

record property =
  Address :: string
  County :: string
  State :: string
  ParcelID :: string

record loan =
  LoanNumber :: string
  Servicer :: string
  OriginalAmount :: float64

record case_json =
  cj_ID :: string
  cj_CaseNumber :: string
  cj_Borrower :: borrower
  cj_Property :: property
  cj_Loan :: loan
  cj_CurrentStage :: string
  cj_CourtCaseNumber :: "string option"

record case_row =
  c_ID :: string
  c_CaseNumber :: string
  c_FirstName :: string
  c_LastName :: string
  c_SSNLast4 :: string
  c_DOB :: string
  c_Address :: string
  c_County :: string
  c_State :: string
  c_ParcelID :: string
  c_LoanNumber :: string
  c_Servicer :: string
  c_OriginalAmount :: float64
  c_CurrentStage :: string
  c_CourtCaseNumber :: "string option"

section \<open>Lookup runs and sources\<close>

record lookup_run =
  run_ID :: string
  run_CaseID :: string
  run_Status :: string
  StartedAt :: time
  CompletedAt :: "time option"

record 'd lookup_source =
  src_ID :: string
  src_RunID :: string
  src_Source :: string
  src_Status :: string
  Attempts :: int
  LastAttemptAt :: "time option"
  Data :: "'d option"
  ErrorMessage :: "string option"
  Reason :: "string option"
  SearchID :: "string option"

section \<open>Status constants\<close>

definition StatusPending :: string where "StatusPending = ''pending''"
definition StatusComplete :: string where "StatusComplete = ''complete''"
definition StatusPartial :: string where "StatusPartial = ''partial''"
definition StatusFailed :: string where "StatusFailed = ''failed''"

definition SourceStatusPending :: string where "SourceStatusPending = ''pending''"
definition SourceStatusSuccess :: string where "SourceStatusSuccess = ''success''"
definition SourceStatusFailed :: string where "SourceStatusFailed = ''failed''"
definition SourceStatusNotApplicable :: string where
  "SourceStatusNotApplicable = ''not_applicable''"

definition SourcePropertyRecords :: string where "SourcePropertyRecords = ''property_records''"
definition SourceCourtRecords :: string where "SourceCourtRecords = ''court_records''"
definition SourceSCRA :: string where "SourceSCRA = ''scra''"

lemmas run_status_defs = StatusPending_def StatusComplete_def StatusPartial_def StatusFailed_def
lemmas source_status_defs = SourceStatusPending_def SourceStatusSuccess_def
  SourceStatusFailed_def SourceStatusNotApplicable_def
lemmas source_name_defs = SourcePropertyRecords_def SourceCourtRecords_def SourceSCRA_def

lemma run_status_distinct [simp]:
  "StatusPending \<noteq> StatusComplete" "StatusPending \<noteq> StatusPartial" "StatusPending \<noteq> StatusFailed"
  "StatusComplete \<noteq> StatusPending" "StatusComplete \<noteq> StatusPartial" "StatusComplete \<noteq> StatusFailed"
  "StatusPartial \<noteq> StatusPending" "StatusPartial \<noteq> StatusComplete" "StatusPartial \<noteq> StatusFailed"
  "StatusFailed \<noteq> StatusPending" "StatusFailed \<noteq> StatusComplete" "StatusFailed \<noteq> StatusPartial"
  by (simp_all add: run_status_defs)

lemma source_status_distinct [simp]:
  "SourceStatusPending \<noteq> SourceStatusSuccess" "SourceStatusPending \<noteq> SourceStatusFailed"
  "SourceStatusPending \<noteq> SourceStatusNotApplicable" "SourceStatusSuccess \<noteq> SourceStatusPending"
  "SourceStatusSuccess \<noteq> SourceStatusFailed" "SourceStatusSuccess \<noteq> SourceStatusNotApplicable"
  "SourceStatusFailed \<noteq> SourceStatusPending" "SourceStatusFailed \<noteq> SourceStatusSuccess"
  "SourceStatusFailed \<noteq> SourceStatusNotApplicable" "SourceStatusNotApplicable \<noteq> SourceStatusPending"
  "SourceStatusNotApplicable \<noteq> SourceStatusSuccess" "SourceStatusNotApplicable \<noteq> SourceStatusFailed"
  by (simp_all add: source_status_defs)

lemma source_name_distinct [simp]:
  "SourcePropertyRecords \<noteq> SourceCourtRecords" "SourcePropertyRecords \<noteq> SourceSCRA"
  "SourceCourtRecords \<noteq> SourcePropertyRecords" "SourceCourtRecords \<noteq> SourceSCRA"
  "SourceSCRA \<noteq> SourcePropertyRecords" "SourceSCRA \<noteq> SourceCourtRecords"
  by (simp_all add: source_name_defs)

text \<open>The statuses a row may hold, and what a resolved source is.\<close>

definition run_statuses :: "string set" where
  "run_statuses = {StatusPending, StatusComplete, StatusPartial, StatusFailed}"

definition source_statuses :: "string set" where
  "source_statuses =
     {SourceStatusPending, SourceStatusSuccess, SourceStatusFailed, SourceStatusNotApplicable}"

definition source_names :: "string list" where
  "source_names = [SourcePropertyRecords, SourceCourtRecords, SourceSCRA]"

lemma distinct_source_names [simp]: "distinct source_names"
  by (simp add: source_names_def)

end
