(* ===== verification/Json.thy ===== *)
theory Json
  imports Http Types
begin

text \<open>
  How \<^verbatim>\<open>encoding/json\<close> moves values between documents and Go variables: object members are
  matched to fields without regard to case, unknown members are skipped, missing ones keep
  the old value, \<^verbatim>\<open>null\<close> leaves a plain field alone and clears a pointer or slice, and a
  value of the wrong kind is an error. A nil slice and an empty one differ: they encode to
  \<^verbatim>\<open>null\<close> and \<^verbatim>\<open>[]\<close>, so a slice is a list \<open>option\<close>.
\<close>

section \<open>Names of members\<close>

definition lower_char :: "char \<Rightarrow> char" where
  "lower_char c =
     (let n = (of_char c :: nat) in if 65 \<le> n \<and> n \<le> 90 then char_of (n + 32) else c)"

definition lower_str :: "string \<Rightarrow> string" where
  "lower_str s = map lower_char s"

section \<open>Decoding\<close>

definition json_type_error :: string where
  "json_type_error = ''json: cannot unmarshal value into Go struct field''"

definition dec_string :: "string \<Rightarrow> json \<Rightarrow> string + string" where
  "dec_string old j = (case j of JStr s \<Rightarrow> Inr s | JNull \<Rightarrow> Inr old | _ \<Rightarrow> Inl json_type_error)"

definition dec_bool :: "bool \<Rightarrow> json \<Rightarrow> string + bool" where
  "dec_bool old j = (case j of JBool b \<Rightarrow> Inr b | JNull \<Rightarrow> Inr old | _ \<Rightarrow> Inl json_type_error)"

definition int64 :: "int \<Rightarrow> bool" where
  "int64 i \<longleftrightarrow> - (2 ^ 63) \<le> i \<and> i < 2 ^ 63"

definition dec_int :: "int \<Rightarrow> json \<Rightarrow> string + int" where
  "dec_int old j =
     (case j of
        JInt i \<Rightarrow> if int64 i then Inr i else Inl json_type_error
      | JNull \<Rightarrow> Inr old
      | _ \<Rightarrow> Inl json_type_error)"

definition dec_float :: "float64 \<Rightarrow> json \<Rightarrow> string + float64" where
  "dec_float old j =
     (case j of JInt i \<Rightarrow> Inr (of_int i) | JDec r \<Rightarrow> Inr r | JNull \<Rightarrow> Inr old | _ \<Rightarrow> Inl json_type_error)"

definition dec_string_ptr :: "json \<Rightarrow> string + string option" where
  "dec_string_ptr j =
     (case j of JStr s \<Rightarrow> Inr (Some s) | JNull \<Rightarrow> Inr None | _ \<Rightarrow> Inl json_type_error)"

primrec dec_list :: "(json \<Rightarrow> string + 'a) \<Rightarrow> json list \<Rightarrow> string + 'a list" where
  "dec_list f [] = Inr []"
| "dec_list f (j # js) =
     (case f j of
        Inl e \<Rightarrow> Inl e
      | Inr x \<Rightarrow> (case dec_list f js of Inl e \<Rightarrow> Inl e | Inr xs \<Rightarrow> Inr (x # xs)))"

definition dec_slice :: "(json \<Rightarrow> string + 'a) \<Rightarrow> json \<Rightarrow> string + 'a list option" where
  "dec_slice f j =
     (case j of
        JArr js \<Rightarrow> (case dec_list f js of Inl e \<Rightarrow> Inl e | Inr xs \<Rightarrow> Inr (Some xs))
      | JNull \<Rightarrow> Inr None
      | _ \<Rightarrow> Inl json_type_error)"

text \<open>
  A struct is decoded member by member, in the order of the document; \<open>field\<close> stores one
  member, given its name in lower case.
\<close>

primrec dec_members ::
  "(string \<Rightarrow> json \<Rightarrow> 'r \<Rightarrow> string + 'r) \<Rightarrow> (string \<times> json) list \<Rightarrow> 'r \<Rightarrow> string + 'r" where
  "dec_members field [] r = Inr r"
| "dec_members field (m # ms) r =
     (case field (lower_str (fst m)) (snd m) r of Inl e \<Rightarrow> Inl e | Inr r' \<Rightarrow> dec_members field ms r')"

definition dec_struct ::
  "(string \<Rightarrow> json \<Rightarrow> 'r \<Rightarrow> string + 'r) \<Rightarrow> 'r \<Rightarrow> json \<Rightarrow> string + 'r" where
  "dec_struct field r j =
     (case j of JObj ms \<Rightarrow> dec_members field ms r | JNull \<Rightarrow> Inr r | _ \<Rightarrow> Inl json_type_error)"

text \<open>Store a decoded value, or pass the error on.\<close>

definition store_as :: "('a \<Rightarrow> 'r) \<Rightarrow> string + 'a \<Rightarrow> string + 'r" where
  "store_as f x = (case x of Inl e \<Rightarrow> Inl e | Inr v \<Rightarrow> Inr (f v))"

text \<open>\<^verbatim>\<open>json.Unmarshal\<close> of a body into a struct.\<close>

definition Unmarshal :: "(json \<Rightarrow> string + 'r) \<Rightarrow> body \<Rightarrow> goerr + 'r" where
  "Unmarshal dec b =
     (case body_json b of
        Inl e \<Rightarrow> Inl (ErrorString e)
      | Inr j \<Rightarrow> (case dec j of Inl e \<Rightarrow> Inl (ErrorString e) | Inr r \<Rightarrow> Inr r))"

section \<open>Encoding\<close>

definition enc_float :: "float64 \<Rightarrow> json" where
  "enc_float x = (if x \<in> \<int> then JInt \<lfloor>x\<rfloor> else JDec x)"

definition enc_string_ptr :: "string option \<Rightarrow> json" where
  "enc_string_ptr p = (case p of None \<Rightarrow> JNull | Some s \<Rightarrow> JStr s)"

definition enc_slice :: "('a \<Rightarrow> json) \<Rightarrow> 'a list option \<Rightarrow> json" where
  "enc_slice f xs = (case xs of None \<Rightarrow> JNull | Some ys \<Rightarrow> JArr (map f ys))"

lemma dec_simps [simp]:
  "dec_string old (JStr s) = Inr s"
  "dec_bool old' (JBool b) = Inr b"
  "int64 i \<Longrightarrow> dec_int n (JInt i) = Inr i"
  "dec_float x (enc_float y) = Inr y"
  "dec_string_ptr (enc_string_ptr p) = Inr p"
  "store_as f (Inr v) = Inr (f v)"
  "store_as f (Inl e) = Inl e"
  by (auto simp: dec_string_def dec_bool_def dec_int_def dec_float_def enc_float_def
      dec_string_ptr_def enc_string_ptr_def store_as_def elim!: Ints_cases split: option.splits)

lemma dec_list_map [simp]: "(\<And>x. x \<in> set xs \<Longrightarrow> f (g x) = Inr x) \<Longrightarrow> dec_list f (map g xs) = Inr xs"
  by (induction xs) auto

lemma dec_slice_enc [simp]:
  "(\<And>x ys. xs = Some ys \<Longrightarrow> x \<in> set ys \<Longrightarrow> f (g x) = Inr x) \<Longrightarrow> dec_slice f (enc_slice g xs) = Inr xs"
  by (auto simp: dec_slice_def enc_slice_def split: option.splits)

lemma dec_struct_JObj [simp]: "dec_struct field r (JObj ms) = dec_members field ms r"
  by (simp add: dec_struct_def)

end
