(* ===== verification/Retry.thy ===== *)
theory Retry
  imports Http
begin

text \<open>
  The retry loop of \<^verbatim>\<open>backend/internal/resilience/retry.go\<close>. The function value that is
  retried is a function on the pair of the variables its closure captures and the world;
  \<^verbatim>\<open>float64\<close> is taken as exact rational arithmetic, which it is for the delays and
  multipliers of this program (integers far below 2^53).
\<close>

section \<open>Configuration and delays\<close>

record RetryConfig =
  MaxAttempts :: int
  InitialDelay :: duration
  MaxDelay :: duration
  Multiplier :: rat

definition DefaultRetryConfig :: RetryConfig where
  "DefaultRetryConfig =
     \<lparr>MaxAttempts = 5, InitialDelay = 1 * Second, MaxDelay = 30 * Second, Multiplier = 2\<rparr>"

definition backoff :: "RetryConfig \<Rightarrow> int \<Rightarrow> duration" where
  "backoff cfg attempt =
     (let d = of_int (InitialDelay cfg) * Multiplier cfg ^ nat (attempt - 1) in
      if d > of_int (MaxDelay cfg) then MaxDelay cfg else trunc d)"

definition addJitter :: "duration \<Rightarrow> duration \<Rightarrow> world \<Rightarrow> duration \<times> world" where
  "addJitter base jitter w =
     (if jitter \<le> 0 then (base, w)
      else (let (r, w') = Int64N jitter w in (base + r, w')))"

section \<open>The loop\<close>

text \<open>
  \<^verbatim>\<open>Do\<close> from the given attempt on. The \<^verbatim>\<open>select\<close> of the pause is \<open>await\<close>; when the
  context and the timer are ready together the code may pick either, and in both cases the
  next thing it does is return \<^verbatim>\<open>ctx.Err()\<close>.
\<close>

function do_loop ::
  "gctx \<Rightarrow> RetryConfig \<Rightarrow> ('c \<times> world \<Rightarrow> goerr option \<times> 'c \<times> world) \<Rightarrow> int \<Rightarrow> goerr option \<Rightarrow>
     'c \<times> world \<Rightarrow> goerr option \<times> 'c \<times> world"
where
  "do_loop ctx cfg fn attempt lastErr (c, w) =
     (if attempt \<le> MaxAttempts cfg then
        (case ctx_Err ctx (clock w) of
           Some e \<Rightarrow> (Some e, c, w)
         | None \<Rightarrow>
             (case fn (c, w) of
                (None, s1) \<Rightarrow> (None, s1)
              | (Some err, (c1, w1)) \<Rightarrow>
                  if IsPermanent err then (Some err, c1, w1)
                  else if attempt = MaxAttempts cfg then (Some err, c1, w1)
                  else
                    (let (delay, w2) = addJitter (backoff cfg attempt) (500 * Millisecond) w1 in
                     case await ctx delay w2 of
                       (Some e, w3) \<Rightarrow> (Some e, c1, w3)
                     | (None, w3) \<Rightarrow> do_loop ctx cfg fn (attempt + 1) (Some err) (c1, w3))))
      else (lastErr, c, w))"
  by pat_completeness auto
termination
  by (relation "measure (\<lambda>(ctx, cfg, fn, attempt, lastErr, s). nat (MaxAttempts cfg + 1 - attempt))") auto

declare do_loop.simps [simp del]

definition Do ::
  "gctx \<Rightarrow> RetryConfig \<Rightarrow> ('c \<times> world \<Rightarrow> goerr option \<times> 'c \<times> world) \<Rightarrow> 'c \<times> world \<Rightarrow>
     goerr option \<times> 'c \<times> world"
where
  "Do ctx cfg fn s = do_loop ctx cfg fn 1 None s"

text \<open>
  \<^verbatim>\<open>DoWithResult\<close>, the variant whose function value returns a value beside the error;
  \<open>z\<close> is the zero value of its type.
\<close>

function dowr_loop ::
  "'a \<Rightarrow> gctx \<Rightarrow> RetryConfig \<Rightarrow> (world \<Rightarrow> (goerr + 'a) \<times> world) \<Rightarrow> int \<Rightarrow> goerr option \<Rightarrow> world \<Rightarrow>
     ('a \<times> goerr option) \<times> world"
where
  "dowr_loop z ctx cfg fn attempt lastErr w =
     (if attempt \<le> MaxAttempts cfg then
        (case ctx_Err ctx (clock w) of
           Some e \<Rightarrow> ((z, Some e), w)
         | None \<Rightarrow>
             (case fn w of
                (Inr val, w1) \<Rightarrow> ((val, None), w1)
              | (Inl err, w1) \<Rightarrow>
                  if IsPermanent err then ((z, Some err), w1)
                  else if attempt = MaxAttempts cfg then ((z, Some err), w1)
                  else
                    (let (delay, w2) = addJitter (backoff cfg attempt) (500 * Millisecond) w1 in
                     case await ctx delay w2 of
                       (Some e, w3) \<Rightarrow> ((z, Some e), w3)
                     | (None, w3) \<Rightarrow> dowr_loop z ctx cfg fn (attempt + 1) (Some err) w3)))
      else ((z, lastErr), w))"
  by pat_completeness auto
termination
  by (relation "measure (\<lambda>(z, ctx, cfg, fn, attempt, lastErr, w). nat (MaxAttempts cfg + 1 - attempt))") auto

declare dowr_loop.simps [simp del]

definition DoWithResult ::
  "'a \<Rightarrow> gctx \<Rightarrow> RetryConfig \<Rightarrow> (world \<Rightarrow> (goerr + 'a) \<times> world) \<Rightarrow> world \<Rightarrow>
     ('a \<times> goerr option) \<times> world"
where
  "DoWithResult z ctx cfg fn w = dowr_loop z ctx cfg fn 1 None w"

definition IsPermanentError :: "goerr \<Rightarrow> bool" where
  "IsPermanentError err \<longleftrightarrow> errors_as as_permanent err \<noteq> None"

lemma IsPermanentError_eq [simp]: "IsPermanentError err = IsPermanent err"
  by (simp add: IsPermanentError_def IsPermanent_def)

section \<open>Delays\<close>

lemma backoff_bounds:
  assumes "0 \<le> InitialDelay cfg" "0 \<le> MaxDelay cfg" "0 \<le> Multiplier cfg"
  shows "0 \<le> backoff cfg n \<and> backoff cfg n \<le> MaxDelay cfg"
proof -
  have "0 \<le> of_int (InitialDelay cfg) * Multiplier cfg ^ nat (n - 1)" using assms by simp
  then show ?thesis
    using assms(2) by (auto simp: backoff_def Let_def intro: trunc_nonneg trunc_le_of_int)
qed

lemma backoff_mono:
  assumes "0 \<le> InitialDelay cfg" "1 \<le> Multiplier cfg" "m \<le> n"
  shows "backoff cfg m \<le> backoff cfg n"
proof -
  let ?d = "\<lambda>k. of_int (InitialDelay cfg) * Multiplier cfg ^ nat (k - 1)"
  have "Multiplier cfg ^ nat (m - 1) \<le> Multiplier cfg ^ nat (n - 1)"
    using assms(2,3) by (intro power_increasing) auto
  then have le: "?d m \<le> ?d n" using assms(1) by (simp add: mult_left_mono)
  have "0 \<le> ?d m" using assms(1,2) by simp
  with le show ?thesis
    by (auto simp: backoff_def Let_def intro: trunc_mono_nonneg trunc_le_of_int)
qed

lemma addJitter_facts:
  "wle w (snd (addJitter base jitter w))"
  "clock (snd (addJitter base jitter w)) = clock w"
  "sent (snd (addJitter base jitter w)) = sent w"
  "0 \<le> jitter \<Longrightarrow> fst (addJitter base jitter w) \<le> base + jitter"
  using Int64N_facts [where w = w and n = jitter]
  by (auto simp: addJitter_def split_beta)

text \<open>The longest the loop can pause after attempt \<open>n\<close>, and over its first \<open>k\<close> pauses.\<close>

definition max_pause :: "RetryConfig \<Rightarrow> int \<Rightarrow> duration" where
  "max_pause cfg n = max 0 (backoff cfg n + 500 * Millisecond)"

primrec total_pause :: "RetryConfig \<Rightarrow> int \<Rightarrow> nat \<Rightarrow> duration" where
  "total_pause cfg n 0 = 0"
| "total_pause cfg n (Suc k) = max_pause cfg n + total_pause cfg (n + 1) k"

lemma total_pause_nonneg: "0 \<le> total_pause cfg n k"
  by (induction k arbitrary: n) (auto simp: max_pause_def add_nonneg_nonneg)

section \<open>The loop as a sequence of attempts\<close>

text \<open>
  The pause after attempt \<open>n\<close> with a context that is never done, and the state in which
  attempt \<open>i + 1\<close> starts when all attempts before it have failed.
\<close>

definition pause :: "RetryConfig \<Rightarrow> int \<Rightarrow> 'c \<times> world \<Rightarrow> 'c \<times> world" where
  "pause cfg n s =
     (let (delay, w) = addJitter (backoff cfg n) (500 * Millisecond) (snd s) in
      (fst s, w\<lparr>clock := clock w + max 0 delay\<rparr>))"

primrec nth_start ::
  "RetryConfig \<Rightarrow> ('c \<times> world \<Rightarrow> goerr option \<times> 'c \<times> world) \<Rightarrow> int \<Rightarrow> 'c \<times> world \<Rightarrow> nat \<Rightarrow>
     'c \<times> world"
where
  "nth_start cfg fn n s 0 = s"
| "nth_start cfg fn n s (Suc i) = nth_start cfg fn (n + 1) (pause cfg n (snd (fn s))) i"

text \<open>An outcome after which the loop stops, whatever the attempt.\<close>

definition stops :: "goerr option \<Rightarrow> bool" where
  "stops r \<longleftrightarrow> (case r of None \<Rightarrow> True | Some e \<Rightarrow> IsPermanent e)"

lemma do_loop_attempts:
  assumes "attempt + int m = MaxAttempts cfg"
  shows "\<exists>k \<le> m. (\<forall>i < k. \<not> stops (fst (fn (nth_start cfg fn attempt s i)))) \<and>
           (k = m \<or> stops (fst (fn (nth_start cfg fn attempt s k)))) \<and>
           do_loop Background cfg fn attempt lastErr s = fn (nth_start cfg fn attempt s k)"
  using assms
proof (induction m arbitrary: attempt lastErr s)
  case 0
  then show ?case
    by (cases s) (auto simp: do_loop.simps split: option.splits prod.splits)
next
  case (Suc m)
  obtain c w where s: "s = (c, w)" by fastforce
  obtain r c1 w1 where f: "fn (c, w) = (r, (c1, w1))" by (metis prod.collapse)
  show ?case
  proof (cases "stops r")
    case True
    then have "do_loop Background cfg fn attempt lastErr s = fn s"
      using Suc.prems f s
      by (auto simp: do_loop.simps [of _ _ _ attempt] stops_def split: option.splits)
    with True f s show ?thesis by (intro exI [of _ 0]) simp
  next
    case False
    then obtain err where err: "r = Some err" "\<not> IsPermanent err"
      by (auto simp: stops_def split: option.splits)
    let ?s1 = "pause cfg attempt (c1, w1)"
    have step: "do_loop Background cfg fn attempt lastErr s =
        do_loop Background cfg fn (attempt + 1) (Some err) ?s1"
      using Suc.prems f s err
      by (simp add: do_loop.simps [of _ _ _ attempt] pause_def split_beta)
    from Suc.IH [of "attempt + 1" ?s1 "Some err"] Suc.prems obtain k where
      k: "k \<le> m" "\<forall>i < k. \<not> stops (fst (fn (nth_start cfg fn (attempt + 1) ?s1 i)))"
      "k = m \<or> stops (fst (fn (nth_start cfg fn (attempt + 1) ?s1 k)))"
      "do_loop Background cfg fn (attempt + 1) (Some err) ?s1 =
         fn (nth_start cfg fn (attempt + 1) ?s1 k)"
      by auto
    have "\<forall>i < Suc k. \<not> stops (fst (fn (nth_start cfg fn attempt s i)))"
      using k(2) False f s by (auto simp: less_Suc_eq_0_disj)
    with k step f s show ?thesis by (intro exI [of _ "Suc k"]) simp
  qed
qed

section \<open>Services whose calls are retried\<close>

text \<open>
  The closure the orchestrator hands to \<^verbatim>\<open>Do\<close>: it counts its calls in a captured
  variable and assigns the result of the call to another.
\<close>

definition counted ::
  "(world \<Rightarrow> (goerr + 'a) \<times> world) \<Rightarrow> (int \<times> 'a option) \<times> world \<Rightarrow>
     goerr option \<times> (int \<times> 'a option) \<times> world"
where
  "counted call s =
     (case call (snd s) of
        (Inl err, w) \<Rightarrow> (Some err, ((fst (fst s) + 1, None), w))
      | (Inr v, w) \<Rightarrow> (None, ((fst (fst s) + 1, Some v), w)))"

text \<open>
  The contract of a client method: it makes at most one request, within its timeout, and
  otherwise only lets time pass.
\<close>

locale service_call =
  fixes call :: "gctx \<Rightarrow> world \<Rightarrow> (goerr + 'a) \<times> world"
    and timeout :: duration
  assumes call_meets: "call_ok timeout w (snd (call ctx w))"
    and timeout_nonneg: "0 \<le> timeout"
begin

text \<open>What a bounded number of attempts can do, from the given attempt on.\<close>

definition attempts_ok :: "RetryConfig \<Rightarrow> int \<Rightarrow> nat \<Rightarrow> (int \<times> 'a option) \<times> world \<Rightarrow>
    goerr option \<times> (int \<times> 'a option) \<times> world \<Rightarrow> bool" where
  "attempts_ok cfg attempt m s out \<longleftrightarrow>
     wle (snd s) (snd (snd out)) \<and>
     fst (fst s) \<le> fst (fst (snd out)) \<and> fst (fst (snd out)) \<le> fst (fst s) + int m \<and>
     int (length (sent (snd (snd out)))) \<le>
       int (length (sent (snd s))) + (fst (fst (snd out)) - fst (fst s)) \<and>
     clock (snd (snd out)) \<le> clock (snd s) + int m * timeout + total_pause cfg attempt (m - 1)"

lemma counted_ok: "attempts_ok cfg attempt (Suc m) s (counted (call ctx) s)"
proof -
  obtain r w where c: "call ctx (snd s) = (r, w)" by fastforce
  have "0 \<le> int m * timeout" using timeout_nonneg by simp
  with c call_meets [of "snd s" ctx] total_pause_nonneg [of cfg attempt m] show ?thesis
    by (auto simp: attempts_ok_def counted_def call_ok_def algebra_simps split: sum.splits)
qed

lemma attempts_ok_pause:
  assumes "attempts_ok cfg attempt (Suc 0) s (r, (c1, w1))"
    and "wle w1 w2" "sent w2 = sent w1" "clock w2 \<le> clock w1 + max_pause cfg attempt"
  shows "attempts_ok cfg attempt (Suc (Suc m)) s (x, (c1, w2))"
proof -
  have "timeout \<le> int (Suc (Suc m)) * timeout"
    using mult_right_mono [of 1 "int (Suc (Suc m))" timeout] timeout_nonneg by simp
  then have "clock w2 \<le> clock (snd s) + int (Suc (Suc m)) * timeout + max_pause cfg attempt"
    using assms by (simp add: attempts_ok_def del: of_nat_Suc)
  with assms total_pause_nonneg [of cfg "attempt + 1" m] show ?thesis
    by (auto simp: attempts_ok_def intro: wle_trans simp del: of_nat_Suc)
qed

lemma pause_facts:
  assumes "addJitter (backoff cfg attempt) (500 * Millisecond) w1 = (delay, w2)" "await ctx delay w2 = (x, w3)"
  shows "wle w1 w3" "sent w3 = sent w1" "clock w3 \<le> clock w1 + max_pause cfg attempt"
proof -
  have w2: "wle w1 w2" "clock w2 = clock w1" "sent w2 = sent w1"
    "delay \<le> backoff cfg attempt + 500 * Millisecond"
    using addJitter_facts [where w = w1 and base = "backoff cfg attempt" and jitter = "500 * Millisecond"] assms(1)
    by (auto simp: Millisecond_def)
  then show "wle w1 w3" "sent w3 = sent w1" "clock w3 \<le> clock w1 + max_pause cfg attempt"
    using await_facts [where w = w2 and ctx = ctx and d = delay] assms(2)
    by (auto simp: max_pause_def intro: wle_trans)
qed

lemma do_loop_ok:
  assumes "attempt + int m = MaxAttempts cfg"
  shows "attempts_ok cfg attempt (Suc m) s (do_loop ctx cfg (counted (call ctx)) attempt lastErr s)"
  using assms
proof (induction m arbitrary: attempt lastErr s)
  case 0
  obtain c w where s: "s = (c, w)" by fastforce
  obtain r s1 where f: "counted (call ctx) (c, w) = (r, s1)" by (rule prod.exhaust)
  have "do_loop ctx cfg (counted (call ctx)) attempt lastErr s =
      (case ctx_Err ctx (clock w) of Some e \<Rightarrow> (Some e, s) | None \<Rightarrow> (r, s1))"
    using 0 f by (auto simp: s do_loop.simps split: option.splits prod.splits)
  with counted_ok [of cfg attempt 0 s ctx] f s timeout_nonneg show ?case
    by (auto simp: attempts_ok_def split: option.splits)
next
  case (Suc m)
  obtain c w where s: "s = (c, w)" by fastforce
  obtain r c1 w1 where f: "counted (call ctx) (c, w) = (r, (c1, w1))" by (metis prod.collapse)
  have one: "attempts_ok cfg attempt (Suc 0) s (r, (c1, w1))"
    using counted_ok [of cfg attempt 0 s ctx] f s by simp
  note grow = attempts_ok_pause [OF one]
  have pz: "0 \<le> max_pause cfg attempt" by (simp add: max_pause_def)
  obtain delay w2 where j: "addJitter (backoff cfg attempt) (500 * Millisecond) w1 = (delay, w2)"
    by fastforce
  obtain x w3 where a: "await ctx delay w2 = (x, w3)" by fastforce
  note w3 = pause_facts [OF j a]
  show ?case
  proof (cases "ctx_Err ctx (clock w)")
    case (Some e)
    then have "do_loop ctx cfg (counted (call ctx)) attempt lastErr s = (Some e, s)"
      using Suc.prems by (simp add: s do_loop.simps [of _ _ _ attempt])
    moreover have "0 \<le> int m * timeout" "0 \<le> total_pause cfg (attempt + 1) m"
      using timeout_nonneg total_pause_nonneg by auto
    ultimately show ?thesis using timeout_nonneg pz by (simp add: attempts_ok_def algebra_simps)
  next
    case None
    show ?thesis
    proof (cases "stops r \<or> x \<noteq> None")
      case True
      then have "do_loop ctx cfg (counted (call ctx)) attempt lastErr s \<in> {(r, (c1, w1)), (x, (c1, w3))}"
        using Suc.prems None f j a
        by (auto simp: s do_loop.simps [of _ _ _ attempt] stops_def split: option.splits)
      with grow [OF w3] grow [of w1] pz show ?thesis by auto
    next
      case False
      then obtain err where err: "r = Some err" "\<not> IsPermanent err"
        by (auto simp: stops_def split: option.splits)
      have "do_loop ctx cfg (counted (call ctx)) attempt lastErr s =
          do_loop ctx cfg (counted (call ctx)) (attempt + 1) (Some err) (c1, w3)"
        using Suc.prems None f j a False err by (simp add: s do_loop.simps [of _ _ _ attempt])
      moreover have "attempts_ok cfg (attempt + 1) (Suc m) (c1, w3)
          (do_loop ctx cfg (counted (call ctx)) (attempt + 1) (Some err) (c1, w3))"
        using Suc.IH Suc.prems by simp
      ultimately show ?thesis using one w3
        by (auto simp: attempts_ok_def algebra_simps intro: wle_trans)
    qed
  qed
qed

end


section \<open>Properties\<close>

text \<open>
  Claim C22. The retry loop is "try until something decides": with a context that is never
  done and at least one attempt allowed, \<^verbatim>\<open>Do\<close> returns exactly what its (k+1)-st call of
  the function value returned, where the k calls before it all failed with transient errors,
  and it stopped there because that call succeeded, failed permanently, or was the last one
  allowed.
\<close>

theorem Do_reference:
  assumes "1 \<le> MaxAttempts cfg"
  shows "\<exists>k. int k < MaxAttempts cfg \<and>
           (\<forall>i < k. \<exists>e. fst (fn (nth_start cfg fn 1 s i)) = Some e \<and> \<not> IsPermanent e) \<and>
           (int k = MaxAttempts cfg - 1 \<or> stops (fst (fn (nth_start cfg fn 1 s k)))) \<and>
           Do Background cfg fn s = fn (nth_start cfg fn 1 s k)"
proof -
  define m where "m = nat (MaxAttempts cfg - 1)"
  have m: "1 + int m = MaxAttempts cfg" using assms by (simp add: m_def)
  obtain k where k: "k \<le> m" "\<forall>i < k. \<not> stops (fst (fn (nth_start cfg fn 1 s i)))"
    "k = m \<or> stops (fst (fn (nth_start cfg fn 1 s k)))"
    "Do Background cfg fn s = fn (nth_start cfg fn 1 s k)"
    using do_loop_attempts [OF m, of fn s None] by (auto simp: Do_def)
  have "\<exists>e. r = Some e \<and> \<not> IsPermanent e" if "\<not> stops r" for r
    using that by (auto simp: stops_def split: option.splits)
  with k m show ?thesis by (intro exI [of _ k]) auto
qed

theorem Do_reference_witness:
  "\<exists>k. int k < MaxAttempts DefaultRetryConfig \<and>
     Do Background DefaultRetryConfig (\<lambda>s. (None, s)) (0 :: int, scripted_world []) =
       (None, nth_start DefaultRetryConfig (\<lambda>s. (None, s)) 1 (0, scripted_world []) k)"
  using Do_reference [of DefaultRetryConfig "\<lambda>s. (None, s)" "(0, scripted_world [])"]
  by (auto simp: DefaultRetryConfig_def)

text \<open>
  A configuration that allows no attempt reports success: with
  \<^verbatim>\<open>MaxAttempts\<close> below one \<^verbatim>\<open>Do\<close> returns a nil error without ever calling the function
  value. A context that is already done is reported without a call, too.
\<close>

theorem Do_without_attempt:
  "(MaxAttempts cfg < 1 \<longrightarrow> Do ctx cfg fn (c, w) = (None, c, w)) \<and>
   (1 \<le> MaxAttempts cfg \<and> ctx_Err ctx (clock w) = Some e \<longrightarrow> Do ctx cfg fn (c, w) = (Some e, c, w))"
  by (simp add: Do_def do_loop.simps)

theorem Do_without_attempt_witness:
  "Do Background (DefaultRetryConfig\<lparr>MaxAttempts := 0\<rparr>) (\<lambda>s. (Some ErrTimeout, s)) (0 :: int, scripted_world []) =
     (None, 0, scripted_world []) \<and>
   Do (Some (- 1, Canceled)) DefaultRetryConfig (\<lambda>s. (None, s)) (0 :: int, scripted_world []) =
     (Some Canceled, 0, scripted_world [])"
  using Do_without_attempt [of "DefaultRetryConfig\<lparr>MaxAttempts := 0\<rparr>" Background
      "\<lambda>s. (Some ErrTimeout, s)" 0 "scripted_world []" Canceled]
    Do_without_attempt [of DefaultRetryConfig "Some (- 1, Canceled)" "\<lambda>s. (None, s)" 0
      "scripted_world []" Canceled]
  by (simp add: DefaultRetryConfig_def ctx_Err_def scripted_world_def)

text \<open>
  The exponential schedule in closed form: with a whole multiplier the delay after
  attempt \<open>n\<close> is the initial delay times the multiplier to the \<open>n - 1\<close>, capped by
  \<^verbatim>\<open>MaxDelay\<close>. With the default configuration that is 1, 2, 4, 8, 16 and then 30 seconds.
\<close>

theorem backoff_closed_form:
  "Multiplier cfg = of_int k \<Longrightarrow>
     backoff cfg n = min (MaxDelay cfg) (InitialDelay cfg * k ^ nat (n - 1))"
proof -
  assume k: "Multiplier cfg = of_int k"
  have "of_int (InitialDelay cfg) * Multiplier cfg ^ nat (n - 1) =
      of_int (InitialDelay cfg * k ^ nat (n - 1))"
    by (simp add: k)
  then show ?thesis unfolding backoff_def Let_def by (simp only: of_int_less_iff trunc_of_int) simp
qed

theorem backoff_closed_form_witness:
  "map (backoff DefaultRetryConfig) [1, 2, 3, 4, 5, 6] =
     map (\<lambda>s. s * Second) [1, 2, 4, 8, 16, 30]"
  using backoff_closed_form [of DefaultRetryConfig 2]
  by (simp add: DefaultRetryConfig_def Second_def Millisecond_def)

text \<open>\<^verbatim>\<open>Do\<close> over a function value that stores its result in a captured variable.\<close>

definition capture ::
  "(world \<Rightarrow> (goerr + 'a) \<times> world) \<Rightarrow> 'a \<times> world \<Rightarrow> goerr option \<times> 'a \<times> world" where
  "capture fn s =
     (case fn (snd s) of (Inl err, w) \<Rightarrow> (Some err, fst s, w) | (Inr v, w) \<Rightarrow> (None, v, w))"

lemma dowr_loop_capture:
  "dowr_loop z ctx cfg fn attempt lastErr w =
     (let (e, v, w') = do_loop ctx cfg (capture fn) attempt lastErr (z, w) in ((v, e), w'))"
proof (induction z ctx cfg fn attempt lastErr w rule: dowr_loop.induct)
  case (1 z ctx cfg fn attempt lastErr w)
  show ?case
  proof (cases "attempt \<le> MaxAttempts cfg \<and> ctx_Err ctx (clock w) = None")
    case False
    then show ?thesis
      by (auto simp: dowr_loop.simps [of _ _ _ _ attempt] do_loop.simps [of _ _ _ attempt])
  next
    case go: True
    obtain r w1 where f: "fn w = (r, w1)" by fastforce
    show ?thesis
    proof (cases r)
      case (Inr v)
      with go f show ?thesis
        by (simp add: dowr_loop.simps [of _ _ _ _ attempt] do_loop.simps [of _ _ _ attempt] capture_def)
    next
      case (Inl err)
      obtain d w2 where j: "addJitter (backoff cfg attempt) (500 * Millisecond) w1 = (d, w2)"
        by fastforce
      obtain x w3 where a: "await ctx d w2 = (x, w3)" by fastforce
      show ?thesis
        using go f Inl j a "1.IH"
        by (cases x) (auto simp: dowr_loop.simps [of _ _ _ _ attempt]
            do_loop.simps [of _ _ _ attempt] capture_def)
    qed
  qed
qed

text \<open>
  \<^verbatim>\<open>DoWithResult\<close> is \<^verbatim>\<open>Do\<close> with the result captured in a variable: the two
  copies of the loop take the same decisions on the same calls, for every context,
  configuration and function value.
\<close>

theorem DoWithResult_is_Do:
  "DoWithResult z ctx cfg fn w =
     (let (e, v, w') = Do ctx cfg (capture fn) (z, w) in ((v, e), w'))"
  by (simp only: DoWithResult_def Do_def dowr_loop_capture)

end
