(* ===== verification/PropertyClient.thy ===== *)
theory PropertyClient
  imports Json Retry
begin

text \<open>
  The property-records client, \<^verbatim>\<open>backend/internal/client/property.go\<close>: the record types with
  their JSON encoding, and \<^verbatim>\<open>Fetch\<close>. Log lines are left out.
\<close>

section \<open>Records\<close>

record OwnerInfo =
  ow_Name :: string
  ow_VestingType :: string
  ow_DeedDate :: string
  ow_DeedType :: string
  ow_Instrument :: string

record LienInfo =
  li_Position :: int
  li_Type :: string
  li_Holder :: string
  li_Amount :: float64
  li_RecordedDate :: string
  li_Instrument :: string
  li_Status :: string

record TaxInfo =
  tx_Year :: int
  tx_Status :: string
  tx_Amount :: float64
  tx_ParcelNumber :: string

record PropertyRecord =
  pr_ParcelID :: string
  pr_County :: string
  pr_State :: string
  pr_Address :: string
  pr_Owner :: OwnerInfo
  pr_Liens :: "LienInfo list option"
  pr_TaxStatus :: TaxInfo
  pr_LegalDescription :: string
  pr_Easements :: "string list option"
  pr_LastUpdated :: string

text \<open>The zero values, from which decoding starts.\<close>

definition zero_owner :: OwnerInfo where
  "zero_owner = \<lparr>ow_Name = [], ow_VestingType = [], ow_DeedDate = [], ow_DeedType = [],
     ow_Instrument = []\<rparr>"

definition zero_lien :: LienInfo where
  "zero_lien = \<lparr>li_Position = 0, li_Type = [], li_Holder = [], li_Amount = 0,
     li_RecordedDate = [], li_Instrument = [], li_Status = []\<rparr>"

definition zero_tax :: TaxInfo where
  "zero_tax = \<lparr>tx_Year = 0, tx_Status = [], tx_Amount = 0, tx_ParcelNumber = []\<rparr>"

definition zero_property :: PropertyRecord where
  "zero_property = \<lparr>pr_ParcelID = [], pr_County = [], pr_State = [], pr_Address = [],
     pr_Owner = zero_owner, pr_Liens = None, pr_TaxStatus = zero_tax, pr_LegalDescription = [],
     pr_Easements = None, pr_LastUpdated = []\<rparr>"

section \<open>JSON\<close>

definition owner_field :: "string \<Rightarrow> json \<Rightarrow> OwnerInfo \<Rightarrow> string + OwnerInfo" where
  "owner_field k j r =
     (if k = ''name'' then store_as (\<lambda>s. r\<lparr>ow_Name := s\<rparr>) (dec_string (ow_Name r) j)
      else if k = ''vestingtype'' then store_as (\<lambda>s. r\<lparr>ow_VestingType := s\<rparr>) (dec_string (ow_VestingType r) j)
      else if k = ''deeddate'' then store_as (\<lambda>s. r\<lparr>ow_DeedDate := s\<rparr>) (dec_string (ow_DeedDate r) j)
      else if k = ''deedtype'' then store_as (\<lambda>s. r\<lparr>ow_DeedType := s\<rparr>) (dec_string (ow_DeedType r) j)
      else if k = ''instrument'' then store_as (\<lambda>s. r\<lparr>ow_Instrument := s\<rparr>) (dec_string (ow_Instrument r) j)
      else Inr r)"

definition lien_field :: "string \<Rightarrow> json \<Rightarrow> LienInfo \<Rightarrow> string + LienInfo" where
  "lien_field k j r =
     (if k = ''position'' then store_as (\<lambda>n. r\<lparr>li_Position := n\<rparr>) (dec_int (li_Position r) j)
      else if k = ''type'' then store_as (\<lambda>s. r\<lparr>li_Type := s\<rparr>) (dec_string (li_Type r) j)
      else if k = ''holder'' then store_as (\<lambda>s. r\<lparr>li_Holder := s\<rparr>) (dec_string (li_Holder r) j)
      else if k = ''amount'' then store_as (\<lambda>x. r\<lparr>li_Amount := x\<rparr>) (dec_float (li_Amount r) j)
      else if k = ''recordeddate'' then store_as (\<lambda>s. r\<lparr>li_RecordedDate := s\<rparr>) (dec_string (li_RecordedDate r) j)
      else if k = ''instrument'' then store_as (\<lambda>s. r\<lparr>li_Instrument := s\<rparr>) (dec_string (li_Instrument r) j)
      else if k = ''status'' then store_as (\<lambda>s. r\<lparr>li_Status := s\<rparr>) (dec_string (li_Status r) j)
      else Inr r)"

definition tax_field :: "string \<Rightarrow> json \<Rightarrow> TaxInfo \<Rightarrow> string + TaxInfo" where
  "tax_field k j r =
     (if k = ''year'' then store_as (\<lambda>n. r\<lparr>tx_Year := n\<rparr>) (dec_int (tx_Year r) j)
      else if k = ''status'' then store_as (\<lambda>s. r\<lparr>tx_Status := s\<rparr>) (dec_string (tx_Status r) j)
      else if k = ''amount'' then store_as (\<lambda>x. r\<lparr>tx_Amount := x\<rparr>) (dec_float (tx_Amount r) j)
      else if k = ''parcelnumber'' then store_as (\<lambda>s. r\<lparr>tx_ParcelNumber := s\<rparr>) (dec_string (tx_ParcelNumber r) j)
      else Inr r)"

definition property_field :: "string \<Rightarrow> json \<Rightarrow> PropertyRecord \<Rightarrow> string + PropertyRecord" where
  "property_field k j r =
     (if k = ''parcelid'' then store_as (\<lambda>s. r\<lparr>pr_ParcelID := s\<rparr>) (dec_string (pr_ParcelID r) j)
      else if k = ''county'' then store_as (\<lambda>s. r\<lparr>pr_County := s\<rparr>) (dec_string (pr_County r) j)
      else if k = ''state'' then store_as (\<lambda>s. r\<lparr>pr_State := s\<rparr>) (dec_string (pr_State r) j)
      else if k = ''address'' then store_as (\<lambda>s. r\<lparr>pr_Address := s\<rparr>) (dec_string (pr_Address r) j)
      else if k = ''owner'' then store_as (\<lambda>x. r\<lparr>pr_Owner := x\<rparr>) (dec_struct owner_field (pr_Owner r) j)
      else if k = ''liens'' then
        store_as (\<lambda>xs. r\<lparr>pr_Liens := xs\<rparr>) (dec_slice (dec_struct lien_field zero_lien) j)
      else if k = ''taxstatus'' then
        store_as (\<lambda>x. r\<lparr>pr_TaxStatus := x\<rparr>) (dec_struct tax_field (pr_TaxStatus r) j)
      else if k = ''legaldescription'' then
        store_as (\<lambda>s. r\<lparr>pr_LegalDescription := s\<rparr>) (dec_string (pr_LegalDescription r) j)
      else if k = ''easements'' then
        store_as (\<lambda>xs. r\<lparr>pr_Easements := xs\<rparr>) (dec_slice (dec_string []) j)
      else if k = ''lastupdated'' then store_as (\<lambda>s. r\<lparr>pr_LastUpdated := s\<rparr>) (dec_string (pr_LastUpdated r) j)
      else Inr r)"

definition dec_property :: "json \<Rightarrow> string + PropertyRecord" where
  "dec_property = dec_struct property_field zero_property"

text \<open>\<^verbatim>\<open>json.Marshal\<close>.\<close>

definition enc_owner :: "OwnerInfo \<Rightarrow> json" where
  "enc_owner r = JObj
     [(''name'', JStr (ow_Name r)), (''vestingType'', JStr (ow_VestingType r)),
      (''deedDate'', JStr (ow_DeedDate r)), (''deedType'', JStr (ow_DeedType r)),
      (''instrument'', JStr (ow_Instrument r))]"

definition enc_lien :: "LienInfo \<Rightarrow> json" where
  "enc_lien r = JObj
     [(''position'', JInt (li_Position r)), (''type'', JStr (li_Type r)),
      (''holder'', JStr (li_Holder r)), (''amount'', enc_float (li_Amount r)),
      (''recordedDate'', JStr (li_RecordedDate r)), (''instrument'', JStr (li_Instrument r)),
      (''status'', JStr (li_Status r))]"

definition enc_tax :: "TaxInfo \<Rightarrow> json" where
  "enc_tax r = JObj
     [(''year'', JInt (tx_Year r)), (''status'', JStr (tx_Status r)),
      (''amount'', enc_float (tx_Amount r)), (''parcelNumber'', JStr (tx_ParcelNumber r))]"

definition enc_property :: "PropertyRecord \<Rightarrow> json" where
  "enc_property r = JObj
     [(''parcelId'', JStr (pr_ParcelID r)), (''county'', JStr (pr_County r)),
      (''state'', JStr (pr_State r)), (''address'', JStr (pr_Address r)),
      (''owner'', enc_owner (pr_Owner r)), (''liens'', enc_slice enc_lien (pr_Liens r)),
      (''taxStatus'', enc_tax (pr_TaxStatus r)),
      (''legalDescription'', JStr (pr_LegalDescription r)),
      (''easements'', enc_slice JStr (pr_Easements r)), (''lastUpdated'', JStr (pr_LastUpdated r))]"

section \<open>The client\<close>

definition propertyHTTPTimeout :: duration where
  "propertyHTTPTimeout = 12 * Second"

record PropertyClient =
  pc_baseURL :: string

definition NewPropertyClient :: "string \<Rightarrow> PropertyClient" where
  "NewPropertyClient baseURL = \<lparr>pc_baseURL = trim_right_slash baseURL\<rparr>"

definition property_request :: "PropertyClient \<Rightarrow> string \<Rightarrow> string \<Rightarrow> string \<Rightarrow> http_request" where
  "property_request c state county parcelID =
     \<lparr>req_method = ''GET'',
      req_url = pc_baseURL c @ ''/api/properties/'' @ state @ ''/'' @ county @ ''/'' @ parcelID,
      req_content_type = None, req_body = None\<rparr>"

definition Fetch ::
  "PropertyClient \<Rightarrow> string \<Rightarrow> string \<Rightarrow> string \<Rightarrow> gctx \<Rightarrow> world \<Rightarrow> (goerr + PropertyRecord) \<times> world"
where
  "Fetch c state county parcelID ctx w =
     (case call_service ctx propertyHTTPTimeout (property_request c state county parcelID) w of
        (Inl err, w1) \<Rightarrow> (Inl err, w1)
      | (Inr (resp, b), w1) \<Rightarrow>
          if StatusCode resp = 200 then
            (case Unmarshal dec_property b of
               Inl err \<Rightarrow> (Inl (wrap_ctx ''decode json'' err), w1)
             | Inr r \<Rightarrow> (Inr r, w1))
          else if StatusCode resp = 404 then
            (Inl (wrap_detail ErrNotFound (state @ ''/'' @ county @ ''/'' @ parcelID)), w1)
          else if StatusCode resp = 503 then (Inl ErrServiceUnavailable, w1)
          else (Inl (ErrorString (''unexpected status '' @ itoa (StatusCode resp) @ '': '' @ body_text b)), w1))"

lemma propertyHTTPTimeout_nonneg [simp]: "0 \<le> propertyHTTPTimeout"
  by (simp add: propertyHTTPTimeout_def)

lemma Fetch_world:
  "snd (Fetch c st co p ctx w) =
     snd (call_service ctx propertyHTTPTimeout (property_request c st co p) w)"
  by (simp add: Fetch_def split: prod.splits sum.splits)

interpretation property_service: service_call "Fetch c st co p" propertyHTTPTimeout for c st co p
  by unfold_locales (simp_all add: Fetch_world call_service_ok)

lemma Unmarshal_transient: "Unmarshal dec b = Inl err \<Longrightarrow> \<not> IsPermanent err"
  by (auto simp: Unmarshal_def split: sum.splits)

text \<open>An error of \<^verbatim>\<open>Fetch\<close> is permanent exactly when the service answered 404.\<close>

lemma Fetch_permanent:
  "Fetch c st co p ctx w = (Inl err, w1) \<Longrightarrow>
     IsPermanent err \<longleftrightarrow>
       (\<exists>resp b. call_service ctx propertyHTTPTimeout (property_request c st co p) w = (Inr (resp, b), w1) \<and>
          StatusCode resp = 404)"
  by (auto simp: Fetch_def dest: call_service_transient Unmarshal_transient
      split: prod.splits sum.splits if_splits)

section \<open>Round trip\<close>

lemmas property_zeros = zero_owner_def zero_lien_def zero_tax_def zero_property_def

lemma property_keys [simp]:
  "lower_str ''address'' = ''address''"
  "lower_str ''amount'' = ''amount''"
  "lower_str ''county'' = ''county''"
  "lower_str ''deedDate'' = ''deeddate''"
  "lower_str ''deedType'' = ''deedtype''"
  "lower_str ''easements'' = ''easements''"
  "lower_str ''holder'' = ''holder''"
  "lower_str ''instrument'' = ''instrument''"
  "lower_str ''lastUpdated'' = ''lastupdated''"
  "lower_str ''legalDescription'' = ''legaldescription''"
  "lower_str ''liens'' = ''liens''"
  "lower_str ''name'' = ''name''"
  "lower_str ''owner'' = ''owner''"
  "lower_str ''parcelId'' = ''parcelid''"
  "lower_str ''parcelNumber'' = ''parcelnumber''"
  "lower_str ''position'' = ''position''"
  "lower_str ''recordedDate'' = ''recordeddate''"
  "lower_str ''state'' = ''state''"
  "lower_str ''status'' = ''status''"
  "lower_str ''taxStatus'' = ''taxstatus''"
  "lower_str ''type'' = ''type''"
  "lower_str ''vestingType'' = ''vestingtype''"
  "lower_str ''year'' = ''year''"
  by code_simp+

lemma dec_owner: "dec_struct owner_field r0 (enc_owner r) = Inr r"
  by (simp add: enc_owner_def owner_field_def)

lemma dec_tax: "int64 (tx_Year r) \<Longrightarrow> dec_struct tax_field r0 (enc_tax r) = Inr r"
  by (simp add: enc_tax_def tax_field_def)

lemma dec_lien: "int64 (li_Position r) \<Longrightarrow> dec_struct lien_field r0 (enc_lien r) = Inr r"
  by (simp add: enc_lien_def lien_field_def)


text \<open>The integers of a record are Go ints, so they fit 64 bits.\<close>

definition property_ints_ok :: "PropertyRecord \<Rightarrow> bool" where
  "property_ints_ok r \<longleftrightarrow> int64 (tx_Year (pr_TaxStatus r)) \<and>
     (\<forall>ls. pr_Liens r = Some ls \<longrightarrow> (\<forall>l \<in> set ls. int64 (li_Position l)))"

lemma dec_enc_property:
  assumes "property_ints_ok r"
  shows "dec_property (enc_property r) = Inr r"
proof -
  have "dec_slice (dec_struct lien_field zero_lien) (enc_slice enc_lien (pr_Liens r)) = Inr (pr_Liens r)"
    using assms by (intro dec_slice_enc dec_lien) (simp add: property_ints_ok_def)
  moreover have "dec_struct tax_field t0 (enc_tax (pr_TaxStatus r)) = Inr (pr_TaxStatus r)" for t0
    using assms by (intro dec_tax) (simp add: property_ints_ok_def)
  ultimately show ?thesis
    by (simp add: dec_property_def enc_property_def property_field_def dec_owner property_zeros)
qed

text \<open>
  Decoding inverts encoding: a property record that the service encodes is the
  record the client decodes, nil and empty lists told apart, whatever the client held before.
\<close>

theorem property_roundtrip:
  assumes "property_ints_ok r"
  shows "dec_property (enc_property r) = Inr r"
  using assms by (rule dec_enc_property)

theorem property_roundtrip_witness:
  "dec_property (enc_property (zero_property\<lparr>pr_Liens := Some [zero_lien\<lparr>li_Amount := 7 / 2\<rparr>]\<rparr>)) =
     Inr (zero_property\<lparr>pr_Liens := Some [zero_lien\<lparr>li_Amount := 7 / 2\<rparr>]\<rparr>)"
  by (rule property_roundtrip) (simp add: property_ints_ok_def property_zeros int64_def)

end
