(* ===== verification/CourtClient.thy ===== *)
theory CourtClient
  imports Json Retry
begin

text \<open>
  The court-records client, \<^verbatim>\<open>backend/internal/client/court.go\<close>: a JSON request, an XML
  answer. \<^verbatim>\<open>encoding/xml\<close> matches child elements to fields by exact name, in document
  order; a repeated string element overwrites, a repeated pointer element is merged into the
  struct it points to, and every \<^verbatim>\<open>Filing\<close> is appended. Log lines are left out.
\<close>

section \<open>Records\<close>

record Parties =
  pa_Plaintiff :: string
  pa_Defendant :: string

record Filing =
  fi_Type :: string
  fi_FiledDate :: string
  fi_DocumentNumber :: string

record FilingsList =
  fl_Items :: "Filing list option"

record HearingInfo =
  he_Date :: string
  he_Time :: string
  he_Type :: string
  he_Courtroom :: string

record CourtRecord =
  cr_XMLName :: "string \<times> string"
  cr_CaseNumber :: string
  cr_Court :: string
  cr_Division :: string
  cr_Judge :: string
  cr_FilingDate :: string
  cr_CaseType :: string
  cr_Status :: string
  cr_Message :: string
  cr_Parties :: "Parties option"
  cr_Filings :: "FilingsList option"
  cr_NextHearing :: "HearingInfo option"

definition zero_parties :: Parties where
  "zero_parties = \<lparr>pa_Plaintiff = [], pa_Defendant = []\<rparr>"

definition zero_filing :: Filing where
  "zero_filing = \<lparr>fi_Type = [], fi_FiledDate = [], fi_DocumentNumber = []\<rparr>"

definition zero_filings :: FilingsList where
  "zero_filings = \<lparr>fl_Items = None\<rparr>"

definition zero_hearing :: HearingInfo where
  "zero_hearing = \<lparr>he_Date = [], he_Time = [], he_Type = [], he_Courtroom = []\<rparr>"

definition zero_court :: CourtRecord where
  "zero_court = \<lparr>cr_XMLName = ([], []), cr_CaseNumber = [], cr_Court = [], cr_Division = [],
     cr_Judge = [], cr_FilingDate = [], cr_CaseType = [], cr_Status = [], cr_Message = [],
     cr_Parties = None, cr_Filings = None, cr_NextHearing = None\<rparr>"

lemmas court_zeros = zero_parties_def zero_filing_def zero_filings_def zero_hearing_def zero_court_def

section \<open>XML\<close>

text \<open>The character data directly below an element.\<close>

fun xml_text :: "xml list \<Rightarrow> string" where
  "xml_text [] = []"
| "xml_text (CData s # xs) = s @ xml_text xs"
| "xml_text (Elem n ys # xs) = xml_text xs"

text \<open>Visit the child elements in document order.\<close>

fun xml_children :: "(string \<Rightarrow> xml list \<Rightarrow> 'r \<Rightarrow> 'r) \<Rightarrow> xml list \<Rightarrow> 'r \<Rightarrow> 'r" where
  "xml_children f [] r = r"
| "xml_children f (CData s # xs) r = xml_children f xs r"
| "xml_children f (Elem n ys # xs) r = xml_children f xs (f n ys r)"

definition parties_elem :: "string \<Rightarrow> xml list \<Rightarrow> Parties \<Rightarrow> Parties" where
  "parties_elem n ys r =
     (if n = ''Plaintiff'' then r\<lparr>pa_Plaintiff := xml_text ys\<rparr>
      else if n = ''Defendant'' then r\<lparr>pa_Defendant := xml_text ys\<rparr>
      else r)"

definition filing_elem :: "string \<Rightarrow> xml list \<Rightarrow> Filing \<Rightarrow> Filing" where
  "filing_elem n ys r =
     (if n = ''Type'' then r\<lparr>fi_Type := xml_text ys\<rparr>
      else if n = ''FiledDate'' then r\<lparr>fi_FiledDate := xml_text ys\<rparr>
      else if n = ''DocumentNumber'' then r\<lparr>fi_DocumentNumber := xml_text ys\<rparr>
      else r)"

definition append_slice :: "'a list option \<Rightarrow> 'a \<Rightarrow> 'a list option" where
  "append_slice xs x = (case xs of None \<Rightarrow> Some [x] | Some ys \<Rightarrow> Some (ys @ [x]))"

definition filings_elem :: "string \<Rightarrow> xml list \<Rightarrow> FilingsList \<Rightarrow> FilingsList" where
  "filings_elem n ys r =
     (if n = ''Filing''
      then r\<lparr>fl_Items := append_slice (fl_Items r) (xml_children filing_elem ys zero_filing)\<rparr>
      else r)"

definition hearing_elem :: "string \<Rightarrow> xml list \<Rightarrow> HearingInfo \<Rightarrow> HearingInfo" where
  "hearing_elem n ys r =
     (if n = ''Date'' then r\<lparr>he_Date := xml_text ys\<rparr>
      else if n = ''Time'' then r\<lparr>he_Time := xml_text ys\<rparr>
      else if n = ''Type'' then r\<lparr>he_Type := xml_text ys\<rparr>
      else if n = ''Courtroom'' then r\<lparr>he_Courtroom := xml_text ys\<rparr>
      else r)"

text \<open>A pointer field: allocate on first use, then fill in.\<close>

definition into_ptr :: "'r \<Rightarrow> (string \<Rightarrow> xml list \<Rightarrow> 'r \<Rightarrow> 'r) \<Rightarrow> xml list \<Rightarrow> 'r option \<Rightarrow> 'r option" where
  "into_ptr z f ys p = Some (xml_children f ys (case p of None \<Rightarrow> z | Some r \<Rightarrow> r))"

definition court_elem :: "string \<Rightarrow> xml list \<Rightarrow> CourtRecord \<Rightarrow> CourtRecord" where
  "court_elem n ys r =
     (if n = ''CaseNumber'' then r\<lparr>cr_CaseNumber := xml_text ys\<rparr>
      else if n = ''Court'' then r\<lparr>cr_Court := xml_text ys\<rparr>
      else if n = ''Division'' then r\<lparr>cr_Division := xml_text ys\<rparr>
      else if n = ''Judge'' then r\<lparr>cr_Judge := xml_text ys\<rparr>
      else if n = ''FilingDate'' then r\<lparr>cr_FilingDate := xml_text ys\<rparr>
      else if n = ''CaseType'' then r\<lparr>cr_CaseType := xml_text ys\<rparr>
      else if n = ''Status'' then r\<lparr>cr_Status := xml_text ys\<rparr>
      else if n = ''Message'' then r\<lparr>cr_Message := xml_text ys\<rparr>
      else if n = ''Parties'' then r\<lparr>cr_Parties := into_ptr zero_parties parties_elem ys (cr_Parties r)\<rparr>
      else if n = ''Filings'' then r\<lparr>cr_Filings := into_ptr zero_filings filings_elem ys (cr_Filings r)\<rparr>
      else if n = ''NextHearing'' then
        r\<lparr>cr_NextHearing := into_ptr zero_hearing hearing_elem ys (cr_NextHearing r)\<rparr>
      else r)"

text \<open>\<^verbatim>\<open>xml.Unmarshal\<close>; the root element must carry the name in the \<^verbatim>\<open>XMLName\<close> tag.\<close>

definition dec_court :: "body \<Rightarrow> string + CourtRecord" where
  "dec_court b =
     (case body_xml b of
        Inl e \<Rightarrow> Inl e
      | Inr (CData s) \<Rightarrow> Inl ''EOF''
      | Inr (Elem n ys) \<Rightarrow>
          if n = ''CourtRecordResponse''
          then Inr (xml_children court_elem ys (zero_court\<lparr>cr_XMLName := ([], n)\<rparr>))
          else Inl (''expected element type <CourtRecordResponse> but have <'' @ n @ ''>''))"

section \<open>JSON for the database\<close>

text \<open>
  The structs carry no JSON tags, so \<^verbatim>\<open>json.Marshal\<close> uses the Go field names, and the
  \<^verbatim>\<open>omitempty\<close> of the XML tags does not apply.
\<close>

definition enc_parties :: "Parties \<Rightarrow> json" where
  "enc_parties r = JObj [(''Plaintiff'', JStr (pa_Plaintiff r)), (''Defendant'', JStr (pa_Defendant r))]"

definition enc_filing :: "Filing \<Rightarrow> json" where
  "enc_filing r = JObj
     [(''Type'', JStr (fi_Type r)), (''FiledDate'', JStr (fi_FiledDate r)),
      (''DocumentNumber'', JStr (fi_DocumentNumber r))]"

definition enc_filings :: "FilingsList \<Rightarrow> json" where
  "enc_filings r = JObj [(''Items'', enc_slice enc_filing (fl_Items r))]"

definition enc_hearing :: "HearingInfo \<Rightarrow> json" where
  "enc_hearing r = JObj
     [(''Date'', JStr (he_Date r)), (''Time'', JStr (he_Time r)),
      (''Type'', JStr (he_Type r)), (''Courtroom'', JStr (he_Courtroom r))]"

definition enc_ptr :: "('a \<Rightarrow> json) \<Rightarrow> 'a option \<Rightarrow> json" where
  "enc_ptr f p = (case p of None \<Rightarrow> JNull | Some x \<Rightarrow> f x)"

definition enc_court :: "CourtRecord \<Rightarrow> json" where
  "enc_court r = JObj
     [(''XMLName'', JObj [(''Space'', JStr (fst (cr_XMLName r))), (''Local'', JStr (snd (cr_XMLName r)))]),
      (''CaseNumber'', JStr (cr_CaseNumber r)), (''Court'', JStr (cr_Court r)),
      (''Division'', JStr (cr_Division r)), (''Judge'', JStr (cr_Judge r)),
      (''FilingDate'', JStr (cr_FilingDate r)), (''CaseType'', JStr (cr_CaseType r)),
      (''Status'', JStr (cr_Status r)), (''Message'', JStr (cr_Message r)),
      (''Parties'', enc_ptr enc_parties (cr_Parties r)), (''Filings'', enc_ptr enc_filings (cr_Filings r)),
      (''NextHearing'', enc_ptr enc_hearing (cr_NextHearing r))]"

section \<open>The client\<close>

definition courtHTTPTimeout :: duration where
  "courtHTTPTimeout = 10 * Second"

record CourtClient =
  cc_baseURL :: string

definition NewCourtClient :: "string \<Rightarrow> CourtClient" where
  "NewCourtClient baseURL = \<lparr>cc_baseURL = trim_right_slash baseURL\<rparr>"

definition court_request :: "CourtClient \<Rightarrow> string \<Rightarrow> http_request" where
  "court_request c caseNumber =
     \<lparr>req_method = ''POST'', req_url = cc_baseURL c @ ''/api/court-records/search'',
      req_content_type = Some ''application/json'',
      req_body = Some (JObj [(''caseNumber'', JStr caseNumber)])\<rparr>"

definition Search ::
  "CourtClient \<Rightarrow> string \<Rightarrow> gctx \<Rightarrow> world \<Rightarrow> (goerr + CourtRecord option) \<times> world"
where
  "Search c caseNumber ctx w =
     (case call_service ctx courtHTTPTimeout (court_request c caseNumber) w of
        (Inl err, w1) \<Rightarrow> (Inl err, w1)
      | (Inr (resp, b), w1) \<Rightarrow>
          if StatusCode resp = 200 then
            (case dec_court b of
               Inl txt \<Rightarrow> (Inl (wrap_detail ErrMalformedResponse txt), w1)
             | Inr r \<Rightarrow> if cr_Status r = ''NoFilingFound'' then (Inr None, w1) else (Inr (Some r), w1))
          else if StatusCode resp = 429 then (Inl ErrRateLimited, w1)
          else (Inl (ErrorString (''unexpected status '' @ itoa (StatusCode resp) @ '': '' @ body_text b)), w1))"

lemma courtHTTPTimeout_nonneg [simp]: "0 \<le> courtHTTPTimeout"
  by (simp add: courtHTTPTimeout_def)

lemma Search_world:
  "snd (Search c n ctx w) = snd (call_service ctx courtHTTPTimeout (court_request c n) w)"
  by (simp add: Search_def split: prod.splits sum.splits)

interpretation court_service: service_call "Search c n" courtHTTPTimeout for c n
  by unfold_locales (simp_all add: Search_world call_service_ok)

text \<open>The court client has no permanent errors.\<close>

lemma Search_transient: "Search c n ctx w = (Inl err, w1) \<Longrightarrow> \<not> IsPermanent err"
  by (auto simp: Search_def dest: call_service_transient
      split: prod.splits sum.splits if_splits)

end
