(* ===== verification/ScraClient.thy ===== *)
theory ScraClient
  imports Json Retry
begin

text \<open>
  The SCRA client, \<^verbatim>\<open>backend/internal/client/scra.go\<close>: submit a search, poll for its result.
  \<^verbatim>\<open>PollResult\<close> reads a field of the result it has just decoded before it returns it; when
  the service says \<^verbatim>\<open>"complete"\<close> without a result that is a nil dereference, which Go
  answers with a panic, so the method returns \<open>None\<close> there. Log lines are otherwise left out.
\<close>

section \<open>Records\<close>

record SCRASearchRequest =
  sq_LastName :: string
  sq_FirstName :: string
  sq_SSNLast4 :: string
  sq_DOB :: string

record SCRASubmitResponse =
  sb_SearchID :: string
  sb_Status :: string
  sb_SubmittedAt :: string
  sb_EstimatedCompletionSeconds :: int

record SCRAResult =
  sr_ActiveDuty :: bool
  sr_LastName :: string
  sr_FirstName :: string
  sr_SearchDate :: string
  sr_CertificateURL :: "string option"

record SCRAPollResponse =
  sp_SearchID :: string
  sp_Status :: string
  sp_Result :: "SCRAResult option"
  sp_Error :: string
  sp_CompletedAt :: string

definition zero_submit :: SCRASubmitResponse where
  "zero_submit = \<lparr>sb_SearchID = [], sb_Status = [], sb_SubmittedAt = [],
     sb_EstimatedCompletionSeconds = 0\<rparr>"

definition zero_scra_result :: SCRAResult where
  "zero_scra_result = \<lparr>sr_ActiveDuty = False, sr_LastName = [], sr_FirstName = [],
     sr_SearchDate = [], sr_CertificateURL = None\<rparr>"

definition zero_poll :: SCRAPollResponse where
  "zero_poll = \<lparr>sp_SearchID = [], sp_Status = [], sp_Result = None, sp_Error = [],
     sp_CompletedAt = []\<rparr>"

lemmas scra_zeros = zero_submit_def zero_scra_result_def zero_poll_def

section \<open>JSON\<close>

definition enc_search_request :: "SCRASearchRequest \<Rightarrow> json" where
  "enc_search_request r = JObj
     [(''lastName'', JStr (sq_LastName r)), (''firstName'', JStr (sq_FirstName r)),
      (''ssnLast4'', JStr (sq_SSNLast4 r)), (''dob'', JStr (sq_DOB r))]"

definition submit_field :: "string \<Rightarrow> json \<Rightarrow> SCRASubmitResponse \<Rightarrow> string + SCRASubmitResponse" where
  "submit_field k j r =
     (if k = ''searchid'' then store_as (\<lambda>s. r\<lparr>sb_SearchID := s\<rparr>) (dec_string (sb_SearchID r) j)
      else if k = ''status'' then store_as (\<lambda>s. r\<lparr>sb_Status := s\<rparr>) (dec_string (sb_Status r) j)
      else if k = ''submittedat'' then store_as (\<lambda>s. r\<lparr>sb_SubmittedAt := s\<rparr>) (dec_string (sb_SubmittedAt r) j)
      else if k = ''estimatedcompletionseconds'' then
        store_as (\<lambda>n. r\<lparr>sb_EstimatedCompletionSeconds := n\<rparr>) (dec_int (sb_EstimatedCompletionSeconds r) j)
      else Inr r)"

definition dec_submit :: "json \<Rightarrow> string + SCRASubmitResponse" where
  "dec_submit = dec_struct submit_field zero_submit"

definition scra_result_field :: "string \<Rightarrow> json \<Rightarrow> SCRAResult \<Rightarrow> string + SCRAResult" where
  "scra_result_field k j r =
     (if k = ''activeduty'' then store_as (\<lambda>b. r\<lparr>sr_ActiveDuty := b\<rparr>) (dec_bool (sr_ActiveDuty r) j)
      else if k = ''lastname'' then store_as (\<lambda>s. r\<lparr>sr_LastName := s\<rparr>) (dec_string (sr_LastName r) j)
      else if k = ''firstname'' then store_as (\<lambda>s. r\<lparr>sr_FirstName := s\<rparr>) (dec_string (sr_FirstName r) j)
      else if k = ''searchdate'' then store_as (\<lambda>s. r\<lparr>sr_SearchDate := s\<rparr>) (dec_string (sr_SearchDate r) j)
      else if k = ''certificateurl'' then
        store_as (\<lambda>p. r\<lparr>sr_CertificateURL := p\<rparr>) (dec_string_ptr j)
      else Inr r)"

text \<open>A pointer to a struct: null clears it, an object is decoded into what it points to.\<close>

definition dec_result_ptr :: "SCRAResult option \<Rightarrow> json \<Rightarrow> string + SCRAResult option" where
  "dec_result_ptr p j =
     (if j = JNull then Inr None
      else store_as Some
        (dec_struct scra_result_field (case p of None \<Rightarrow> zero_scra_result | Some r \<Rightarrow> r) j))"

definition poll_field :: "string \<Rightarrow> json \<Rightarrow> SCRAPollResponse \<Rightarrow> string + SCRAPollResponse" where
  "poll_field k j r =
     (if k = ''searchid'' then store_as (\<lambda>s. r\<lparr>sp_SearchID := s\<rparr>) (dec_string (sp_SearchID r) j)
      else if k = ''status'' then store_as (\<lambda>s. r\<lparr>sp_Status := s\<rparr>) (dec_string (sp_Status r) j)
      else if k = ''result'' then store_as (\<lambda>p. r\<lparr>sp_Result := p\<rparr>) (dec_result_ptr (sp_Result r) j)
      else if k = ''error'' then store_as (\<lambda>s. r\<lparr>sp_Error := s\<rparr>) (dec_string (sp_Error r) j)
      else if k = ''completedat'' then store_as (\<lambda>s. r\<lparr>sp_CompletedAt := s\<rparr>) (dec_string (sp_CompletedAt r) j)
      else Inr r)"

definition dec_poll :: "json \<Rightarrow> string + SCRAPollResponse" where
  "dec_poll = dec_struct poll_field zero_poll"

definition enc_scra_result :: "SCRAResult \<Rightarrow> json" where
  "enc_scra_result r = JObj
     [(''activeDuty'', JBool (sr_ActiveDuty r)), (''lastName'', JStr (sr_LastName r)),
      (''firstName'', JStr (sr_FirstName r)), (''searchDate'', JStr (sr_SearchDate r)),
      (''certificateUrl'', enc_string_ptr (sr_CertificateURL r))]"

section \<open>The client\<close>

definition scraHTTPTimeout :: duration where
  "scraHTTPTimeout = 5 * Second"

record SCRAClient =
  sc_baseURL :: string

definition NewSCRAClient :: "string \<Rightarrow> SCRAClient" where
  "NewSCRAClient baseURL = \<lparr>sc_baseURL = trim_right_slash baseURL\<rparr>"

definition submit_request :: "SCRAClient \<Rightarrow> SCRASearchRequest \<Rightarrow> http_request" where
  "submit_request c q =
     \<lparr>req_method = ''POST'', req_url = sc_baseURL c @ ''/api/scra/search'',
      req_content_type = Some ''application/json'', req_body = Some (enc_search_request q)\<rparr>"

definition SubmitSearch ::
  "SCRAClient \<Rightarrow> SCRASearchRequest \<Rightarrow> gctx \<Rightarrow> world \<Rightarrow> (goerr + string) \<times> world"
where
  "SubmitSearch c q ctx w =
     (case call_service ctx scraHTTPTimeout (submit_request c q) w of
        (Inl err, w1) \<Rightarrow> (Inl err, w1)
      | (Inr (resp, b), w1) \<Rightarrow>
          if StatusCode resp \<noteq> 202 then
            (Inl (ErrorString (''unexpected status '' @ itoa (StatusCode resp) @
               '' from scra search: '' @ body_text b)), w1)
          else
            (case Unmarshal dec_submit b of
               Inl err \<Rightarrow> (Inl (wrap_ctx ''decode submit response'' err), w1)
             | Inr r \<Rightarrow> (Inr (sb_SearchID r), w1)))"

text \<open>
  The three results of \<^verbatim>\<open>PollResult\<close>: the result, the status string, the error. The verb
  \<^verbatim>\<open>%q\<close> is rendered for strings that need no escapes.
\<close>

definition poll_request :: "SCRAClient \<Rightarrow> string \<Rightarrow> http_request" where
  "poll_request c searchID =
     \<lparr>req_method = ''GET'', req_url = sc_baseURL c @ ''/api/scra/results/'' @ searchID,
      req_content_type = None, req_body = None\<rparr>"

definition PollResult ::
  "SCRAClient \<Rightarrow> string \<Rightarrow> gctx \<Rightarrow> world \<Rightarrow>
     (SCRAResult option \<times> string \<times> goerr option) option \<times> world"
where
  "PollResult c searchID ctx w =
     (case call_service ctx scraHTTPTimeout (poll_request c searchID) w of
        (Inl err, w1) \<Rightarrow> (Some (None, [], Some err), w1)
      | (Inr (resp, b), w1) \<Rightarrow>
          (if StatusCode resp = 202 then Some (None, ''pending'', None)
           else if StatusCode resp = 200 then
             (case Unmarshal dec_poll b of
                Inl err \<Rightarrow> Some (None, [], Some (wrap_ctx ''decode poll response'' err))
              | Inr p \<Rightarrow>
                  if sp_Status p = ''complete'' then
                    (case sp_Result p of
                       None \<Rightarrow> None
                     | Some r \<Rightarrow> Some (Some r, ''complete'', None))
                  else if sp_Status p = ''error'' then
                    Some (None, ''error'', Some (wrap_detail ErrSearchFailed (sp_Error p)))
                  else
                    Some (None, [], Some (ErrorString
                      (''unexpected poll status '' @ [CHR 0x22] @ sp_Status p @ [CHR 0x22]))))
           else if StatusCode resp = 404 then
             Some (None, [], Some (wrap_detail ErrNotFound (''searchId '' @ searchID @ '' not found'')))
           else
             Some (None, [], Some (ErrorString
               (''unexpected status '' @ itoa (StatusCode resp) @ '': '' @ body_text b))), w1))"

lemma scraHTTPTimeout_nonneg [simp]: "0 \<le> scraHTTPTimeout"
  by (simp add: scraHTTPTimeout_def)

lemma SubmitSearch_world:
  "snd (SubmitSearch c q ctx w) = snd (call_service ctx scraHTTPTimeout (submit_request c q) w)"
  by (simp add: SubmitSearch_def split: prod.splits sum.splits)

lemma PollResult_world:
  "snd (PollResult c i ctx w) = snd (call_service ctx scraHTTPTimeout (poll_request c i) w)"
  by (simp add: PollResult_def split: prod.splits sum.splits)

interpretation submit_service: service_call "SubmitSearch c q" scraHTTPTimeout for c q
  by unfold_locales (simp_all add: SubmitSearch_world call_service_ok)

lemma PollResult_ok: "call_ok scraHTTPTimeout w (snd (PollResult c i ctx w))"
  by (simp add: PollResult_world call_service_ok)

lemma SubmitSearch_transient: "SubmitSearch c q ctx w = (Inl err, w1) \<Longrightarrow> \<not> IsPermanent err"
  by (auto simp: SubmitSearch_def Unmarshal_def dest: call_service_transient
      split: prod.splits sum.splits if_splits)

section \<open>What a poll can answer\<close>

text \<open>
  The orchestrator tells the answers of a poll apart by the status string and the error.
  There are five kinds, told apart reliably: a result comes with \<^verbatim>\<open>"complete"\<close> only, an
  error with \<^verbatim>\<open>"error"\<close> or the empty status, \<^verbatim>\<open>"pending"\<close> with neither.
\<close>

lemma PollResult_cases:
  assumes "PollResult c i ctx w = (ans, w1)"
  obtains (Panic) "ans = None"
    | (Pending) "ans = Some (None, ''pending'', None)"
    | (Complete) r where "ans = Some (Some r, ''complete'', None)"
    | (SearchFailed) e where "ans = Some (None, ''error'', Some (wrap_detail ErrSearchFailed e))"
    | (Other) e where "ans = Some (None, [], Some e)"
  using assms
  by (auto simp: PollResult_def split: prod.splits sum.splits if_splits option.splits)

lemma PollResult_permanent:
  "PollResult c i ctx w = (Some (r, st, Some err), w1) \<Longrightarrow>
     IsPermanent err \<longleftrightarrow>
       (\<exists>resp b. call_service ctx scraHTTPTimeout (poll_request c i) w = (Inr (resp, b), w1) \<and>
          StatusCode resp = 404)"
  by (auto simp: PollResult_def Unmarshal_def dest: call_service_transient
      split: prod.splits sum.splits if_splits option.splits)

end
