(* ===== verification/Store.thy ===== *)
theory Store
  imports Http Types "HOL-Library.Multiset"
begin

text \<open>
  The data layer, \<^verbatim>\<open>backend/internal/store/lookup_store.go\<close>, over the tables of
  \<^verbatim>\<open>backend/migrations\<close>. A table is the list of its rows in insertion order; the
  constraints of the schema (primary keys, \<^verbatim>\<open>UNIQUE\<close>, foreign keys) are checked where a row
  is inserted. Any statement may fail: \<open>exec_fate\<close> and \<open>rows_fate\<close> say what becomes of the
  n-th statement sent to the server, and every theorem holds for all fates unless it assumes
  a healthy database. \<^verbatim>\<open>gen_random_uuid()\<close> draws from an arbitrary supply.
\<close>

section \<open>The database\<close>

text \<open>
  A statement succeeds, fails without effect, or takes effect while its acknowledgement is
  lost. A query for many rows may also fail on scanning a row, or be cut off after some rows;
  the code never looks at \<^verbatim>\<open>rows.Err()\<close>, so it takes what it got for the whole answer.
\<close>

datatype exec_out = ExecOk | ExecFails goerr | AckLost goerr

datatype rows_out = RowsOk | QueryFails goerr | ScanFails nat goerr | RowsCut nat

type_synonym source_row = "json lookup_source"

record db =
  cases :: "case_row list"
  lookup_runs :: "lookup_run list"
  lookup_sources :: "source_row list"
  uuids :: "nat \<Rightarrow> string"
  nuuids :: nat
  exec_fate :: "nat \<Rightarrow> exec_out"
  rows_fate :: "nat \<Rightarrow> rows_out"
  nstmts :: nat

definition next_stmt :: "db \<Rightarrow> db" where
  "next_stmt d = d\<lparr>nstmts := nstmts d + 1\<rparr>"

text \<open>\<^verbatim>\<open>pool.Exec\<close> of an update whose effect on the tables is \<open>f\<close>.\<close>

definition db_exec :: "(db \<Rightarrow> db) \<Rightarrow> db \<Rightarrow> goerr option \<times> db" where
  "db_exec f d =
     (case exec_fate d (nstmts d) of
        ExecOk \<Rightarrow> (None, f (next_stmt d))
      | ExecFails e \<Rightarrow> (Some e, next_stmt d)
      | AckLost e \<Rightarrow> (Some e, f (next_stmt d)))"

text \<open>\<^verbatim>\<open>pool.Query\<close>, the loop over \<^verbatim>\<open>rows.Next()\<close> and \<^verbatim>\<open>rows.Scan\<close>.\<close>

definition db_query :: "string \<Rightarrow> string \<Rightarrow> (db \<Rightarrow> 'a list) \<Rightarrow> db \<Rightarrow> (goerr + 'a list) \<times> db" where
  "db_query what scan f d =
     (let rows = f d in
      (case rows_fate d (nstmts d) of
         RowsOk \<Rightarrow> Inr rows
       | QueryFails e \<Rightarrow> Inl (wrap_ctx what e)
       | ScanFails n e \<Rightarrow> if n < length rows then Inl (wrap_ctx scan e) else Inr rows
       | RowsCut n \<Rightarrow> Inr (take n rows), next_stmt d))"

text \<open>\<^verbatim>\<open>pool.QueryRow(...).Scan(...)\<close>, with \<^verbatim>\<open>pgx.ErrNoRows\<close> turned into nil.\<close>

definition db_query_row :: "string \<Rightarrow> (db \<Rightarrow> 'a option) \<Rightarrow> db \<Rightarrow> (goerr + 'a option) \<times> db" where
  "db_query_row what f d =
     ((case exec_fate d (nstmts d) of
         ExecOk \<Rightarrow> Inr (f d)
       | ExecFails e \<Rightarrow> Inl (wrap_ctx what e)
       | AckLost e \<Rightarrow> Inl (wrap_ctx what e)), next_stmt d)"

section \<open>Case queries\<close>

definition GetCaseByID :: "string \<Rightarrow> db \<Rightarrow> (goerr + case_row option) \<times> db" where
  "GetCaseByID i = db_query_row (''get case '' @ i) (\<lambda>d. find (\<lambda>c. c_ID c = i) (cases d))"

definition ListCases :: "db \<Rightarrow> (goerr + case_row list) \<times> db" where
  "ListCases = db_query ''list cases'' ''scan case'' (\<lambda>d. sort_key c_ID (cases d))"

section \<open>Lookup run queries\<close>

definition GetLookupRunByCaseID :: "string \<Rightarrow> db \<Rightarrow> (goerr + lookup_run option) \<times> db" where
  "GetLookupRunByCaseID caseID =
     db_query_row (''get lookup run for case '' @ caseID)
       (\<lambda>d. find (\<lambda>r. run_CaseID r = caseID) (lookup_runs d))"

definition constraint_error :: "string \<Rightarrow> goerr" where
  "constraint_error name = ErrorString (''ERROR: violates constraint '' @ name)"

text \<open>\<^verbatim>\<open>INSERT INTO lookup_runs (case_id) VALUES ($1) RETURNING ...\<close>\<close>

definition insert_run :: "time \<Rightarrow> string \<Rightarrow> db \<Rightarrow> (goerr + lookup_run) \<times> db" where
  "insert_run now caseID d =
     (let i = uuids d (nuuids d);
          d1 = (next_stmt d)\<lparr>nuuids := nuuids d + 1\<rparr>;
          r = \<lparr>run_ID = i, run_CaseID = caseID, run_Status = ''pending'', StartedAt = now,
               CompletedAt = None\<rparr> in
      case exec_fate d (nstmts d) of
        ExecOk \<Rightarrow>
          if i \<in> set (map run_ID (lookup_runs d)) then (Inl (constraint_error ''lookup_runs_pkey''), d1)
          else if caseID \<in> set (map run_CaseID (lookup_runs d))
            then (Inl (constraint_error ''lookup_runs_case_id_key''), d1)
          else if caseID \<notin> set (map c_ID (cases d))
            then (Inl (constraint_error ''lookup_runs_case_id_fkey''), d1)
          else (Inr r, d1\<lparr>lookup_runs := lookup_runs d @ [r]\<rparr>)
      | ExecFails e \<Rightarrow> (Inl e, d1)
      | AckLost e \<Rightarrow> (Inl e, d1))"

text \<open>\<^verbatim>\<open>INSERT INTO lookup_sources (run_id, source) VALUES ($1, $2) RETURNING ...\<close>\<close>

definition new_source :: "string \<Rightarrow> string \<Rightarrow> string \<Rightarrow> source_row" where
  "new_source i runID src =
     \<lparr>src_ID = i, src_RunID = runID, src_Source = src, src_Status = ''pending'', Attempts = 0,
      LastAttemptAt = None, Data = None, ErrorMessage = None, Reason = None, SearchID = None\<rparr>"

definition insert_source :: "string \<Rightarrow> string \<Rightarrow> db \<Rightarrow> (goerr + source_row) \<times> db" where
  "insert_source runID src d =
     (let i = uuids d (nuuids d);
          d1 = (next_stmt d)\<lparr>nuuids := nuuids d + 1\<rparr>;
          s = new_source i runID src in
      case exec_fate d (nstmts d) of
        ExecOk \<Rightarrow>
          if i \<in> set (map src_ID (lookup_sources d)) then (Inl (constraint_error ''lookup_sources_pkey''), d1)
          else if (runID, src) \<in> set (map (\<lambda>s. (src_RunID s, src_Source s)) (lookup_sources d))
            then (Inl (constraint_error ''lookup_sources_run_id_source_key''), d1)
          else if runID \<notin> set (map run_ID (lookup_runs d))
            then (Inl (constraint_error ''lookup_sources_run_id_fkey''), d1)
          else (Inr s, d1\<lparr>lookup_sources := lookup_sources d @ [s]\<rparr>)
      | ExecFails e \<Rightarrow> (Inl e, d1)
      | AckLost e \<Rightarrow> (Inl e, d1))"

primrec insert_sources :: "string \<Rightarrow> string list \<Rightarrow> db \<Rightarrow> (goerr + source_row list) \<times> db" where
  "insert_sources runID [] d = (Inr [], d)"
| "insert_sources runID (src # srcs) d =
     (case insert_source runID src d of
        (Inl e, d1) \<Rightarrow> (Inl (wrap_ctx (''insert source '' @ src) e), d1)
      | (Inr s, d1) \<Rightarrow>
          (case insert_sources runID srcs d1 of
             (Inl e, d2) \<Rightarrow> (Inl e, d2)
           | (Inr ss, d2) \<Rightarrow> (Inr (s # ss), d2)))"

text \<open>Undo the table changes of a transaction that began in \<open>d0\<close>.\<close>

definition rollback :: "db \<Rightarrow> db \<Rightarrow> db" where
  "rollback d0 d = d\<lparr>lookup_runs := lookup_runs d0, lookup_sources := lookup_sources d0\<rparr>"

definition CreateLookupRun ::
  "time \<Rightarrow> string \<Rightarrow> db \<Rightarrow> (goerr + lookup_run \<times> source_row list) \<times> db"
where
  "CreateLookupRun now caseID d =
     (case db_exec id d of
        (Some e, d0) \<Rightarrow> (Inl (wrap_ctx ''begin tx'' e), d0)
      | (None, d0) \<Rightarrow>
          (case insert_run now caseID d0 of
             (Inl e, d1) \<Rightarrow> (Inl (wrap_ctx ''insert lookup_run'' e), rollback d0 d1)
           | (Inr r, d1) \<Rightarrow>
               (case insert_sources (run_ID r)
                       [SourcePropertyRecords, SourceCourtRecords, SourceSCRA] d1 of
                  (Inl e, d2) \<Rightarrow> (Inl e, rollback d0 d2)
                | (Inr ss, d2) \<Rightarrow>
                    (case exec_fate d2 (nstmts d2) of
                       ExecOk \<Rightarrow> (Inr (r, ss), next_stmt d2)
                     | ExecFails e \<Rightarrow> (Inl (wrap_ctx ''commit'' e), rollback d0 (next_stmt d2))
                     | AckLost e \<Rightarrow> (Inl (wrap_ctx ''commit'' e), next_stmt d2)))))"

text \<open>The rows after an update of the run, or of the source, with the given ID.\<close>

definition update_run :: "string \<Rightarrow> (lookup_run \<Rightarrow> lookup_run) \<Rightarrow> db \<Rightarrow> db" where
  "update_run i f d = d\<lparr>lookup_runs := update_where (\<lambda>r. run_ID r = i) f (lookup_runs d)\<rparr>"

definition update_source :: "string \<Rightarrow> (source_row \<Rightarrow> source_row) \<Rightarrow> db \<Rightarrow> db" where
  "update_source i f d = d\<lparr>lookup_sources := update_where (\<lambda>s. src_ID s = i) f (lookup_sources d)\<rparr>"

definition wrap_opt :: "string \<Rightarrow> goerr option \<times> db \<Rightarrow> goerr option \<times> db" where
  "wrap_opt what r = (map_option (wrap_ctx what) (fst r), snd r)"

definition CompleteRun :: "time \<Rightarrow> string \<Rightarrow> string \<Rightarrow> db \<Rightarrow> goerr option \<times> db" where
  "CompleteRun now runID status d =
     wrap_opt (''complete run '' @ runID)
       (db_exec (update_run runID (\<lambda>r. r\<lparr>run_Status := status, CompletedAt := Some now\<rparr>)) d)"

definition ResetRunToPending :: "string \<Rightarrow> db \<Rightarrow> goerr option \<times> db" where
  "ResetRunToPending runID d =
     wrap_opt (''reset run '' @ runID)
       (db_exec (update_run runID (\<lambda>r. r\<lparr>run_Status := ''pending'', CompletedAt := None\<rparr>)) d)"

section \<open>Lookup source queries\<close>

definition sources_of :: "string \<Rightarrow> db \<Rightarrow> source_row list" where
  "sources_of runID d = filter (\<lambda>s. src_RunID s = runID) (lookup_sources d)"

definition GetSourcesByRunID :: "string \<Rightarrow> db \<Rightarrow> (goerr + source_row list) \<times> db" where
  "GetSourcesByRunID runID =
     db_query (''get sources for run '' @ runID) ''scan source''
       (\<lambda>d. sort_key src_Source (sources_of runID d))"

record SetSourceResultParams =
  p_SourceID :: string
  p_Status :: string
  p_Attempts :: int
  p_Data :: "json option"
  p_ErrorMsg :: "string option"
  p_Reason :: "string option"
  p_SearchID :: "string option"

definition result_row :: "time \<Rightarrow> SetSourceResultParams \<Rightarrow> source_row \<Rightarrow> source_row" where
  "result_row now p s =
     s\<lparr>src_Status := p_Status p, Attempts := p_Attempts p, LastAttemptAt := Some now,
       Data := p_Data p, ErrorMessage := p_ErrorMsg p, Reason := p_Reason p, SearchID := p_SearchID p\<rparr>"

definition SetSourceResult :: "time \<Rightarrow> SetSourceResultParams \<Rightarrow> db \<Rightarrow> goerr option \<times> db" where
  "SetSourceResult now p d =
     wrap_opt (''update source '' @ p_SourceID p)
       (db_exec (update_source (p_SourceID p) (result_row now p)) d)"

definition reset_row :: "source_row \<Rightarrow> source_row" where
  "reset_row s = s\<lparr>src_Status := ''pending'', ErrorMessage := None, Data := None, Reason := None\<rparr>"

primrec ResetSourcesToPending :: "string list \<Rightarrow> db \<Rightarrow> goerr option \<times> db" where
  "ResetSourcesToPending [] d = (None, d)"
| "ResetSourcesToPending (i # is) d =
     (case db_exec (update_source i reset_row) d of
        (Some e, d1) \<Rightarrow> (Some (wrap_ctx (''reset source '' @ i) e), d1)
      | (None, d1) \<Rightarrow> ResetSourcesToPending is d1)"

definition GetRetryableSources :: "string \<Rightarrow> db \<Rightarrow> (goerr + source_row list) \<times> db" where
  "GetRetryableSources runID =
     db_query (''get retryable sources for run '' @ runID) ''scan source''
       (\<lambda>d. sort_key src_Source
          (filter (\<lambda>s. src_Status s \<in> {''pending'', ''failed''}) (sources_of runID d)))"

section \<open>What a statement leaves alone\<close>

text \<open>The parts of the database no operation of this layer changes.\<close>

definition same_server :: "db \<Rightarrow> db \<Rightarrow> bool" where
  "same_server d d' \<longleftrightarrow> cases d' = cases d \<and> uuids d' = uuids d \<and> exec_fate d' = exec_fate d \<and>
     rows_fate d' = rows_fate d"

definition same_tables :: "db \<Rightarrow> db \<Rightarrow> bool" where
  "same_tables d d' \<longleftrightarrow> same_server d d' \<and> lookup_runs d' = lookup_runs d \<and>
     lookup_sources d' = lookup_sources d"

lemma same_tables_refl [simp]: "same_tables d d"
  by (simp add: same_tables_def same_server_def)

lemma same_tables_trans: "same_tables a b \<Longrightarrow> same_tables b c \<Longrightarrow> same_tables a c"
  by (simp add: same_tables_def same_server_def)

lemma same_server_trans: "same_server a b \<Longrightarrow> same_server b c \<Longrightarrow> same_server a c"
  by (simp add: same_server_def)

lemma next_stmt_simps [simp]:
  "cases (next_stmt d) = cases d" "lookup_runs (next_stmt d) = lookup_runs d"
  "lookup_sources (next_stmt d) = lookup_sources d" "uuids (next_stmt d) = uuids d"
  "nuuids (next_stmt d) = nuuids d" "exec_fate (next_stmt d) = exec_fate d"
  "rows_fate (next_stmt d) = rows_fate d"
  by (simp_all add: next_stmt_def)

lemma update_simps [simp]:
  "cases (update_run i f d) = cases d" "cases (update_source i g d) = cases d"
  "lookup_sources (update_run i f d) = lookup_sources d"
  "lookup_runs (update_source i g d) = lookup_runs d"
  "lookup_runs (update_run i f d) = update_where (\<lambda>r. run_ID r = i) f (lookup_runs d)"
  "lookup_sources (update_source i g d) = update_where (\<lambda>s. src_ID s = i) g (lookup_sources d)"
  "uuids (update_run i f d) = uuids d" "uuids (update_source i g d) = uuids d"
  "nuuids (update_run i f d) = nuuids d" "nuuids (update_source i g d) = nuuids d"
  "exec_fate (update_run i f d) = exec_fate d" "exec_fate (update_source i g d) = exec_fate d"
  "rows_fate (update_run i f d) = rows_fate d" "rows_fate (update_source i g d) = rows_fate d"
  by (simp_all add: update_run_def update_source_def)

lemma wrap_opt_simps [simp]: "snd (wrap_opt what r) = snd r" "fst (wrap_opt what r) = None \<longleftrightarrow> fst r = None"
  by (simp_all add: wrap_opt_def)

lemma query_same_tables [simp]:
  "same_tables d (snd (db_query a b f d))" "same_tables d (snd (db_query_row a g d))"
  by (simp_all add: db_query_def db_query_row_def Let_def same_tables_def same_server_def)

lemma read_same_tables [simp]:
  "same_tables d (snd (GetCaseByID i d))" "same_tables d (snd (ListCases d))"
  "same_tables d (snd (GetLookupRunByCaseID i d))" "same_tables d (snd (GetSourcesByRunID i d))"
  "same_tables d (snd (GetRetryableSources i d))"
  by (simp_all add: GetCaseByID_def ListCases_def GetLookupRunByCaseID_def GetSourcesByRunID_def
      GetRetryableSources_def)

text \<open>An update either happens or does not.\<close>

lemma db_exec_cases:
  obtains (applied) "snd (db_exec f d) = f (next_stmt d)"
    | (skipped) "snd (db_exec f d) = next_stmt d" "fst (db_exec f d) \<noteq> None"
  by (cases "exec_fate d (nstmts d)") (auto simp: db_exec_def)

section \<open>Statements of a healthy database\<close>

definition healthy :: "db \<Rightarrow> bool" where
  "healthy d \<longleftrightarrow> (\<forall>n. exec_fate d n = ExecOk) \<and> (\<forall>n. rows_fate d n = RowsOk)"

lemma healthy_same_server: "same_server d d' \<Longrightarrow> healthy d' = healthy d"
  by (simp add: same_server_def healthy_def)

lemma healthy_next_stmt [simp]: "healthy (next_stmt d) = healthy d"
  by (simp add: healthy_def)

lemma healthy_update [simp]:
  "healthy (update_run i f d) = healthy d" "healthy (update_source i g d) = healthy d"
  by (simp_all add: healthy_def)

lemma healthy_exec [table_simps]: "healthy d \<Longrightarrow> db_exec f d = (None, f (next_stmt d))"
  by (simp add: healthy_def db_exec_def)

lemma healthy_query [table_simps]: "healthy d \<Longrightarrow> db_query a b f d = (Inr (f d), next_stmt d)"
  by (simp add: healthy_def db_query_def)

lemma healthy_query_row [table_simps]:
  "healthy d \<Longrightarrow> db_query_row a f d = (Inr (f d), next_stmt d)"
  by (simp add: healthy_def db_query_row_def)

section \<open>The invariant of the tables\<close>

definition db_inv :: "db \<Rightarrow> bool" where
  "db_inv d \<longleftrightarrow>
     distinct (map c_ID (cases d)) \<and> distinct (map run_ID (lookup_runs d)) \<and>
     distinct (map run_CaseID (lookup_runs d)) \<and> distinct (map src_ID (lookup_sources d)) \<and>
     (\<forall>r \<in> set (lookup_runs d). run_CaseID r \<in> set (map c_ID (cases d)) \<and>
        run_Status r \<in> run_statuses \<and> map src_Source (sources_of (run_ID r) d) = source_names) \<and>
     (\<forall>s \<in> set (lookup_sources d). src_RunID s \<in> set (map run_ID (lookup_runs d)) \<and>
        src_Status s \<in> source_statuses)"

lemma db_inv_same_tables: "same_tables d d' \<Longrightarrow> db_inv d' = db_inv d"
  by (simp add: same_tables_def same_server_def db_inv_def sources_of_def)

lemma db_inv_next_stmt [simp]: "db_inv (next_stmt d) = db_inv d"
  by (simp add: db_inv_def sources_of_def)

lemma db_inv_update_run:
  assumes "db_inv d"
    and "\<And>r. run_ID (f r) = run_ID r" "\<And>r. run_CaseID (f r) = run_CaseID r"
    and "\<And>r. run_Status (f r) \<in> run_statuses"
  shows "db_inv (update_run i f d)"
  using assms
  by (auto simp: db_inv_def sources_of_def map_update_where set_update_where image_iff)

lemma sources_of_update_source:
  "(\<And>s. src_RunID (g s) = src_RunID s) \<Longrightarrow>
     sources_of r (update_source i g d) = update_where (\<lambda>s. src_ID s = i) g (sources_of r d)"
  by (simp add: sources_of_def filter_update_where_keep)

lemma sources_of_update_run [simp]: "sources_of r (update_run i f d) = sources_of r d"
  by (simp add: sources_of_def)

lemma sources_of_next_stmt [simp]: "sources_of r (next_stmt d) = sources_of r d"
  by (simp add: sources_of_def)

lemma db_inv_update_source:
  assumes "db_inv d"
    and "\<And>s. src_ID (g s) = src_ID s" "\<And>s. src_RunID (g s) = src_RunID s"
    and "\<And>s. src_Source (g s) = src_Source s" "\<And>s. src_Status (g s) \<in> source_statuses"
  shows "db_inv (update_source i g d)"
  using assms
  by (auto simp: db_inv_def sources_of_update_source map_update_where set_update_where)

lemma result_row_simps [simp]:
  "src_ID (result_row now p s) = src_ID s" "src_RunID (result_row now p s) = src_RunID s"
  "src_Source (result_row now p s) = src_Source s" "src_Status (result_row now p s) = p_Status p"
  "Attempts (result_row now p s) = p_Attempts p"
  by (simp_all add: result_row_def)

lemma reset_row_simps [simp]:
  "src_ID (reset_row s) = src_ID s" "src_RunID (reset_row s) = src_RunID s"
  "src_Source (reset_row s) = src_Source s" "src_Status (reset_row s) = ''pending''"
  "Attempts (reset_row s) = Attempts s" "SearchID (reset_row s) = SearchID s"
  by (simp_all add: reset_row_def)

lemma status_mem [simp]:
  "''pending'' \<in> run_statuses" "''pending'' \<in> source_statuses"
  "StatusPending \<in> run_statuses" "StatusComplete \<in> run_statuses"
  "StatusPartial \<in> run_statuses" "StatusFailed \<in> run_statuses"
  "SourceStatusSuccess \<in> source_statuses" "SourceStatusFailed \<in> source_statuses"
  "SourceStatusNotApplicable \<in> source_statuses" "SourceStatusPending \<in> source_statuses"
  by (simp_all add: run_statuses_def source_statuses_def StatusPending_def SourceStatusPending_def)

lemma db_inv_exec:
  assumes "db_inv d" and "db_inv (f (next_stmt d))"
  shows "db_inv (snd (db_exec f d))"
  using assms by (cases rule: db_exec_cases [of f d]) auto

lemma CompleteRun_inv: "db_inv d \<Longrightarrow> st \<in> run_statuses \<Longrightarrow> db_inv (snd (CompleteRun now i st d))"
  by (simp add: CompleteRun_def db_inv_exec db_inv_update_run)

lemma ResetRunToPending_inv: "db_inv d \<Longrightarrow> db_inv (snd (ResetRunToPending i d))"
  by (simp add: ResetRunToPending_def db_inv_exec db_inv_update_run)

lemma SetSourceResult_inv:
  "db_inv d \<Longrightarrow> p_Status p \<in> source_statuses \<Longrightarrow> db_inv (snd (SetSourceResult now p d))"
  by (simp add: SetSourceResult_def db_inv_exec db_inv_update_source)

lemma ResetSourcesToPending_inv: "db_inv d \<Longrightarrow> db_inv (snd (ResetSourcesToPending is d))"
proof (induction "is" arbitrary: d)
  case (Cons i "is")
  from Cons.prems have "db_inv (snd (db_exec (update_source i reset_row) d))"
    by (simp add: db_inv_exec db_inv_update_source)
  with Cons.IH show ?case
    by (cases "db_exec (update_source i reset_row) d") (auto split: option.splits)
qed simp

section \<open>Creating a run\<close>

lemma new_source_simps [simp]:
  "src_ID (new_source i r n) = i" "src_RunID (new_source i r n) = r"
  "src_Source (new_source i r n) = n" "src_Status (new_source i r n) = ''pending''"
  "Attempts (new_source i r n) = 0"
  by (simp_all add: new_source_def)

lemma insert_run_frame:
  "same_server d (snd (insert_run now c d))"
  "lookup_sources (snd (insert_run now c d)) = lookup_sources d"
  by (auto simp: insert_run_def Let_def same_server_def split: exec_out.splits)

lemma insert_run_Inr:
  "insert_run now c d = (Inr r, d') \<Longrightarrow>
     lookup_runs d' = lookup_runs d @ [r] \<and> run_CaseID r = c \<and> run_Status r = ''pending'' \<and>
     StartedAt r = now \<and> CompletedAt r = None \<and>
     run_ID r \<notin> set (map run_ID (lookup_runs d)) \<and>
     c \<notin> set (map run_CaseID (lookup_runs d)) \<and> c \<in> set (map c_ID (cases d))"
  by (auto simp: insert_run_def Let_def split: exec_out.splits if_splits)

lemma insert_source_frame:
  "same_server d (snd (insert_source i n d))" "lookup_runs (snd (insert_source i n d)) = lookup_runs d"
  by (auto simp: insert_source_def Let_def same_server_def split: exec_out.splits)

lemma insert_source_Inr:
  "insert_source i n d = (Inr s, d') \<Longrightarrow>
     lookup_sources d' = lookup_sources d @ [s] \<and> s = new_source (src_ID s) i n \<and>
     src_ID s \<notin> set (map src_ID (lookup_sources d)) \<and> i \<in> set (map run_ID (lookup_runs d))"
  by (auto simp: insert_source_def new_source_def Let_def split: exec_out.splits if_splits)

lemma insert_sources_frame:
  "same_server d (snd (insert_sources i ns d)) \<and> lookup_runs (snd (insert_sources i ns d)) = lookup_runs d"
proof (induction ns arbitrary: d)
  case (Cons n ns)
  obtain r d1 where s: "insert_source i n d = (r, d1)" by fastforce
  have f: "same_server d d1" "lookup_runs d1 = lookup_runs d"
    using insert_source_frame [where d = d and i = i and n = n] by (simp_all add: s)
  obtain r2 d2 where ss: "insert_sources i ns d1 = (r2, d2)" by fastforce
  from Cons.IH [of d1] f s ss show ?case
    by (auto split: sum.splits intro: same_server_trans)
qed (simp add: same_server_def)

lemma insert_sources_Inr:
  "insert_sources i ns d = (Inr ss, d') \<Longrightarrow> distinct (map src_ID (lookup_sources d)) \<Longrightarrow>
     lookup_sources d' = lookup_sources d @ ss \<and> map src_Source ss = ns \<and>
     distinct (map src_ID (lookup_sources d')) \<and>
     (\<forall>s \<in> set ss. s = new_source (src_ID s) i (src_Source s))"
proof (induction ns arbitrary: d ss)
  case (Cons n ns)
  from Cons.prems(1) obtain s d1 ss' where
    s: "insert_source i n d = (Inr s, d1)" "insert_sources i ns d1 = (Inr ss', d')" "ss = s # ss'"
    by (auto split: prod.splits sum.splits)
  from insert_source_Inr [OF s(1)] have
    d1: "lookup_sources d1 = lookup_sources d @ [s]" "s = new_source (src_ID s) i n"
      "src_ID s \<notin> set (map src_ID (lookup_sources d))" by auto
  from d1(2) have n: "src_Source s = n" by (metis new_source_simps(3))
  from d1 Cons.prems(2) have "distinct (map src_ID (lookup_sources d1))" by simp
  note IH = Cons.IH [OF s(2) this]
  have "lookup_sources d' = lookup_sources d @ ss" "map src_Source ss = n # ns"
    using IH d1(1) n s(3) by simp_all
  moreover have "\<forall>t \<in> set ss. t = new_source (src_ID t) i (src_Source t)"
    using IH d1(2) n s(3) by simp
  ultimately show ?case using IH by blast
qed simp

text \<open>The tables with a new run for case \<open>c\<close> and its three pending sources.\<close>

definition run_created :: "time \<Rightarrow> string \<Rightarrow> lookup_run \<Rightarrow> source_row list \<Rightarrow> db \<Rightarrow> db \<Rightarrow> bool" where
  "run_created now c r ss d d' \<longleftrightarrow>
     same_server d d' \<and> lookup_runs d' = lookup_runs d @ [r] \<and>
     lookup_sources d' = lookup_sources d @ ss \<and>
     run_CaseID r = c \<and> run_Status r = ''pending'' \<and> StartedAt r = now \<and> CompletedAt r = None \<and>
     run_ID r \<notin> set (map run_ID (lookup_runs d)) \<and>
     c \<notin> set (map run_CaseID (lookup_runs d)) \<and> c \<in> set (map c_ID (cases d)) \<and>
     map src_Source ss = source_names \<and> distinct (map src_ID (lookup_sources d')) \<and>
     (\<forall>s \<in> set ss. s = new_source (src_ID s) (run_ID r) (src_Source s))"

lemma rollback_same_tables:
  "same_tables d d0 \<Longrightarrow> same_server d d' \<Longrightarrow> same_tables d (rollback d0 d')"
  by (simp add: rollback_def same_tables_def same_server_def)

lemma CreateLookupRun_cases:
  assumes "distinct (map src_ID (lookup_sources d))"
  shows "(\<exists>e. fst (CreateLookupRun now c d) = Inl e \<and> same_tables d (snd (CreateLookupRun now c d))) \<or>
         (\<exists>r ss. run_created now c r ss d (snd (CreateLookupRun now c d)) \<and>
            (fst (CreateLookupRun now c d) = Inr (r, ss) \<or>
             (\<exists>e. fst (CreateLookupRun now c d) = Inl (wrap_ctx ''commit'' e))))"
proof -
  obtain b d0 where b: "db_exec id d = (b, d0)" by fastforce
  have d0: "same_tables d d0"
    using b by (auto simp: db_exec_def same_tables_def same_server_def split: exec_out.splits)
  obtain x d1 where x: "insert_run now c d0 = (x, d1)" by fastforce
  have d1: "same_server d d1" "lookup_sources d1 = lookup_sources d"
    using insert_run_frame [where d = d0 and now = now and c = c] d0 x by (auto simp: same_tables_def same_server_def)
  show ?thesis
  proof (cases "\<exists>r. b = None \<and> x = Inr r")
    case False
    with b x d0 d1 show ?thesis
      by (auto simp: CreateLookupRun_def rollback_same_tables split: option.splits sum.splits)
  next
    case True
    then obtain r where r: "b = None" "x = Inr r" by blast
    obtain y d2 where y: "insert_sources (run_ID r) source_names d1 = (y, d2)" by fastforce
    have d2: "same_server d d2" "lookup_runs d2 = lookup_runs d1"
      using insert_sources_frame [of d1 "run_ID r" source_names] d1(1) y
      by (auto simp: same_server_def)
    have names: "[SourcePropertyRecords, SourceCourtRecords, SourceSCRA] = source_names"
      by (simp add: source_names_def)
    note create = CreateLookupRun_def [unfolded names] b x r y
    show ?thesis
    proof (cases y)
      case (Inl e)
      with create d0 d2 show ?thesis by (simp add: rollback_same_tables)
    next
      case (Inr ss)
      have "distinct (map src_ID (lookup_sources d1))" using assms d1(2) by simp
      note ss = insert_sources_Inr [OF y [unfolded Inr] this] and run = insert_run_Inr [OF x [unfolded r]]
      have "run_created now c r ss d (next_stmt d2)"
        using ss run d0 d1 d2 unfolding run_created_def same_tables_def same_server_def
        by (elim conjE) simp
      moreover have "same_tables d (rollback d0 (next_stmt d2))"
        using d0 d2 by (intro rollback_same_tables) (auto simp: same_server_def)
      ultimately show ?thesis
        using create Inr by (cases "exec_fate d2 (nstmts d2)") auto
    qed
  qed
qed

lemma run_created_src:
  assumes "run_created now c r ss d d'" "s \<in> set ss"
  shows "src_RunID s = run_ID r" "src_Status s = ''pending''"
proof -
  have s: "s = new_source (src_ID s) (run_ID r) (src_Source s)"
    using assms unfolding run_created_def by blast
  show "src_RunID s = run_ID r" by (subst s) simp
  show "src_Status s = ''pending''" by (subst s) simp
qed

lemma run_created_sources:
  assumes "db_inv d" "run_created now c r ss d d'"
  shows "sources_of (run_ID r) d' = ss"
proof -
  have "run_ID r \<notin> set (map run_ID (lookup_runs d))" using assms(2) by (simp add: run_created_def)
  moreover have "\<forall>s \<in> set (lookup_sources d). src_RunID s \<in> set (map run_ID (lookup_runs d))"
    using assms(1) by (simp add: db_inv_def)
  ultimately have "filter (\<lambda>s. src_RunID s = run_ID r) (lookup_sources d) = []"
    unfolding filter_empty_conv by metis
  moreover have "filter (\<lambda>s. src_RunID s = run_ID r) ss = ss"
    using run_created_src(1) [OF assms(2)] by simp
  ultimately show ?thesis using assms(2) by (simp add: sources_of_def run_created_def)
qed

lemma run_created_inv:
  assumes "db_inv d" "run_created now c r ss d d'"
  shows "db_inv d'"
proof -
  note src = run_created_src [OF assms(2)] and new = run_created_sources [OF assms]
  have old: "sources_of (run_ID q) d' = sources_of (run_ID q) d" if "q \<in> set (lookup_runs d)" for q
  proof -
    have "run_ID r \<notin> run_ID ` set (lookup_runs d)" using assms(2) by (simp add: run_created_def)
    with that have "run_ID q \<noteq> run_ID r" by (metis imageI)
    then have "filter (\<lambda>s. src_RunID s = run_ID q) ss = []" using src by (auto simp: filter_empty_conv)
    then show ?thesis using assms(2) by (simp add: sources_of_def run_created_def)
  qed
  have inv: "distinct (map c_ID (cases d))" "distinct (map run_ID (lookup_runs d))"
    "distinct (map run_CaseID (lookup_runs d))"
    "\<And>q. q \<in> set (lookup_runs d) \<Longrightarrow> run_CaseID q \<in> set (map c_ID (cases d)) \<and>
        run_Status q \<in> run_statuses \<and> map src_Source (sources_of (run_ID q) d) = source_names"
    "\<And>s. s \<in> set (lookup_sources d) \<Longrightarrow> src_RunID s \<in> set (map run_ID (lookup_runs d)) \<and>
        src_Status s \<in> source_statuses"
    using assms(1) by (simp_all add: db_inv_def)
  have cr: "cases d' = cases d" "lookup_runs d' = lookup_runs d @ [r]"
    "lookup_sources d' = lookup_sources d @ ss" "run_CaseID r = c" "run_Status r = ''pending''"
    "run_ID r \<notin> set (map run_ID (lookup_runs d))" "c \<notin> set (map run_CaseID (lookup_runs d))"
    "c \<in> set (map c_ID (cases d))" "map src_Source ss = source_names"
    using assms(2) by (simp_all add: run_created_def same_server_def)
  have dist: "distinct (map src_ID (lookup_sources d'))"
    using assms(2) unfolding run_created_def by blast
  have "\<forall>q \<in> set (lookup_runs d'). run_CaseID q \<in> set (map c_ID (cases d')) \<and>
      run_Status q \<in> run_statuses \<and> map src_Source (sources_of (run_ID q) d') = source_names"
    unfolding cr(1,2) using inv(4) cr(4,5,8,9) new old by simp
  moreover have "\<forall>s \<in> set (lookup_sources d'). src_RunID s \<in> set (map run_ID (lookup_runs d')) \<and>
      src_Status s \<in> source_statuses"
    unfolding cr(2,3) using inv(5) src by auto
  moreover have "distinct (map run_ID (lookup_runs d'))" "distinct (map run_CaseID (lookup_runs d'))"
    using inv(2,3) cr(2,4,6,7) by simp_all
  ultimately show ?thesis using inv(1) cr(1) dist unfolding db_inv_def by simp
qed

lemma CreateLookupRun_inv:
  assumes "db_inv d"
  shows "db_inv (snd (CreateLookupRun now c d))"
proof -
  have "distinct (map src_ID (lookup_sources d))" using assms by (simp add: db_inv_def)
  from CreateLookupRun_cases [OF this, of now c] assms show ?thesis
    by (auto simp: db_inv_same_tables dest: run_created_inv)
qed

text \<open>On a healthy database with fresh identifiers the run is created.\<close>

definition fresh_uuids :: "db \<Rightarrow> bool" where
  "fresh_uuids d \<longleftrightarrow> inj (uuids d) \<and>
     (\<forall>n \<ge> nuuids d. uuids d n \<notin> set (map run_ID (lookup_runs d)) \<union> set (map src_ID (lookup_sources d)))"

lemma insert_source_healthy:
  assumes "healthy d" "fresh_uuids d" "i \<in> set (map run_ID (lookup_runs d))"
    and "(i, n) \<notin> set (map (\<lambda>s. (src_RunID s, src_Source s)) (lookup_sources d))"
  shows "\<exists>s d'. insert_source i n d = (Inr s, d') \<and> healthy d' \<and> fresh_uuids d' \<and>
     lookup_runs d' = lookup_runs d \<and> lookup_sources d' = lookup_sources d @ [s] \<and>
     src_RunID s = i \<and> src_Source s = n"
proof -
  have "uuids d (nuuids d) \<notin> set (map src_ID (lookup_sources d))"
    using assms(2) by (auto simp: fresh_uuids_def)
  moreover have "inj (uuids d)" using assms(2) by (simp add: fresh_uuids_def)
  ultimately show ?thesis using assms
    by (auto simp: insert_source_def Let_def healthy_def fresh_uuids_def dest: injD)
qed

lemma insert_sources_healthy:
  assumes "healthy d" "fresh_uuids d" "i \<in> set (map run_ID (lookup_runs d))" "distinct ns"
    and "\<forall>n \<in> set ns. (i, n) \<notin> set (map (\<lambda>s. (src_RunID s, src_Source s)) (lookup_sources d))"
  shows "\<exists>ss d'. insert_sources i ns d = (Inr ss, d') \<and> healthy d'"
  using assms
proof (induction ns arbitrary: d)
  case (Cons n ns)
  from Cons.prems obtain s d1 where s: "insert_source i n d = (Inr s, d1)" "healthy d1"
    "fresh_uuids d1" "lookup_runs d1 = lookup_runs d" "lookup_sources d1 = lookup_sources d @ [s]"
    "src_RunID s = i" "src_Source s = n"
    using insert_source_healthy [of d i n] by auto
  with Cons.prems have "\<exists>ss d'. insert_sources i ns d1 = (Inr ss, d') \<and> healthy d'"
    by (intro Cons.IH) auto
  with s show ?case by auto
qed simp

lemma CreateLookupRun_healthy:
  assumes "healthy d" "fresh_uuids d" "db_inv d"
    and "c \<in> set (map c_ID (cases d))" "c \<notin> set (map run_CaseID (lookup_runs d))"
  shows "\<exists>r ss. fst (CreateLookupRun now c d) = Inr (r, ss) \<and>
           run_created now c r ss d (snd (CreateLookupRun now c d))"
proof -
  let ?d0 = "next_stmt d"
  have i: "uuids d (nuuids d) \<notin> set (map run_ID (lookup_runs d))"
    using assms(2) by (auto simp: fresh_uuids_def)
  obtain r d1 where r: "insert_run now c ?d0 = (Inr r, d1)" "run_ID r = uuids d (nuuids d)"
    "healthy d1" "lookup_runs d1 = lookup_runs d @ [r]" "lookup_sources d1 = lookup_sources d"
    "uuids d1 = uuids d" "nuuids d1 = nuuids d + 1"
    using i assms(1,4,5) by (auto simp: insert_run_def Let_def healthy_def)
  have f1: "fresh_uuids d1"
    using assms(2) r(2,4-7) by (auto simp: fresh_uuids_def dest: injD)
  have "src_RunID s \<noteq> run_ID r" if "s \<in> set (lookup_sources d)" for s
    using that assms(3) i r(2) unfolding db_inv_def by metis
  then obtain ss d2 where ss: "insert_sources (run_ID r) source_names d1 = (Inr ss, d2)" "healthy d2"
    using insert_sources_healthy [OF r(3) f1, of "run_ID r" source_names] r(4,5) by force
  have "CreateLookupRun now c d = (Inr (r, ss), next_stmt d2)"
    using assms(1) r(1) ss
    by (simp add: CreateLookupRun_def healthy_exec source_names_def healthy_def)
  with CreateLookupRun_cases [of d now c] assms(3) show ?thesis by (auto simp: db_inv_def)
qed

section \<open>Reads and resets of a healthy database\<close>

lemma healthy_reads [table_simps]:
  assumes "healthy d"
  shows "GetCaseByID i d = (Inr (find (\<lambda>c. c_ID c = i) (cases d)), next_stmt d)"
    and "GetLookupRunByCaseID i d = (Inr (find (\<lambda>r. run_CaseID r = i) (lookup_runs d)), next_stmt d)"
    and "GetSourcesByRunID i d = (Inr (sort_key src_Source (sources_of i d)), next_stmt d)"
    and "GetRetryableSources i d =
      (Inr (sort_key src_Source
         (filter (\<lambda>s. src_Status s \<in> {''pending'', ''failed''}) (sources_of i d))), next_stmt d)"
  using assms
  by (simp_all add: GetCaseByID_def GetLookupRunByCaseID_def GetSourcesByRunID_def
      GetRetryableSources_def healthy_query healthy_query_row)

lemma healthy_writes [table_simps]:
  assumes "healthy d"
  shows "CompleteRun now i st d =
      (None, update_run i (\<lambda>r. r\<lparr>run_Status := st, CompletedAt := Some now\<rparr>) (next_stmt d))"
    and "ResetRunToPending i d =
      (None, update_run i (\<lambda>r. r\<lparr>run_Status := ''pending'', CompletedAt := None\<rparr>) (next_stmt d))"
    and "SetSourceResult now p d = (None, update_source (p_SourceID p) (result_row now p) (next_stmt d))"
  using assms
  by (simp_all add: CompleteRun_def ResetRunToPending_def SetSourceResult_def healthy_exec wrap_opt_def)

lemma ResetSourcesToPending_healthy:
  "healthy d \<Longrightarrow> fst (ResetSourcesToPending is d) = None \<and>
     same_server d (snd (ResetSourcesToPending is d)) \<and>
     lookup_runs (snd (ResetSourcesToPending is d)) = lookup_runs d \<and>
     lookup_sources (snd (ResetSourcesToPending is d)) =
       map (\<lambda>s. if src_ID s \<in> set is then reset_row s else s) (lookup_sources d)"
proof (induction "is" arbitrary: d)
  case Nil
  then show ?case by (simp add: same_server_def)
next
  case (Cons i "is")
  let ?d1 = "update_source i reset_row (next_stmt d)"
  have "reset_row (reset_row s) = reset_row s" for s by (simp add: reset_row_def)
  then have "map (\<lambda>s. if src_ID s \<in> set is then reset_row s else s) (lookup_sources ?d1) =
      map (\<lambda>s. if src_ID s \<in> set (i # is) then reset_row s else s) (lookup_sources d)"
    by (auto simp: update_where_def)
  with Cons.IH [of ?d1] Cons.prems show ?case
    by (simp add: healthy_exec) (simp add: same_server_def)
qed

section \<open>Histories of store operations\<close>

datatype store_op =
    OpCreate time string
  | OpComplete time string string
  | OpResetRun string
  | OpSetResult time SetSourceResultParams
  | OpResetSources "string list"

primrec apply_op :: "store_op \<Rightarrow> db \<Rightarrow> db" where
  "apply_op (OpCreate now c) d = snd (CreateLookupRun now c d)"
| "apply_op (OpComplete now i st) d = snd (CompleteRun now i st d)"
| "apply_op (OpResetRun i) d = snd (ResetRunToPending i d)"
| "apply_op (OpSetResult now p) d = snd (SetSourceResult now p d)"
| "apply_op (OpResetSources is) d = snd (ResetSourcesToPending is d)"

text \<open>The callers of the store pass the status constants only.\<close>

primrec op_ok :: "store_op \<Rightarrow> bool" where
  "op_ok (OpCreate now c) = True"
| "op_ok (OpComplete now i st) = (st \<in> run_statuses)"
| "op_ok (OpResetRun i) = True"
| "op_ok (OpSetResult now p) = (p_Status p \<in> source_statuses)"
| "op_ok (OpResetSources is) = True"

lemma apply_op_inv: "db_inv d \<Longrightarrow> op_ok x \<Longrightarrow> db_inv (apply_op x d)"
  by (cases x) (simp_all add: CreateLookupRun_inv CompleteRun_inv ResetRunToPending_inv
      SetSourceResult_inv ResetSourcesToPending_inv)

section \<open>Writes to distinct rows\<close>

text \<open>
  The contract the concurrent source goroutines rely on: a write addresses one row by its
  key, and a row that is read back shows exactly the writes addressed to it.
\<close>

locale keyed_writes =
  fixes put :: "'p \<Rightarrow> 'd \<Rightarrow> 'd"
    and look :: "'d \<Rightarrow> 'k \<Rightarrow> 'r option"
    and key :: "'p \<Rightarrow> 'k"
    and change :: "'p \<Rightarrow> 'r \<Rightarrow> 'r"
  assumes look_write: "look (put p d) k = (if k = key p then map_option (change p) (look d k) else look d k)"
begin

lemma look_writes:
  "distinct (map key ps) \<Longrightarrow>
     look (fold put ps d) k =
       (case find (\<lambda>p. key p = k) ps of None \<Rightarrow> look d k | Some p \<Rightarrow> map_option (change p) (look d k))"
proof (induction ps arbitrary: d)
  case (Cons p ps)
  show ?case
  proof (cases "key p = k")
    case True
    with Cons.prems have "find (\<lambda>q. key q = k) ps = None"
      by (auto simp: find_None_iff intro: rev_image_eqI)
    with Cons True show ?thesis by (simp add: look_write)
  next
    case False
    with Cons show ?thesis
      by (auto simp: look_write split: option.splits dest: find_SomeD)
  qed
qed simp

lemma writes_commute:
  assumes "distinct (map key ps)" "set ps = set qs" "distinct (map key qs)"
  shows "look (fold put ps d) k = look (fold put qs d) k"
proof -
  have "find (\<lambda>p. key p = k) ps = find (\<lambda>p. key p = k) qs"
  proof (cases "find (\<lambda>p. key p = k) ps")
    case None
    with assms(2) have "find (\<lambda>p. key p = k) qs = None" by (auto simp: find_None_iff)
    with None show ?thesis by simp
  next
    case (Some p)
    from find_SomeD [OF this] assms(2) have p: "p \<in> set qs" "key p = k" by auto
    then have "find (\<lambda>p. key p = k) qs \<noteq> None" by (auto simp: find_None_iff)
    then obtain q where q: "find (\<lambda>p. key p = k) qs = Some q" by blast
    from find_SomeD [OF this] have "q \<in> set qs" "key q = k" by auto
    with p assms(3) have "q = p" by (auto simp: distinct_map inj_on_def)
    with Some q show ?thesis by simp
  qed
  with assms show ?thesis by (simp add: look_writes)
qed

end

definition source_by_id :: "source_row list \<Rightarrow> string \<Rightarrow> source_row option" where
  "source_by_id rows i = find (\<lambda>s. src_ID s = i) rows"

text \<open>The effect of one \<^verbatim>\<open>SetSourceResult\<close> on the rows of the table.\<close>

definition write_result :: "time \<times> SetSourceResultParams \<Rightarrow> source_row list \<Rightarrow> source_row list" where
  "write_result q = update_where (\<lambda>s. src_ID s = p_SourceID (snd q)) (result_row (fst q) (snd q))"

lemma source_by_id_update:
  "(\<And>s. src_ID (f s) = src_ID s) \<Longrightarrow>
     source_by_id (update_where (\<lambda>s. src_ID s = i) f rows) k =
       (if k = i then map_option f (source_by_id rows k) else source_by_id rows k)"
  by (induction rows) (auto simp: source_by_id_def)

interpretation result_writes: keyed_writes write_result source_by_id "\<lambda>q. p_SourceID (snd q)"
  "\<lambda>q. result_row (fst q) (snd q)"
  by unfold_locales (simp add: write_result_def source_by_id_update)

lemma SetSourceResult_rows:
  "healthy d \<Longrightarrow>
     lookup_sources (fold (\<lambda>q d. snd (SetSourceResult (fst q) (snd q) d)) ps d) =
       fold write_result ps (lookup_sources d)"
  by (induction ps arbitrary: d) (simp_all add: healthy_writes write_result_def)

section \<open>A sample database\<close>

definition sample_case :: case_row where
  "sample_case =
     \<lparr>c_ID = ''C1'', c_CaseNumber = ''2025-1'', c_FirstName = ''Ann'', c_LastName = ''Lee'',
      c_SSNLast4 = ''1234'', c_DOB = ''1980-01-01'', c_Address = ''1 Main St'',
      c_County = ''Travis'', c_State = ''TX'', c_ParcelID = ''P1'', c_LoanNumber = ''L1'',
      c_Servicer = ''S'', c_OriginalAmount = 1000, c_CurrentStage = ''filed'',
      c_CourtCaseNumber = Some ''CC1''\<rparr>"

definition sample_db :: db where
  "sample_db =
     \<lparr>cases = [sample_case], lookup_runs = [], lookup_sources = [],
      uuids = (\<lambda>n. replicate n CHR ''u''), nuuids = 0, exec_fate = (\<lambda>_. ExecOk),
      rows_fate = (\<lambda>_. RowsOk), nstmts = 0\<rparr>"

lemma sample_db_ok: "db_inv sample_db" "healthy sample_db" "fresh_uuids sample_db"
  by (auto simp: sample_db_def db_inv_def healthy_def fresh_uuids_def inj_def dest: arg_cong [where f = length])

definition sample_result :: "string \<Rightarrow> SetSourceResultParams" where
  "sample_result i =
     \<lparr>p_SourceID = i, p_Status = SourceStatusFailed, p_Attempts = 1, p_Data = None,
      p_ErrorMsg = Some ''x'', p_Reason = None, p_SearchID = None\<rparr>"

definition sample_rows :: db where
  "sample_rows = sample_db\<lparr>lookup_sources :=
     [new_source ''a'' ''r'' SourceSCRA, new_source ''b'' ''r'' SourceCourtRecords]\<rparr>"

section \<open>Properties\<close>

text \<open>
  Claim C4. The tables stay consistent under every sequence of store operations the gateway
  can issue, whatever statements fail, take effect without acknowledgement or are cut short:
  keys stay unique, there is at most one run per case and it belongs to an existing case,
  every run has exactly its three sources in order, and statuses stay in their domains.
\<close>

theorem store_invariant:
  assumes "db_inv d" and "\<forall>x \<in> set ops. op_ok x"
  shows "db_inv (fold apply_op ops d)"
  using assms by (induction ops arbitrary: d) (simp_all add: apply_op_inv)

theorem store_invariant_witness:
  "db_inv (fold apply_op [OpCreate 5 ''C1'', OpCreate 6 ''C1'', OpComplete 7 [] StatusPartial]
     (sample_db\<lparr>exec_fate := (\<lambda>n. if n = 2 then ExecFails ErrTimeout else ExecOk)\<rparr>))"
proof (rule store_invariant)
  show "db_inv (sample_db\<lparr>exec_fate := (\<lambda>n. if n = 2 then ExecFails ErrTimeout else ExecOk)\<rparr>)"
    by (simp add: sample_db_def db_inv_def)
qed simp

text \<open>
  Claim C26. Creating a run is all or nothing: either it fails and the tables are as before,
  or there is one new pending run for an existing case that had none, with three new pending
  sources with no attempts. The caller is told of the latter, except when only the
  acknowledgement of the commit is lost.
\<close>

theorem CreateLookupRun_atomic:
  assumes "distinct (map src_ID (lookup_sources d))"
    and "CreateLookupRun now c d = (res, d')"
  shows "(\<exists>e. res = Inl e \<and> same_tables d d') \<or>
         (\<exists>r ss. run_created now c r ss d d' \<and>
            (res = Inr (r, ss) \<or> (\<exists>e. res = Inl (wrap_ctx ''commit'' e))))"
  using CreateLookupRun_cases [OF assms(1), of now c] by (simp add: assms(2))

theorem CreateLookupRun_atomic_witness:
  "\<exists>r ss. fst (CreateLookupRun 5 ''C1'' sample_db) = Inr (r, ss) \<and>
     run_created 5 ''C1'' r ss sample_db (snd (CreateLookupRun 5 ''C1'' sample_db))"
proof -
  have "\<exists>x. fst (CreateLookupRun 5 ''C1'' sample_db) = Inr x"
    using CreateLookupRun_healthy [OF sample_db_ok(2,3,1), of "''C1''" 5]
    by (auto simp: sample_db_def sample_case_def)
  moreover have "distinct (map src_ID (lookup_sources sample_db))" by (simp add: sample_db_def)
  ultimately show ?thesis
    using CreateLookupRun_atomic [of sample_db 5 "''C1''"] by (auto simp: prod_eq_iff)
qed

text \<open>
  A case has one run: creating another one reports an error and changes no table,
  and so does creating one for a case that does not exist.
\<close>

theorem CreateLookupRun_unique:
  assumes "distinct (map src_ID (lookup_sources d))"
    and "c \<in> set (map run_CaseID (lookup_runs d)) \<or> c \<notin> set (map c_ID (cases d))"
  shows "\<exists>e d'. CreateLookupRun now c d = (Inl e, d') \<and> same_tables d d'"
proof -
  have "\<not> run_created now c r ss d d'" for r ss d' using assms(2) by (auto simp: run_created_def)
  with CreateLookupRun_cases [OF assms(1), of now c] show ?thesis by (metis prod.collapse)
qed

theorem CreateLookupRun_unique_witness:
  "\<exists>e d'. CreateLookupRun 5 ''C2'' sample_db = (Inl e, d') \<and> same_tables sample_db d'"
  by (rule CreateLookupRun_unique) (simp_all add: sample_db_def sample_case_def)

text \<open>
  The goroutines of a run may write their results in any order: on a healthy
  database, results for distinct sources leave every row the same whatever the order.
\<close>

theorem result_writes_commute:
  assumes "healthy d" and "distinct (map (\<lambda>q. p_SourceID (snd q)) ps)" and "mset ps = mset qs"
  shows "source_by_id (lookup_sources (fold (\<lambda>q d. snd (SetSourceResult (fst q) (snd q) d)) ps d)) k =
         source_by_id (lookup_sources (fold (\<lambda>q d. snd (SetSourceResult (fst q) (snd q) d)) qs d)) k"
proof -
  have "set ps = set qs" using assms(3) by (metis set_mset_mset)
  moreover have "distinct (map (\<lambda>q. p_SourceID (snd q)) qs)"
    using assms(2,3) by (metis distinct_map mset_eq_imp_distinct_iff set_mset_mset)
  ultimately show ?thesis
    using result_writes.writes_commute [OF assms(2)] by (simp add: SetSourceResult_rows assms(1))
qed

theorem result_writes_commute_witness:
  "source_by_id (lookup_sources (fold (\<lambda>q d. snd (SetSourceResult (fst q) (snd q) d))
       [(1, sample_result ''a''), (2, sample_result ''b'')] sample_rows)) ''a'' =
   source_by_id (lookup_sources (fold (\<lambda>q d. snd (SetSourceResult (fst q) (snd q) d))
       [(2, sample_result ''b''), (1, sample_result ''a'')] sample_rows)) ''a''"
  by (rule result_writes_commute) (simp_all add: sample_db_def healthy_def sample_result_def sample_rows_def)

end
