(* ===== verification/SourceProcess.thy ===== *)
theory SourceProcess
  imports CircuitBreaker RateLimiter PropertyClient CourtClient ScraClient Store
begin

text \<open>
  How one source of a lookup is processed: \<^verbatim>\<open>process_property.go\<close>, \<^verbatim>\<open>process_court.go\<close> and
  \<^verbatim>\<open>process_scra.go\<close> of \<^verbatim>\<open>backend/internal/lookup\<close>. Each processor is one goroutine with a
  timeline of its own: its world carries the clock, the random numbers and the services it
  sees. What it shares with others is the orchestrator record: the database, the circuit
  breakers and the limiter. Log lines are left out.
\<close>

section \<open>The orchestrator\<close>

record Orchestrator =
  store :: db
  propertyClient :: PropertyClient
  courtClient :: CourtClient
  scraClient :: SCRAClient
  propertyCB :: CircuitBreaker
  courtCB :: CircuitBreaker
  scraCB :: CircuitBreaker
  courtLimiter :: RateLimiter

definition NewOrchestrator ::
  "db \<Rightarrow> PropertyClient \<Rightarrow> CourtClient \<Rightarrow> SCRAClient \<Rightarrow> CircuitBreaker \<Rightarrow> CircuitBreaker \<Rightarrow>
     CircuitBreaker \<Rightarrow> RateLimiter \<Rightarrow> Orchestrator"
where
  "NewOrchestrator s pc cc sc pcb ccb scb rl =
     \<lparr>store = s, propertyClient = pc, courtClient = cc, scraClient = sc, propertyCB = pcb,
      courtCB = ccb, scraCB = scb, courtLimiter = rl\<rparr>"

text \<open>
  A processor returns, or panics (which ends the program: nothing recovers), or waits for
  ever on a stopped limiter.
\<close>

datatype proc_out = Finished Orchestrator world | Panics | Hangs

text \<open>\<^verbatim>\<open>o.store.SetSourceResult(ctx, ...)\<close>; its error is ignored everywhere.\<close>

definition set_result :: "SetSourceResultParams \<Rightarrow> Orchestrator \<Rightarrow> world \<Rightarrow> proc_out" where
  "set_result p o1 w =
     Finished (o1\<lparr>store := snd (SetSourceResult (clock w) p (store o1))\<rparr>) w"

definition result_for :: "source_row \<Rightarrow> string \<Rightarrow> int \<Rightarrow> SetSourceResultParams" where
  "result_for src status attempts =
     \<lparr>p_SourceID = src_ID src, p_Status = status, p_Attempts = attempts, p_Data = None,
      p_ErrorMsg = None, p_Reason = None, p_SearchID = None\<rparr>"

text \<open>
  \<^verbatim>\<open>resilience.Do\<close> around a closure that counts its calls and keeps the result: the error,
  the number of calls, the result of the last call.
\<close>

definition retry_call ::
  "gctx \<Rightarrow> RetryConfig \<Rightarrow> (gctx \<Rightarrow> world \<Rightarrow> (goerr + 'a) \<times> world) \<Rightarrow> world \<Rightarrow>
     (goerr option \<times> int \<times> 'a option) \<times> world"
where
  "retry_call ctx cfg call w =
     (let (err, (n, v), w1) = Do ctx cfg (counted (call ctx)) ((0, None), w) in ((err, n, v), w1))"

section \<open>Property records\<close>

definition processProperty ::
  "gctx \<Rightarrow> case_row \<Rightarrow> source_row \<Rightarrow> Orchestrator \<Rightarrow> world \<Rightarrow> proc_out"
where
  "processProperty ctx c src o0 w =
     (let (allowed, cb) = Allow (clock w) (propertyCB o0);
          o1 = o0\<lparr>propertyCB := cb\<rparr> in
      if \<not> allowed then
        set_result ((result_for src SourceStatusFailed (Attempts src))
          \<lparr>p_ErrorMsg := Some ''circuit breaker open''\<rparr>) o1 w
      else
        (let ((err, attempts, rec), w1) =
           retry_call ctx DefaultRetryConfig
             (Fetch (propertyClient o1) (c_State c) (c_County c) (c_ParcelID c)) w in
         case err of
           Some e \<Rightarrow>
             set_result ((result_for src SourceStatusFailed (Attempts src + attempts))
               \<lparr>p_ErrorMsg := Some (error_text e)\<rparr>)
               (o1\<lparr>propertyCB := RecordFailure (clock w1) (propertyCB o1)\<rparr>) w1
         | None \<Rightarrow>
             set_result ((result_for src SourceStatusSuccess (Attempts src + attempts))
               \<lparr>p_Data := Some (enc_ptr enc_property rec)\<rparr>)
               (o1\<lparr>propertyCB := RecordSuccess (propertyCB o1)\<rparr>) w1))"

section \<open>Court records\<close>

text \<open>The token is awaited once, before the retries. The nil dereference of
  \<^verbatim>\<open>*c.CourtCaseNumber\<close> is a panic; \<^verbatim>\<open>processSource\<close> never lets it happen.\<close>

definition processCourt ::
  "gctx \<Rightarrow> case_row \<Rightarrow> source_row \<Rightarrow> Orchestrator \<Rightarrow> world \<Rightarrow> proc_out"
where
  "processCourt ctx c src o0 w =
     (let (allowed, cb) = Allow (clock w) (courtCB o0);
          o1 = o0\<lparr>courtCB := cb\<rparr> in
      if \<not> allowed then
        set_result ((result_for src SourceStatusFailed (Attempts src))
          \<lparr>p_ErrorMsg := Some ''circuit breaker open''\<rparr>) o1 w
      else
        (let (coin, w1) = flip_coin w;
             (granted, rl) = Wait coin ctx (clock w1) (courtLimiter o1);
             o2 = o1\<lparr>courtLimiter := rl\<rparr> in
         case granted of
           Blocked \<Rightarrow> Hangs
         | WaitErr t e \<Rightarrow>
             set_result ((result_for src SourceStatusFailed (Attempts src))
               \<lparr>p_ErrorMsg := Some (error_text e)\<rparr>) o2 (w1\<lparr>clock := t\<rparr>)
         | Granted t \<Rightarrow>
             if c_CourtCaseNumber c = None \<and> ctx_Err ctx t = None then Panics
             else
               (let ((err, attempts, rec), w2) =
                  retry_call ctx DefaultRetryConfig
                    (Search (courtClient o2) (the (c_CourtCaseNumber c))) (w1\<lparr>clock := t\<rparr>) in
                case err of
                  Some e \<Rightarrow>
                    set_result ((result_for src SourceStatusFailed (Attempts src + attempts))
                      \<lparr>p_ErrorMsg := Some (error_text e)\<rparr>)
                      (o2\<lparr>courtCB := RecordFailure (clock w2) (courtCB o2)\<rparr>) w2
                | None \<Rightarrow>
                    set_result ((result_for src SourceStatusSuccess (Attempts src + attempts))
                      \<lparr>p_Data := map_option enc_court (Option.bind rec id)\<rparr>)
                      (o2\<lparr>courtCB := RecordSuccess (courtCB o2)\<rparr>) w2)))"

section \<open>SCRA\<close>

definition submitCfg :: RetryConfig where
  "submitCfg =
     \<lparr>MaxAttempts = 3, InitialDelay = 1 * Second, MaxDelay = 10 * Second, Multiplier = 2\<rparr>"

lemma call_service_deadline:
  "clock (snd (call_service (Some (D, e)) timeout req w)) \<le> max (clock w) D"
proof -
  have aw: "clock (snd (await (Some (c, x)) d v)) \<le> max (clock w) D"
    if "c \<le> D" "clock v \<le> max (clock w) D" for c x d v
    using that by (auto simp: await_def Let_def)
  have dd: "clock (snd (http_Do (Some (D, e)) timeout req w)) \<le> max (clock w) D"
    using aw [where v = "w\<lparr>sent := sent w @ [(clock w, req)]\<rparr>"]
    by (auto simp: http_Do_def WithTimeout_def ctx_Err_def Let_def
        split: exchange.splits prod.splits option.splits) (metis less_imp_le linorder_not_le max.coboundedI1 snd_conv)+
  show ?thesis
  proof (cases "url_error w (req_url req)")
    case None
    obtain r w1 where r: "http_Do (Some (D, e)) timeout req w = (r, w1)" by fastforce
    show ?thesis
    proof (cases r)
      case (Inr rc)
      then obtain resp c x where rc: "r = Inr (resp, Some (c, x))" "c \<le> D"
        using r by (auto simp: http_Do_def WithTimeout_def ctx_Err_def Let_def
          split: exchange.splits prod.splits option.splits if_splits)
      with dd r None aw [of c w1] show ?thesis by (simp add: call_service_read ReadAll_world)
    qed (use dd r None in \<open>simp add: call_service_def\<close>)
  qed (simp add: call_service_def)
qed

lemma PollResult_deadline:
  "clock (snd (PollResult cl i (Some (D, e)) w)) \<le> max (clock w) D"
  by (simp add: PollResult_world call_service_deadline)

text \<open>
  The ticker fires every second from \<open>next\<close> on and keeps at most one tick for a slow
  receiver, so the tick after one received at \<open>t\<close> is the first one later than \<open>t\<close>.
\<close>

definition next_tick_after :: "time \<Rightarrow> time \<Rightarrow> time" where
  "next_tick_after nxt t = nxt + Second * ((t - nxt) div Second + 1)"

lemma next_tick_after_gt: "t < next_tick_after nxt t"
proof -
  have "Second * ((t - nxt) div Second) + (t - nxt) mod Second = t - nxt" by simp
  moreover have "(t - nxt) mod Second < Second" by simp
  ultimately show ?thesis unfolding next_tick_after_def distrib_left by linarith
qed

lemma poll_measure:
  assumes "\<not> (max (clock w) D < max (clock w) nxt)"
    and "(ans, w1) = PollResult cl i (Some (D, e)) (w0\<lparr>clock := max (clock w) nxt\<rparr>)"
  shows "nat (max (clock w1) D - next_tick_after nxt (max (clock w) nxt) + 1) <
    nat (max (clock w) D - nxt + 1)"
proof -
  have "clock w1 \<le> max (max (clock w) nxt) D"
    using PollResult_deadline [of cl i D e "w0\<lparr>clock := max (clock w) nxt\<rparr>"]
    by (simp add: assms(2) [symmetric])
  with assms(1) next_tick_after_gt [of "max (clock w) nxt" nxt] show ?thesis by auto
qed

datatype poll_end = PollTimeout | PollFailed string | PollComplete "SCRAResult option" | PollPanics

text \<open>
  The loop: \<open>nxt\<close> is the next tick, \<open>D\<close> the deadline of the poll context. The
  \<^verbatim>\<open>select\<close> takes what is ready first; when both are, Go picks one at random.
\<close>

function poll_loop ::
  "SCRAClient \<Rightarrow> string \<Rightarrow> time \<Rightarrow> goerr \<Rightarrow> time \<Rightarrow> int \<Rightarrow> world \<Rightarrow> (poll_end \<times> int) \<times> world"
where
  "poll_loop cl searchID D cause nxt tries w =
     (let t_tick = max (clock w) nxt; t_done = max (clock w) D;
          (coin, w0) = flip_coin w in
      if t_done < t_tick \<or> (t_done = t_tick \<and> \<not> coin) then ((PollTimeout, tries), w0\<lparr>clock := t_done\<rparr>)
      else
        (case PollResult cl searchID (Some (D, cause)) (w0\<lparr>clock := t_tick\<rparr>) of
           (None, w1) \<Rightarrow> ((PollPanics, tries + 1), w1)
         | (Some (result, status, pollErr), w1) \<Rightarrow>
             if status = ''error'' then
               ((case pollErr of None \<Rightarrow> PollPanics | Some e \<Rightarrow> PollFailed (error_text e), tries + 1), w1)
             else if status = ''complete'' then ((PollComplete result, tries + 1), w1)
             else if pollErr \<noteq> None \<and> status = [] \<and> IsPermanentError (the pollErr)
               then ((PollFailed (error_text (the pollErr)), tries + 1), w1)
             else poll_loop cl searchID D cause (next_tick_after nxt t_tick) (tries + 1) w1))"
  by pat_completeness auto
termination
  apply (relation "measure (\<lambda>(cl, searchID, D, cause, nxt, tries, w). nat (max (clock w) D - nxt + 1))")
   apply simp
  apply (simp only: in_measure prod.case)
  apply (rule poll_measure)
  apply auto
  done

declare poll_loop.simps [simp del]

definition search_for :: "case_row \<Rightarrow> SCRASearchRequest" where
  "search_for c =
     \<lparr>sq_LastName = c_LastName c, sq_FirstName = c_FirstName c,
      sq_SSNLast4 = c_SSNLast4 c, sq_DOB = c_DOB c\<rparr>"

text \<open>
  What the loop does before it returns. Panicking after a write to the database is a panic;
  the client never reports \<^verbatim>\<open>"complete"\<close> without a result.
\<close>

definition scra_report ::
  "source_row \<Rightarrow> Orchestrator \<Rightarrow> string \<Rightarrow> poll_end \<Rightarrow> int \<Rightarrow> world \<Rightarrow> proc_out"
where
  "scra_report src o1 searchID result totalAttempts w =
     (case result of
        PollPanics \<Rightarrow> Panics
      | PollTimeout \<Rightarrow>
          set_result ((result_for src SourceStatusFailed totalAttempts)
            \<lparr>p_ErrorMsg := Some ''poll timeout after 30 seconds'', p_SearchID := Some searchID\<rparr>) o1 w
      | PollFailed txt \<Rightarrow>
          set_result ((result_for src SourceStatusFailed totalAttempts)
            \<lparr>p_ErrorMsg := Some txt, p_SearchID := Some searchID\<rparr>)
            (o1\<lparr>scraCB := RecordFailure (clock w) (scraCB o1)\<rparr>) w
      | PollComplete r \<Rightarrow>
          if r = None then Panics
          else
            set_result ((result_for src SourceStatusSuccess totalAttempts)
              \<lparr>p_Data := Some (enc_ptr enc_scra_result r), p_SearchID := Some searchID\<rparr>)
              (o1\<lparr>scraCB := RecordSuccess (scraCB o1)\<rparr>) w)"

definition processSCRA ::
  "gctx \<Rightarrow> case_row \<Rightarrow> source_row \<Rightarrow> Orchestrator \<Rightarrow> world \<Rightarrow> proc_out"
where
  "processSCRA ctx c src o0 w =
     (let (allowed, cb) = Allow (clock w) (scraCB o0);
          o1 = o0\<lparr>scraCB := cb\<rparr> in
      if \<not> allowed then
        set_result ((result_for src SourceStatusFailed (Attempts src))
          \<lparr>p_ErrorMsg := Some ''circuit breaker open''\<rparr>) o1 w
      else
        (let ((err, submitAttempts, sid), w1) =
           retry_call ctx submitCfg
             (SubmitSearch (scraClient o1) (search_for c)) w in
         case err of
           Some e \<Rightarrow>
             set_result ((result_for src SourceStatusFailed (Attempts src + submitAttempts))
               \<lparr>p_ErrorMsg := Some (error_text e)\<rparr>)
               (o1\<lparr>scraCB := RecordFailure (clock w1) (scraCB o1)\<rparr>) w1
         | None \<Rightarrow>
             (let searchID = (case sid of None \<Rightarrow> [] | Some i \<Rightarrow> i);
                  (D, cause) = the (WithTimeout ctx (30 * Second) (clock w1));
                  ((result, totalAttempts), w2) =
                    poll_loop (scraClient o1) searchID D cause (clock w1 + 1 * Second)
                      (Attempts src + submitAttempts) w1 in
              scra_report src o1 searchID result totalAttempts w2)))"

section \<open>Dispatch\<close>

definition processSource ::
  "gctx \<Rightarrow> case_row \<Rightarrow> source_row \<Rightarrow> Orchestrator \<Rightarrow> world \<Rightarrow> proc_out"
where
  "processSource ctx c src o0 w =
     (if src_Source src = SourcePropertyRecords then processProperty ctx c src o0 w
      else if src_Source src = SourceCourtRecords then
        (if c_CourtCaseNumber c = None then
           set_result ((result_for src SourceStatusNotApplicable (Attempts src))
             \<lparr>p_Reason := Some ''No court case number (pre-filing stage)''\<rparr>) o0 w
         else processCourt ctx c src o0 w)
      else if src_Source src = SourceSCRA then processSCRA ctx c src o0 w
      else Finished o0 w)"

section \<open>What a processor can do\<close>

text \<open>
  One write to its own row, of a terminal status, after some attempts and some time; the
  breakers, the limiter and the services are otherwise left to other definitions.
\<close>

definition resolves ::
  "string set \<Rightarrow> int \<Rightarrow> source_row \<Rightarrow> Orchestrator \<Rightarrow> world \<Rightarrow> SetSourceResultParams \<Rightarrow>
     Orchestrator \<Rightarrow> world \<Rightarrow> bool"
where
  "resolves statuses tries src o0 w p o1 w1 \<longleftrightarrow>
     store o1 = snd (SetSourceResult (clock w1) p (store o0)) \<and>
     p_SourceID p = src_ID src \<and> p_Status p \<in> statuses \<and>
     Attempts src \<le> p_Attempts p \<and> p_Attempts p \<le> Attempts src + tries \<and> wle w w1 \<and>
     int (length (sent w1)) \<le> int (length (sent w)) + tries \<and>
     (p_Status p = SourceStatusFailed \<longrightarrow> p_ErrorMsg p \<noteq> None \<and> p_Data p = None) \<and>
     (p_Status p = SourceStatusSuccess \<longrightarrow> p_ErrorMsg p = None) \<and>
     (rl_live (courtLimiter o0) \<longrightarrow> rl_live (courtLimiter o1)) \<and>
     propertyClient o1 = propertyClient o0 \<and> courtClient o1 = courtClient o0 \<and>
     scraClient o1 = scraClient o0"

abbreviation outcomes :: "string set" where
  "outcomes \<equiv> {SourceStatusSuccess, SourceStatusFailed}"

lemma set_result_Finished:
  "set_result p o1 w = Finished o2 w2 \<longleftrightarrow>
     w2 = w \<and> o2 = o1\<lparr>store := snd (SetSourceResult (clock w) p (store o1))\<rparr>"
  by (auto simp: set_result_def)

lemma result_for_simps [simp]:
  "p_SourceID (result_for s st n) = src_ID s" "p_Status (result_for s st n) = st"
  "p_Attempts (result_for s st n) = n" "p_Data (result_for s st n) = None"
  "p_ErrorMsg (result_for s st n) = None" "p_Reason (result_for s st n) = None"
  "p_SearchID (result_for s st n) = None"
  by (simp_all add: result_for_def)

context service_call
begin

lemma retry_call_ok:
  assumes "MaxAttempts cfg = 1 + int m" and "retry_call ctx cfg call w = ((err, n, v), w1)"
  shows "wle w w1 \<and> 0 \<le> n \<and> n \<le> MaxAttempts cfg \<and>
    int (length (sent w1)) \<le> int (length (sent w)) + n \<and>
    clock w1 \<le> clock w + MaxAttempts cfg * timeout + total_pause cfg 1 m"
proof -
  have "attempts_ok cfg 1 (Suc m) ((0, None), w) (err, (n, v), w1)"
    using do_loop_ok [of 1 m cfg "((0, None), w)" ctx None] assms
    by (auto simp: retry_call_def Do_def split: prod.splits)
  with assms(1) show ?thesis by (simp add: attempts_ok_def)
qed

end

lemma total_pause_default: "total_pause DefaultRetryConfig 1 4 = 17 * Second"
  by (simp add: numeral_eq_Suc max_pause_def backoff_def DefaultRetryConfig_def Second_def
      Millisecond_def trunc_def)

lemma total_pause_submit: "total_pause submitCfg 1 2 = 4 * Second"
  by (simp add: numeral_eq_Suc max_pause_def backoff_def submitCfg_def Second_def
      Millisecond_def trunc_def)

lemma MaxAttempts_simps [simp]:
  "MaxAttempts DefaultRetryConfig = 5" "MaxAttempts submitCfg = 3"
  by (simp_all add: DefaultRetryConfig_def submitCfg_def)

lemma retry_fetch:
  assumes "retry_call ctx DefaultRetryConfig (Fetch pc st co pa) w = ((err, n, v), w1)"
  shows "wle w w1 \<and> 0 \<le> n \<and> n \<le> 5 \<and> int (length (sent w1)) \<le> int (length (sent w)) + n \<and>
    clock w1 \<le> clock w + 77 * Second"
  using property_service.retry_call_ok [OF _ assms, where m = 4] total_pause_default
  by (simp add: propertyHTTPTimeout_def)

lemma retry_search:
  assumes "retry_call ctx DefaultRetryConfig (Search cc num) w = ((err, n, v), w1)"
  shows "wle w w1 \<and> 0 \<le> n \<and> n \<le> 5 \<and> int (length (sent w1)) \<le> int (length (sent w)) + n \<and>
    clock w1 \<le> clock w + 67 * Second"
  using court_service.retry_call_ok [OF _ assms, where m = 4] total_pause_default
  by (simp add: courtHTTPTimeout_def)

lemma retry_submit:
  assumes "retry_call ctx submitCfg (SubmitSearch sc q) w = ((err, n, v), w1)"
  shows "wle w w1 \<and> 0 \<le> n \<and> n \<le> 3 \<and> int (length (sent w1)) \<le> int (length (sent w)) + n \<and>
    clock w1 \<le> clock w + 19 * Second"
  using submit_service.retry_call_ok [OF _ assms, where m = 2] total_pause_submit
  by (simp add: scraHTTPTimeout_def)

text \<open>
  The ticks left until the deadline bound the polls; the deadline bounds the time.
\<close>

definition polls_left :: "time \<Rightarrow> time \<Rightarrow> world \<Rightarrow> int" where
  "polls_left nxt D w = max 0 ((max (clock w) D - nxt) div Second + 1)"

lemma polls_left_step:
  assumes "nxt \<le> max (clock w) D" and "clock w1 \<le> max (clock w) D"
  shows "polls_left (next_tick_after nxt (max (clock w) nxt)) D w1 + 1 \<le> polls_left nxt D w"
proof -
  let ?M = "max (clock w) D" and ?n = "next_tick_after nxt (max (clock w) nxt)"
  have "0 \<le> (max (clock w) nxt - nxt) div Second" by (simp add: pos_imp_zdiv_nonneg_iff)
  then have "Second * 1 \<le> Second * ((max (clock w) nxt - nxt) div Second + 1)"
    by (intro mult_left_mono) auto
  then have n: "nxt + Second \<le> ?n" by (simp add: next_tick_after_def)
  have "(max (clock w1) D - ?n) div Second \<le> (?M - nxt - Second) div Second"
    using assms(2) n by (intro zdiv_mono1) auto
  also have "\<dots> = (?M - nxt) div Second - 1"
    using div_add_self2 [of Second "?M - nxt - Second"] by simp
  finally have "(max (clock w1) D - ?n) div Second + 1 \<le> (?M - nxt) div Second" by simp
  moreover have "0 \<le> (?M - nxt) div Second" using assms(1) by (simp add: pos_imp_zdiv_nonneg_iff)
  ultimately show ?thesis by (simp add: polls_left_def)
qed

lemma poll_loop_ok:
  assumes "poll_loop cl i D e nxt k w = ((res, n), w1)"
  shows "wle w w1 \<and> k \<le> n \<and> n \<le> k + polls_left nxt D w \<and>
    int (length (sent w1)) \<le> int (length (sent w)) + (n - k) \<and> clock w1 \<le> max (clock w) D"
  using assms
proof (induction cl i D e nxt k w arbitrary: res n w1 rule: poll_loop.induct)
  case (1 cl i D e nxt k w)
  let ?t = "max (clock w) nxt" and ?M = "max (clock w) D"
  obtain coin w0 where f: "flip_coin w = (coin, w0)" by fastforce
  have w0: "wle w w0" "clock w0 = clock w" "sent w0 = sent w"
    using flip_coin_facts [of w] f by simp_all
  show ?case
  proof (cases "?M < ?t \<or> (?M = ?t \<and> \<not> coin)")
    case True
    with "1.prems" f w0 show ?thesis
      by (auto simp: poll_loop.simps [of _ _ _ _ nxt] polls_left_def wle_def)
  next
    case False
    obtain ans v where p: "PollResult cl i (Some (D, e)) (w0\<lparr>clock := ?t\<rparr>) = (ans, v)" by fastforce
    have t: "?t \<le> ?M" "nxt \<le> ?M" using False by auto
    have "clock v \<le> max ?t D" using PollResult_deadline [of cl i D e "w0\<lparr>clock := ?t\<rparr>"] p by simp
    with t have cl: "clock v \<le> ?M" by auto
    have call: "call_ok scraHTTPTimeout (w0\<lparr>clock := ?t\<rparr>) v"
      using PollResult_ok [of "w0\<lparr>clock := ?t\<rparr>" cl i "Some (D, e)"] p by simp
    then have v: "wle w v" "length (sent v) \<le> Suc (length (sent w))"
      using w0 by (auto simp: call_ok_def wle_def)
    note step = polls_left_step [OF t(2) cl]
    have pl: "0 \<le> polls_left (next_tick_after nxt ?t) D v" by (simp add: polls_left_def)
    show ?thesis
    proof (cases "\<exists>r. (res, n) = (r, k + 1) \<and> w1 = v")
      case True
      with v cl step pl show ?thesis by auto
    next
      case again: False
      then have rec: "poll_loop cl i D e (next_tick_after nxt ?t) (k + 1) v = ((res, n), w1)"
        and IH: "\<And>a b c. poll_loop cl i D e (next_tick_after nxt ?t) (k + 1) v = ((a, b), c) \<Longrightarrow>
          wle v c \<and> k + 1 \<le> b \<and> b \<le> k + 1 + polls_left (next_tick_after nxt ?t) D v \<and>
          int (length (sent c)) \<le> int (length (sent v)) + (b - (k + 1)) \<and> clock c \<le> max (clock v) D"
        using "1.prems" "1.IH" f False p
        by (auto simp: poll_loop.simps [of _ _ _ _ nxt] Let_def split: option.splits prod.splits if_splits)
      from IH [OF rec] v cl step show ?thesis by (auto intro: wle_trans)
    qed
  qed
qed

section \<open>The contract of a processor\<close>

text \<open>
  What \<^verbatim>\<open>runLookup\<close> relies on: whatever the services and the database do, a processor that
  returns has written one terminal result to its own row.
\<close>

locale source_processor =
  fixes proc :: "gctx \<Rightarrow> case_row \<Rightarrow> source_row \<Rightarrow> Orchestrator \<Rightarrow> world \<Rightarrow> proc_out"
    and accepts :: "source_row \<Rightarrow> bool"
    and statuses :: "string set"
    and tries :: int
  assumes proc_resolves:
    "accepts src \<Longrightarrow> proc ctx c src o0 w = Finished o1 w1 \<Longrightarrow> rl_live (courtLimiter o0) \<Longrightarrow>
       \<exists>p. resolves statuses tries src o0 w p o1 w1"
    and statuses_ok: "statuses \<subseteq> source_statuses"
begin

lemma proc_inv:
  assumes "accepts src" "proc ctx c src o0 w = Finished o1 w1" "rl_live (courtLimiter o0)" "db_inv (store o0)"
  shows "db_inv (store o1) \<and> rl_live (courtLimiter o1)"
proof -
  from proc_resolves [OF assms(1-3)] obtain p where p: "resolves statuses tries src o0 w p o1 w1" by blast
  then have "p_Status p \<in> source_statuses" using statuses_ok by (auto simp: resolves_def)
  with p assms(3,4) show ?thesis by (simp add: resolves_def SetSourceResult_inv)
qed

text \<open>With a healthy database the row ends up with the result, and no other row changes.\<close>

lemma proc_healthy:
  assumes "accepts src" "proc ctx c src o0 w = Finished o1 w1" "rl_live (courtLimiter o0)" "healthy (store o0)"
  shows "\<exists>p. resolves statuses tries src o0 w p o1 w1 \<and> healthy (store o1) \<and>
    same_server (store o0) (store o1) \<and> lookup_runs (store o1) = lookup_runs (store o0) \<and>
    lookup_sources (store o1) = write_result (clock w1, p) (lookup_sources (store o0))"
proof -
  from proc_resolves [OF assms(1-3)] obtain p where p: "resolves statuses tries src o0 w p o1 w1" by blast
  then have "store o1 = update_source (p_SourceID p) (result_row (clock w1) p) (next_stmt (store o0))"
    using assms(4) by (simp add: resolves_def healthy_writes)
  with p assms(4) show ?thesis
    by (intro exI [of _ p]) (simp add: same_server_def write_result_def)
qed

end

lemma Wait_facts:
  assumes "rl_live rl" "Wait coin ctx now rl = (res, rl1)"
  shows "rl_live rl1 \<and> res \<noteq> Blocked \<and> (\<forall>t. res = Granted t \<longrightarrow> now \<le> t) \<and>
    (\<forall>t e. res = WaitErr t e \<longrightarrow> now \<le> t)"
  using assms Wait_live [OF assms(1), of coin ctx now] refill_facts [of rl now]
  by (auto simp: Wait_def Let_def rl_live_def ctx_Err_def split: option.splits if_splits)

lemma resolvesI:
  assumes "set_result p o2 w1 = Finished o1 w1'" "store o2 = store o0"
    and "p_SourceID p = src_ID src" "p_Status p \<in> statuses"
    and "Attempts src \<le> p_Attempts p" "p_Attempts p \<le> Attempts src + tries" "wle w w1"
    and "int (length (sent w1)) \<le> int (length (sent w)) + tries"
    and "p_Status p = SourceStatusFailed \<Longrightarrow> p_ErrorMsg p \<noteq> None \<and> p_Data p = None"
    and "p_Status p = SourceStatusSuccess \<Longrightarrow> p_ErrorMsg p = None"
    and "rl_live (courtLimiter o0) \<Longrightarrow> rl_live (courtLimiter o2)"
    and "propertyClient o2 = propertyClient o0" "courtClient o2 = courtClient o0"
    and "scraClient o2 = scraClient o0"
  shows "\<exists>p. resolves statuses tries src o0 w p o1 w1'"
  using assms by (intro exI [of _ p]) (auto simp: resolves_def set_result_Finished)

lemma processProperty_resolves:
  assumes "processProperty ctx c src o0 w = Finished o1 w1"
  shows "\<exists>p. resolves outcomes 5 src o0 w p o1 w1"
proof -
  obtain allowed cb where a: "Allow (clock w) (propertyCB o0) = (allowed, cb)" by fastforce
  obtain err n rec w2 where r: "retry_call ctx DefaultRetryConfig
      (Fetch (propertyClient o0) (c_State c) (c_County c) (c_ParcelID c)) w = ((err, n, rec), w2)"
    by (metis prod.collapse)
  from retry_fetch [OF r] have f: "wle w w2" "0 \<le> n" "n \<le> 5"
    "int (length (sent w2)) \<le> int (length (sent w)) + 5" by auto
  show ?thesis
    using assms f by (auto simp: processProperty_def a r Let_def elim!: resolvesI split: if_splits option.splits)
qed

lemma processCourt_resolves:
  assumes "processCourt ctx c src o0 w = Finished o1 w1" and live: "rl_live (courtLimiter o0)"
  shows "\<exists>p. resolves outcomes 5 src o0 w p o1 w1"
proof -
  obtain allowed cb where a: "Allow (clock w) (courtCB o0) = (allowed, cb)" by fastforce
  obtain coin w2 where f: "flip_coin w = (coin, w2)" by fastforce
  have w2: "wle w w2" "clock w2 = clock w" "sent w2 = sent w" using flip_coin_facts [of w] f by simp_all
  obtain res rl where g: "Wait coin ctx (clock w) (courtLimiter o0) = (res, rl)" by fastforce
  note W = Wait_facts [OF live g]
  have later: "wle w (w2\<lparr>clock := t\<rparr>)" if "clock w \<le> t" for t
    using w2 that by (simp add: wle_def)
  have call: "wle w w3 \<and> 0 \<le> n \<and> n \<le> 5 \<and> int (length (sent w3)) \<le> int (length (sent w)) + 5"
    if "retry_call ctx DefaultRetryConfig (Search (courtClient o0) num) (w2\<lparr>clock := t\<rparr>) = ((err, n, rec), w3)"
      "clock w \<le> t" for num t err n rec w3
    using retry_search [OF that(1)] later [OF that(2)] w2 by (auto intro: wle_trans)
  show ?thesis
    using assms(1) W w2 later
    by (auto simp: processCourt_def a f g Let_def elim!: resolvesI dest!: call
        split: if_splits option.splits wait_result.splits prod.splits)
qed

lemma WithTimeout_bound:
  obtains D e where "WithTimeout ctx d now = Some (D, e)" "D \<le> now + d"
proof (cases ctx)
  case (Some c)
  obtain t x where c: "c = (t, x)" by fastforce
  show ?thesis
    using that [of t x] that [of "now + d" DeadlineExceeded] Some c
    by (cases "t \<le> now + d") (simp_all add: WithTimeout_def)
qed (use that [of "now + d" DeadlineExceeded] in \<open>simp add: WithTimeout_def\<close>)

lemma polls_left_30:
  assumes "D \<le> clock w + 30 * Second"
  shows "polls_left (clock w + 1 * Second) D w \<le> 30"
proof -
  have "(max (clock w) D - (clock w + 1 * Second)) div Second \<le> (29 * Second) div Second"
    using assms Second_pos(1) by (intro zdiv_mono1) linarith+
  then show ?thesis by (simp add: polls_left_def)
qed

lemma processSCRA_resolves:
  assumes "processSCRA ctx c src o0 w = Finished o1 w1"
  shows "\<exists>p. resolves outcomes 33 src o0 w p o1 w1"
proof -
  obtain allowed cb where a: "Allow (clock w) (scraCB o0) = (allowed, cb)" by fastforce
  obtain err n sid w2 where r: "retry_call ctx submitCfg (SubmitSearch (scraClient o0) (search_for c)) w = ((err, n, sid), w2)"
    by (metis prod.collapse)
  let ?i = "case sid of None \<Rightarrow> [] | Some i \<Rightarrow> i"
  obtain D e where D: "WithTimeout ctx (30 * Second) (clock w2) = Some (D, e)" "D \<le> clock w2 + 30 * Second"
    by (rule WithTimeout_bound)
  obtain res k w3 where l: "poll_loop (scraClient o0) ?i D e
      (clock w2 + 1 * Second) (Attempts src + n) w2 = ((res, k), w3)"
    by (metis prod.collapse)
  from retry_submit [OF r] have f: "wle w w2" "0 \<le> n" "n \<le> 3"
    "int (length (sent w2)) \<le> int (length (sent w)) + 3" by auto
  from poll_loop_ok [OF l] polls_left_30 [OF D(2)] f
  have g: "wle w w3" "Attempts src \<le> k" "k \<le> Attempts src + 33"
    "int (length (sent w3)) \<le> int (length (sent w)) + 33"
    by (auto intro: wle_trans)
  show ?thesis
  proof (cases "allowed \<and> err = None")
    case False
    with assms f show ?thesis
      by (auto simp: processSCRA_def a r Let_def elim!: resolvesI split: option.splits if_splits)
  next
    case True
    then have "processSCRA ctx c src o0 w = scra_report src (o0\<lparr>scraCB := cb\<rparr>) ?i res k w3"
      using D l by (simp add: processSCRA_def a r Let_def)
    with assms g show ?thesis
      by (cases res) (auto simp: scra_report_def elim!: resolvesI split: if_splits)
  qed
qed

lemma outcomes_ok: "outcomes \<subseteq> source_statuses"
  by (auto simp: source_statuses_def)

interpretation property_proc: source_processor processProperty "\<lambda>_. True" outcomes 5
  by unfold_locales (auto simp: outcomes_ok dest: processProperty_resolves)

interpretation court_proc: source_processor processCourt "\<lambda>_. True" outcomes 5
  by unfold_locales (auto simp: outcomes_ok dest: processCourt_resolves)

interpretation scra_proc: source_processor processSCRA "\<lambda>_. True" outcomes 33
  by unfold_locales (auto simp: outcomes_ok dest: processSCRA_resolves)

text \<open>The dispatcher keeps the contract for the three sources of a run.\<close>

lemma resolves_weaken:
  "resolves S n src o0 w p o1 w1 \<Longrightarrow> S \<subseteq> T \<Longrightarrow> n \<le> m \<Longrightarrow> resolves T m src o0 w p o1 w1"
  by (auto simp: resolves_def)

lemma processSource_resolves:
  assumes "processSource ctx c src o0 w = Finished o1 w1" "rl_live (courtLimiter o0)"
    and "src_Source src \<in> set source_names"
  shows "\<exists>p. resolves (insert SourceStatusNotApplicable outcomes) 33 src o0 w p o1 w1"
proof -
  have weaken: "\<exists>p. resolves (insert SourceStatusNotApplicable outcomes) 33 src o0 w p o1 w1"
    if "\<exists>p. resolves outcomes n src o0 w p o1 w1" "n \<le> 33" for n
    using that by (auto intro: resolves_weaken)
  consider (na) "src_Source src = SourceCourtRecords" "c_CourtCaseNumber c = None"
    | (property) "processProperty ctx c src o0 w = Finished o1 w1"
    | (court) "processCourt ctx c src o0 w = Finished o1 w1"
    | (scra) "processSCRA ctx c src o0 w = Finished o1 w1"
    using assms(1,3) by (auto simp: processSource_def source_names_def split: if_splits)
  then show ?thesis
  proof cases
    case na
    with assms(1) show ?thesis by (auto simp: processSource_def elim!: resolvesI)
  next
    case property
    from weaken [OF processProperty_resolves [OF property]] show ?thesis by simp
  next
    case court
    from weaken [OF processCourt_resolves [OF court assms(2)]] show ?thesis by simp
  next
    case scra
    from weaken [OF processSCRA_resolves [OF scra]] show ?thesis by simp
  qed
qed

interpretation dispatch: source_processor processSource
  "\<lambda>src. src_Source src \<in> set source_names" "insert SourceStatusNotApplicable outcomes" 33
  using outcomes_ok by unfold_locales (auto simp: source_statuses_def dest: processSource_resolves)

section \<open>The attempts of a processor\<close>

text \<open>The world in which attempt \<open>i + 1\<close> starts, when the ones before it have failed.\<close>

definition attempt_start ::
  "RetryConfig \<Rightarrow> (gctx \<Rightarrow> world \<Rightarrow> (goerr + 'a) \<times> world) \<Rightarrow> world \<Rightarrow> nat \<Rightarrow> world" where
  "attempt_start cfg call w i = snd (nth_start cfg (counted (call Background)) 1 ((0, None), w) i)"

lemma nth_start_count:
  "fst (fst (nth_start cfg (counted call) n s i)) = fst (fst s) + int i"
proof (induction i arbitrary: n s)
  case (Suc i)
  then show ?case by (simp add: pause_def counted_def split_beta split: sum.splits)
qed simp

lemma stops_counted:
  "stops (fst (counted call s)) \<longleftrightarrow> (\<forall>e. fst (call (snd s)) = Inl e \<longrightarrow> IsPermanent e)"
  by (simp add: counted_def stops_def split: prod.splits sum.splits)

lemma not_stops_counted:
  "\<not> stops (fst (counted call s)) \<longleftrightarrow> (\<exists>e. fst (call (snd s)) = Inl e \<and> \<not> IsPermanent e)"
  by (auto simp: stops_counted)

text \<open>
  The reference reading of a retried call: the k attempts before the deciding one fail with
  transient errors; the deciding one succeeds, fails permanently or is the last one allowed.
\<close>

definition decided_by ::
  "RetryConfig \<Rightarrow> (gctx \<Rightarrow> world \<Rightarrow> (goerr + 'a) \<times> world) \<Rightarrow> world \<Rightarrow> nat \<Rightarrow> goerr + 'a \<Rightarrow> world \<Rightarrow> bool"
where
  "decided_by cfg call w k res w1 \<longleftrightarrow>
     int k < MaxAttempts cfg \<and>
     (\<forall>i < k. \<exists>e. fst (call Background (attempt_start cfg call w i)) = Inl e \<and> \<not> IsPermanent e) \<and>
     call Background (attempt_start cfg call w k) = (res, w1) \<and>
     (\<forall>e. res = Inl e \<longrightarrow> IsPermanent e \<or> int k = MaxAttempts cfg - 1)"

lemma retry_call_reference:
  assumes "1 \<le> MaxAttempts cfg"
  shows "\<exists>k res w1. decided_by cfg call w k res w1 \<and>
    retry_call Background cfg call w =
      ((case res of Inl e \<Rightarrow> (Some e, int k + 1, None) | Inr v \<Rightarrow> (None, int k + 1, Some v)), w1)"
proof -
  let ?fn = "counted (call Background)" and ?s = "((0, None), w)"
  define m where "m = nat (MaxAttempts cfg - 1)"
  have m: "1 + int m = MaxAttempts cfg" using assms by (simp add: m_def)
  from do_loop_attempts [OF m, of ?fn ?s None] obtain k where
    k: "k \<le> m" "\<forall>i < k. \<not> stops (fst (?fn (nth_start cfg ?fn 1 ?s i)))"
      "k = m \<or> stops (fst (?fn (nth_start cfg ?fn 1 ?s k)))"
      "Do Background cfg ?fn ?s = ?fn (nth_start cfg ?fn 1 ?s k)"
    unfolding Do_def by metis
  obtain res w1 where c: "call Background (attempt_start cfg call w k) = (res, w1)" by fastforce
  have "retry_call Background cfg call w =
      ((case res of Inl e \<Rightarrow> (Some e, int k + 1, None) | Inr v \<Rightarrow> (None, int k + 1, Some v)), w1)"
    using c by (simp add: retry_call_def k(4) counted_def attempt_start_def nth_start_count split: sum.splits)
  moreover have "decided_by cfg call w k res w1"
    using k(1-2) k(3) [unfolded stops_counted] m c
    by (auto simp: decided_by_def not_stops_counted attempt_start_def)
  ultimately show ?thesis by blast
qed

text \<open>What a processor reports for a decided call: its breaker and its row.\<close>

definition decided_result ::
  "source_row \<Rightarrow> ('a \<Rightarrow> json option) \<Rightarrow> nat \<Rightarrow> goerr + 'a \<Rightarrow> SetSourceResultParams"
where
  "decided_result src enc k res =
     (case res of
        Inl e \<Rightarrow> (result_for src SourceStatusFailed (Attempts src + (int k + 1)))
                    \<lparr>p_ErrorMsg := Some (error_text e)\<rparr>
      | Inr v \<Rightarrow> (result_for src SourceStatusSuccess (Attempts src + (int k + 1)))\<lparr>p_Data := enc v\<rparr>)"

definition decided_breaker :: "time \<Rightarrow> goerr + 'a \<Rightarrow> CircuitBreaker \<Rightarrow> CircuitBreaker" where
  "decided_breaker now res cb = (case res of Inl e \<Rightarrow> RecordFailure now cb | Inr v \<Rightarrow> RecordSuccess cb)"

lemma decided_by_unique:
  assumes "decided_by cfg call w k res w1" "decided_by cfg call w k' res' w1'"
  shows "k = k' \<and> res = res' \<and> w1 = w1'"
proof -
  have "\<not> j < j'" if "decided_by cfg call w j r v" "decided_by cfg call w j' r' v'" for j j' r r' v v'
    using that by (auto simp: decided_by_def)
  from this [OF assms] this [OF assms(2,1)] have "k = k'" by simp
  with assms show ?thesis by (simp add: decided_by_def)
qed

lemma decided_retry:
  assumes "decided_by cfg call w k res w1"
  shows "retry_call Background cfg call w =
    ((case res of Inl e \<Rightarrow> (Some e, int k + 1, None) | Inr v \<Rightarrow> (None, int k + 1, Some v)), w1)"
proof -
  have "1 \<le> MaxAttempts cfg" using assms by (simp add: decided_by_def)
  from retry_call_reference [OF this, where w = w and call = call] obtain k' res' w1' where
    "decided_by cfg call w k' res' w1'"
    "retry_call Background cfg call w =
      ((case res' of Inl e \<Rightarrow> (Some e, int k' + 1, None) | Inr v \<Rightarrow> (None, int k' + 1, Some v)), w1')"
    by blast
  with decided_by_unique [OF assms] show ?thesis by metis
qed

text \<open>An answer to a poll after which the loop goes on.\<close>

definition keeps_polling :: "(SCRAResult option \<times> string \<times> goerr option) option \<Rightarrow> bool" where
  "keeps_polling ans =
     (case ans of
        None \<Rightarrow> False
      | Some (r, status, e) \<Rightarrow>
          status \<noteq> ''error'' \<and> status \<noteq> ''complete'' \<and>
          (status = [] \<longrightarrow> (case e of None \<Rightarrow> True | Some x \<Rightarrow> \<not> IsPermanent x)))"

lemma poll_loop_timeout:
  assumes "\<And>v. wle w v \<Longrightarrow> keeps_polling (fst (PollResult cl i (Some (D, e)) v))"
  shows "\<exists>n w1. poll_loop cl i D e nxt k w = ((PollTimeout, n), w1) \<and> clock w1 = max (clock w) D"
  using assms
proof (induction "nat (max (clock w) D - nxt + 1)" arbitrary: nxt k w rule: less_induct)
  case (less nxt w k)
  let ?t = "max (clock w) nxt" and ?M = "max (clock w) D"
  obtain coin w0 where f: "flip_coin w = (coin, w0)" by fastforce
  have w0: "wle w w0" "clock w0 = clock w" using flip_coin_facts [of w] f by simp_all
  show ?case
  proof (cases "?M < ?t \<or> (?M = ?t \<and> \<not> coin)")
    case True
    with f show ?thesis by (simp add: poll_loop.simps [of _ _ _ _ nxt])
  next
    case False
    let ?v = "w0\<lparr>clock := ?t\<rparr>"
    have v: "wle w ?v" using w0 by (simp add: wle_def)
    obtain ans w1 where p: "PollResult cl i (Some (D, e)) ?v = (ans, w1)" by fastforce
    with less.prems [OF v] obtain r st x where ans: "ans = Some (r, st, x)" "keeps_polling (Some (r, st, x))"
      by (cases ans) (auto simp: keeps_polling_def)
    have go: "st \<noteq> ''error''" "st \<noteq> ''complete''" "\<not> (x \<noteq> None \<and> st = [] \<and> IsPermanent (the x))"
      using ans(2) by (auto simp: keeps_polling_def)
    have w1: "wle w w1" using v PollResult_ok [of ?v cl i "Some (D, e)"] p
      by (auto simp: call_ok_def intro: wle_trans)
    have "clock w1 \<le> max ?t D" using PollResult_deadline [of cl i D e ?v] p by simp
    then have "max (clock w1) D = ?M" using False wle_clock [OF w1] by auto
    moreover have "\<exists>n w2. poll_loop cl i D e (next_tick_after nxt ?t) (k + 1) w1 = ((PollTimeout, n), w2) \<and>
        clock w2 = max (clock w1) D"
    proof (rule less.hyps)
      show "nat (max (clock w1) D - next_tick_after nxt ?t + 1) < nat (?M - nxt + 1)"
        using False p [symmetric] by (intro poll_measure) auto
    qed (use less.prems w1 in \<open>blast intro: wle_trans\<close>)
    moreover have "poll_loop cl i D e nxt k w = poll_loop cl i D e (next_tick_after nxt ?t) (k + 1) w1"
      using f False p ans(1) go by (auto simp: poll_loop.simps [of _ _ _ _ nxt] Let_def)
    ultimately show ?thesis by simp
  qed
qed

section \<open>How long a processor takes\<close>

lemma set_result_clock: "set_result p o1 w = Finished o2 w2 \<Longrightarrow> clock w \<le> b \<Longrightarrow> clock w2 \<le> b"
  by (simp add: set_result_Finished)

lemma processProperty_time:
  assumes "processProperty ctx c src o0 w = Finished o1 w1"
  shows "clock w1 \<le> clock w + 77 * Second"
proof -
  obtain allowed cb where a: "Allow (clock w) (propertyCB o0) = (allowed, cb)" by fastforce
  obtain err n rec w2 where r: "retry_call ctx DefaultRetryConfig
      (Fetch (propertyClient o0) (c_State c) (c_County c) (c_ParcelID c)) w = ((err, n, rec), w2)"
    by (metis prod.collapse)
  from retry_fetch [OF r] assms show ?thesis
    by (auto simp: processProperty_def a r Let_def elim!: set_result_clock split: if_splits option.splits)
qed

lemma processCourt_time:
  assumes "processCourt Background c src o0 w = Finished o1 w1" and "rl_live (courtLimiter o0)"
    and "rl_tokens (refill (clock w) (courtLimiter o0)) > 0"
  shows "clock w1 \<le> clock w + 67 * Second"
proof -
  obtain allowed cb where a: "Allow (clock w) (courtCB o0) = (allowed, cb)" by fastforce
  obtain coin w2 where f: "flip_coin w = (coin, w2)" by fastforce
  have w2: "clock w2 = clock w" using flip_coin_facts [of w] f by simp
  have g: "Wait coin Background (clock w) (courtLimiter o0) =
      (Granted (clock w), take_token (refill (clock w) (courtLimiter o0)))"
    using assms(2,3) by (simp add: Wait_Background)
  obtain err n rec w3 where r: "retry_call Background DefaultRetryConfig
      (Search (courtClient o0) (the (c_CourtCaseNumber c))) (w2\<lparr>clock := clock w\<rparr>) = ((err, n, rec), w3)"
    by (metis prod.collapse)
  from retry_search [OF r] assms(1) w2 show ?thesis
    by (auto simp: processCourt_def a f g r Let_def elim!: set_result_clock split: if_splits option.splits)
qed

lemma processSCRA_time:
  assumes "processSCRA ctx c src o0 w = Finished o1 w1"
  shows "clock w1 \<le> clock w + 49 * Second"
proof -
  obtain allowed cb where a: "Allow (clock w) (scraCB o0) = (allowed, cb)" by fastforce
  obtain err n sid w2 where r: "retry_call ctx submitCfg (SubmitSearch (scraClient o0) (search_for c)) w = ((err, n, sid), w2)"
    by (metis prod.collapse)
  let ?i = "case sid of None \<Rightarrow> [] | Some i \<Rightarrow> i"
  obtain D e where D: "WithTimeout ctx (30 * Second) (clock w2) = Some (D, e)" "D \<le> clock w2 + 30 * Second"
    by (rule WithTimeout_bound)
  obtain res k w3 where l: "poll_loop (scraClient o0) ?i D e
      (clock w2 + 1 * Second) (Attempts src + n) w2 = ((res, k), w3)"
    by (metis prod.collapse)
  from retry_submit [OF r] poll_loop_ok [OF l] D(2) Second_pos(1)
  have t: "clock w2 \<le> clock w + 49 * Second" "clock w3 \<le> clock w + 49 * Second" by linarith+
  show ?thesis
  proof (cases "allowed \<and> err = None")
    case False
    with assms t show ?thesis
      by (auto simp: processSCRA_def a r Let_def elim!: set_result_clock split: option.splits if_splits)
  next
    case True
    then have "processSCRA ctx c src o0 w = scra_report src (o0\<lparr>scraCB := cb\<rparr>) ?i res k w3"
      using D l by (simp add: processSCRA_def a r Let_def)
    with assms t show ?thesis
      by (cases res) (auto simp: scra_report_def elim!: set_result_clock split: if_splits)
  qed
qed

section \<open>Processors return\<close>

lemma processProperty_returns: "\<exists>o1 w1. processProperty ctx c src o0 w = Finished o1 w1"
  by (simp add: processProperty_def set_result_def Let_def split_beta split: option.splits)

lemma processCourt_returns:
  assumes "rl_live (courtLimiter o0)" "c_CourtCaseNumber c = Some number"
  shows "\<exists>o1 w1. processCourt ctx c src o0 w = Finished o1 w1"
proof -
  obtain res rl where g: "Wait (fst (flip_coin w)) ctx (clock w) (courtLimiter o0) = (res, rl)" by fastforce
  have "res \<noteq> Blocked" using Wait_facts [OF assms(1) g] by simp
  moreover have "clock (snd (flip_coin w)) = clock w" by (rule flip_coin_facts)
  ultimately show ?thesis using g assms(2)
    by (auto simp: processCourt_def set_result_def Let_def split_beta split: option.splits wait_result.splits)
qed

lemma poll_step:
  assumes "flip_coin w = (coin, w0)"
    and "\<not> (max (clock w) D < max (clock w) nxt \<or> (max (clock w) D = max (clock w) nxt \<and> \<not> coin))"
    and "PollResult cl i (Some (D, e)) (w0\<lparr>clock := max (clock w) nxt\<rparr>) = (ans, w1)"
  shows "poll_loop cl i D e nxt k w =
    (case ans of
       None \<Rightarrow> ((PollPanics, k + 1), w1)
     | Some (r, st, x) \<Rightarrow>
         if st = ''error'' then
           ((case x of None \<Rightarrow> PollPanics | Some y \<Rightarrow> PollFailed (error_text y), k + 1), w1)
         else if st = ''complete'' then ((PollComplete r, k + 1), w1)
         else if x \<noteq> None \<and> st = [] \<and> IsPermanent (the x)
           then ((PollFailed (error_text (the x)), k + 1), w1)
         else poll_loop cl i D e (next_tick_after nxt (max (clock w) nxt)) (k + 1) w1)"
  using assms(2)
  by (subst poll_loop.simps, subst assms(1), unfold Let_def prod.case, subst if_not_P)
    (simp_all add: assms(3) split: option.splits)

lemma poll_loop_returns:
  assumes "\<And>v. wle w v \<Longrightarrow> fst (PollResult cl i (Some (D, e)) v) \<noteq> None"
  shows "fst (fst (poll_loop cl i D e nxt k w)) \<notin> {PollPanics, PollComplete None}"
  using assms
proof (induction "nat (max (clock w) D - nxt + 1)" arbitrary: nxt w k rule: less_induct)
  case (less nxt w k)
  let ?t = "max (clock w) nxt" and ?M = "max (clock w) D"
  obtain coin w0 where f: "flip_coin w = (coin, w0)" by fastforce
  show ?case
  proof (cases "?M < ?t \<or> (?M = ?t \<and> \<not> coin)")
    case True
    with f show ?thesis by (simp add: poll_loop.simps [of _ _ _ _ nxt])
  next
    case False
    let ?v = "w0\<lparr>clock := ?t\<rparr>"
    obtain ans w1 where p: "PollResult cl i (Some (D, e)) ?v = (ans, w1)" by fastforce
    have "nat (max (clock w1) D - next_tick_after nxt ?t + 1) < nat (?M - nxt + 1)"
      using False p [symmetric] by (intro poll_measure) auto
    note IH = less.hyps [OF this]
    have v: "wle w ?v" using flip_coin_facts [of w] f by (auto simp: wle_def)
    moreover have "wle ?v w1" using PollResult_ok [of ?v cl i "Some (D, e)"] p by (simp add: call_ok_def)
    ultimately have "wle w w1" by (rule wle_trans)
    with less.prems have IH: "fst (fst (poll_loop cl i D e (next_tick_after nxt ?t) (k + 1) w1)) \<notin> {PollPanics, PollComplete None}"
      by (intro IH) (blast intro: wle_trans)
    note step = poll_step [OF f False p]
    from p show ?thesis
    proof (cases rule: PollResult_cases)
      case Panic
      with less.prems [OF v] p show ?thesis by simp
    next
      case (Other x)
      then show ?thesis using IH by (cases "IsPermanent x") (simp_all add: step)
    qed (use IH in \<open>simp_all add: step\<close>)
  qed
qed

lemma processSCRA_returns:
  assumes "\<And>i ctx v. wle w v \<Longrightarrow> fst (PollResult (scraClient o0) i ctx v) \<noteq> None"
  shows "\<exists>o1 w1. processSCRA ctx c src o0 w = Finished o1 w1"
proof -
  have rep: "\<exists>o1 w1. scra_report src (o0\<lparr>scraCB := cb\<rparr>) i res n v = Finished o1 w1"
    if "poll_loop (scraClient o0) i D e nxt k u = ((res, n), v)" "wle w u" for cb i res n v D e nxt k u
    using poll_loop_returns [where cl = "scraClient o0" and i = i and D = D and e = e and nxt = nxt
        and k = k and w = u, OF assms [OF wle_trans [OF that(2)]]] that
    by (cases res) (auto simp: scra_report_def set_result_def)
  obtain allowed cb where a: "Allow (clock w) (scraCB o0) = (allowed, cb)" by fastforce
  obtain err n sid w2 where r: "retry_call ctx submitCfg (SubmitSearch (scraClient o0) (search_for c)) w = ((err, n, sid), w2)"
    by (metis prod.collapse)
  have "wle w w2" using retry_submit [OF r] by simp
  then show ?thesis
    using rep by (auto simp: processSCRA_def a r set_result_def Let_def split: option.splits prod.splits)
qed

lemma processProperty_decided:
  assumes "Allow (clock w) (propertyCB o0) = (True, cb)"
    and "decided_by DefaultRetryConfig
      (Fetch (propertyClient o0) (c_State c) (c_County c) (c_ParcelID c)) w k res w1"
  shows "processProperty Background c src o0 w =
    Finished (o0\<lparr>propertyCB := decided_breaker (clock w1) res cb,
      store := snd (SetSourceResult (clock w1)
        (decided_result src (\<lambda>r. Some (enc_property r)) k res) (store o0))\<rparr>) w1"
  using decided_retry [OF assms(2)]
  by (simp add: processProperty_def assms(1) set_result_def decided_breaker_def decided_result_def
      enc_ptr_def split: sum.splits)

lemma processCourt_decided:
  assumes "Allow (clock w) (courtCB o0) = (True, cb)" "c_CourtCaseNumber c = Some number"
    and "Wait (fst (flip_coin w)) Background (clock w) (courtLimiter o0) = (Granted t, rl)"
    and "decided_by DefaultRetryConfig (Search (courtClient o0) number)
      ((snd (flip_coin w))\<lparr>clock := t\<rparr>) k res w1"
  shows "processCourt Background c src o0 w =
    Finished (o0\<lparr>courtCB := decided_breaker (clock w1) res cb, courtLimiter := rl,
      store := snd (SetSourceResult (clock w1)
        (decided_result src (map_option enc_court) k res) (store o0))\<rparr>) w1"
proof -
  obtain coin w2 where f: "flip_coin w = (coin, w2)" by fastforce
  have w2: "clock w2 = clock w" using flip_coin_facts [of w] f by simp
  from assms(3) decided_retry [OF assms(4)] f
  have g: "Wait coin Background (clock w) (courtLimiter o0) = (Granted t, rl)"
    "retry_call Background DefaultRetryConfig (Search (courtClient o0) number) (w2\<lparr>clock := t\<rparr>) =
      ((case res of Inl e \<Rightarrow> (Some e, int k + 1, None) | Inr v \<Rightarrow> (None, int k + 1, Some v)), w1)"
    by simp_all
  show ?thesis
    using assms(2)
    by (simp add: processCourt_def assms(1) f w2 g set_result_def decided_breaker_def decided_result_def
        Let_def split: sum.splits)
qed

section \<open>A sample orchestrator\<close>

definition sample_orc :: Orchestrator where
  "sample_orc = NewOrchestrator sample_db (NewPropertyClient ''http://m'') (NewCourtClient ''http://m'')
     (NewSCRAClient ''http://m'') (NewCircuitBreaker ''property_records'' 5 (30 * Second))
     (NewCircuitBreaker ''court_records'' 5 (30 * Second)) (NewCircuitBreaker ''scra'' 5 (30 * Second))
     \<lparr>rl_interval = 500 * Millisecond, rl_next_tick = 500 * Millisecond, rl_tokens = 1, rl_stopped = False\<rparr>"

lemma sample_orc_simps [simp]:
  "store sample_orc = sample_db" "propertyCB sample_orc = NewCircuitBreaker ''property_records'' 5 (30 * Second)"
  "courtCB sample_orc = NewCircuitBreaker ''court_records'' 5 (30 * Second)"
  "scraCB sample_orc = NewCircuitBreaker ''scra'' 5 (30 * Second)"
  "rl_live (courtLimiter sample_orc)" "0 < rl_tokens (refill 0 (courtLimiter sample_orc))"
  by (simp_all add: sample_orc_def NewOrchestrator_def rl_live_def rl_inv_def)
    (subst refill.simps, simp add: Millisecond_def)

lemma Allow_closed [simp]: "Allow t (NewCircuitBreaker n m d) = (True, NewCircuitBreaker n m d)"
  by (simp add: Allow_def NewCircuitBreaker_def)

lemma call_service_NoReply:
  assumes "\<And>req. \<exists>d t b. net w (length (sent w)) req = NoReply d t b"
  shows "\<exists>e. fst (call_service ctx timeout req w) = Inl e"
proof -
  obtain d t b where n: "net w (length (sent w)) req = NoReply d t b" using assms by blast
  have "\<exists>e. fst (http_Do ctx timeout req w) = Inl e"
    by (simp add: http_Do_def n Let_def split: option.splits prod.splits)
  then show ?thesis by (auto simp: call_service_def split: option.splits prod.splits sum.splits)
qed

lemma PollResult_NoReply:
  assumes "\<And>req. \<exists>d t b. net w (length (sent w)) req = NoReply d t b"
  shows "keeps_polling (fst (PollResult cl i ctx w))"
proof -
  obtain e w1 where c: "call_service ctx scraHTTPTimeout (poll_request cl i) w = (Inl e, w1)"
    using call_service_NoReply [OF assms] by (metis prod.collapse)
  with call_service_transient [OF c] show ?thesis by (simp add: PollResult_def keeps_polling_def)
qed

lemma scripted_quiet:
  "wle ((scripted_world [])\<lparr>clock := t\<rparr>) v \<Longrightarrow> fst (PollResult cl i ctx v) \<noteq> None"
proof -
  assume w: "wle ((scripted_world [])\<lparr>clock := t\<rparr>) v"
  have "keeps_polling (fst (PollResult cl i ctx v))"
    by (rule PollResult_NoReply) (use w in \<open>auto simp: wle_def scripted_world_def\<close>)
  then show ?thesis by (cases "fst (PollResult cl i ctx v)") (auto simp: keeps_polling_def)
qed

lemma submit_keys: "lower_str ''searchId'' = ''searchid''" "lower_str ''status'' = ''status''"
  by code_simp+

definition accepted :: "string \<Rightarrow> http_response" where
  "accepted i = json_response 202 (JObj [(''searchId'', JStr i), (''status'', JStr ''pending'')])"

section \<open>Properties\<close>

text \<open>
  Claim C16. The property processor, behind a breaker that lets it through, fetches up to five
  times: transient failures are retried, and the first attempt that succeeds, is answered
  404, or is the fifth decides. The record of that attempt, or its error, is what the row and
  the breaker get, with the attempts added to the ones the row already had.
\<close>

theorem processProperty_reference:
  assumes "Allow (clock w) (propertyCB o0) = (True, cb)"
  shows "\<exists>k res w1.
    decided_by DefaultRetryConfig
      (Fetch (propertyClient o0) (c_State c) (c_County c) (c_ParcelID c)) w k res w1 \<and>
    processProperty Background c src o0 w =
      Finished (o0\<lparr>propertyCB := decided_breaker (clock w1) res cb,
        store := snd (SetSourceResult (clock w1)
          (decided_result src (\<lambda>r. Some (enc_property r)) k res) (store o0))\<rparr>) w1"
  using retry_call_reference [of DefaultRetryConfig
      "Fetch (propertyClient o0) (c_State c) (c_County c) (c_ParcelID c)" w]
    processProperty_decided [OF assms] by fastforce

theorem processProperty_reference_witness:
  "\<exists>k res w1.
    decided_by DefaultRetryConfig (Fetch (propertyClient sample_orc) ''TX'' ''Travis'' ''P1'')
      (scripted_world [Reply 0 (json_response 200 (enc_property zero_property))]) k res w1 \<and>
    processProperty Background sample_case (new_source ''s'' ''r'' SourcePropertyRecords) sample_orc
        (scripted_world [Reply 0 (json_response 200 (enc_property zero_property))]) =
      Finished (sample_orc\<lparr>propertyCB := decided_breaker (clock w1) res (propertyCB sample_orc),
        store := snd (SetSourceResult (clock w1)
          (decided_result (new_source ''s'' ''r'' SourcePropertyRecords)
             (\<lambda>r. Some (enc_property r)) k res) sample_db)\<rparr>) w1"
  using processProperty_reference [of "scripted_world [Reply 0 (json_response 200 (enc_property zero_property))]"
      sample_orc "propertyCB sample_orc" sample_case "new_source ''s'' ''r'' SourcePropertyRecords"]
  by (simp add: sample_case_def)

text \<open>
  Claim C27. The court processor first takes a token from the limiter, once, and only then
  searches, up to five times; no answer of the court service is permanent, so an error is
  always the error of the fifth attempt. No filing is a success without data.
\<close>

theorem processCourt_reference:
  assumes "Allow (clock w) (courtCB o0) = (True, cb)" and "rl_live (courtLimiter o0)"
    and "c_CourtCaseNumber c = Some number"
  shows "\<exists>t rl k res w1. clock w \<le> t \<and>
    Wait (fst (flip_coin w)) Background (clock w) (courtLimiter o0) = (Granted t, rl) \<and>
    decided_by DefaultRetryConfig (Search (courtClient o0) number)
      ((snd (flip_coin w))\<lparr>clock := t\<rparr>) k res w1 \<and>
    (\<forall>e. res = Inl e \<longrightarrow> k = 4) \<and>
    processCourt Background c src o0 w =
      Finished (o0\<lparr>courtCB := decided_breaker (clock w1) res cb, courtLimiter := rl,
        store := snd (SetSourceResult (clock w1)
          (decided_result src (map_option enc_court) k res) (store o0))\<rparr>) w1"
proof -
  let ?call = "Search (courtClient o0) number"
  obtain t rl where t: "Wait (fst (flip_coin w)) Background (clock w) (courtLimiter o0) = (Granted t, rl)"
      "clock w \<le> t"
    using rls.wait_granted [OF assms(2)] by metis
  obtain k res w1 where k: "decided_by DefaultRetryConfig ?call ((snd (flip_coin w))\<lparr>clock := t\<rparr>) k res w1"
    using retry_call_reference [of DefaultRetryConfig ?call "(snd (flip_coin w))\<lparr>clock := t\<rparr>"] by auto
  have "k = 4" if "res = Inl e" for e
    using k that Search_transient by (fastforce simp: decided_by_def)
  with k t processCourt_decided [OF assms(1,3) t(1) k] show ?thesis by blast
qed

theorem processCourt_reference_witness:
  "\<exists>t rl k res w1. 0 \<le> t \<and>
    Wait False Background 0 (courtLimiter sample_orc) = (Granted t, rl) \<and>
    decided_by DefaultRetryConfig (Search (courtClient sample_orc) ''CC1'')
      ((snd (flip_coin (scripted_world [])))\<lparr>clock := t\<rparr>) k res w1 \<and>
    (\<forall>e. res = Inl e \<longrightarrow> k = 4) \<and>
    processCourt Background sample_case (new_source ''s'' ''r'' SourceCourtRecords) sample_orc (scripted_world []) =
      Finished (sample_orc\<lparr>courtCB := decided_breaker (clock w1) res (courtCB sample_orc), courtLimiter := rl,
        store := snd (SetSourceResult (clock w1)
          (decided_result (new_source ''s'' ''r'' SourceCourtRecords) (map_option enc_court) k res) sample_db)\<rparr>) w1"
proof -
  have "clock (scripted_world []) = 0" "fst (flip_coin (scripted_world [])) = False"
    by (simp_all add: scripted_world_def flip_coin_def)
  with processCourt_reference [of "scripted_world []" sample_orc "courtCB sample_orc" sample_case "''CC1''"
      "new_source ''s'' ''r'' SourceCourtRecords"]
  show ?thesis by (simp add: sample_case_def)
qed

text \<open>
  Claim C37. A poll timeout is never reported to the circuit breaker. When the breaker was
  open and this lookup is its probe, and the search is accepted but no poll before the
  deadline decides it, the row fails with a timeout 30 seconds after the submission, and the
  breaker stays half-open: from then on it refuses every call, at any time.
\<close>

theorem scra_timeout_wedges_breaker:
  assumes "cb_state (scraCB o0) = CBOpen" "cooldown (scraCB o0) \<le> clock w - openedAt (scraCB o0)"
    and "decided_by submitCfg (SubmitSearch (scraClient o0) (search_for c)) w k (Inr i) w1"
    and "\<And>v. wle w1 v \<Longrightarrow> keeps_polling
      (fst (PollResult (scraClient o0) i (Some (clock w1 + 30 * Second, DeadlineExceeded)) v))"
  shows "\<exists>o1 w2 n. processSCRA Background c src o0 w = Finished o1 w2 \<and>
    clock w2 = clock w1 + 30 * Second \<and>
    store o1 = snd (SetSourceResult (clock w2) ((result_for src SourceStatusFailed n)
      \<lparr>p_ErrorMsg := Some ''poll timeout after 30 seconds'', p_SearchID := Some i\<rparr>) (store o0)) \<and>
    (\<forall>t. \<not> fst (Allow t (scraCB o1)))"
proof -
  have a: "Allow (clock w) (scraCB o0) = (True, (scraCB o0)\<lparr>cb_state := CBHalfOpen\<rparr>)"
    using assms(1,2) by (simp add: Allow_def)
  obtain n w2 where l: "poll_loop (scraClient o0) i (clock w1 + 30 * Second) DeadlineExceeded
      (clock w1 + 1 * Second) (Attempts src + (int k + 1)) w1 = ((PollTimeout, n), w2)"
    and w2: "clock w2 = max (clock w1) (clock w1 + 30 * Second)"
    using poll_loop_timeout [OF assms(4)] by blast
  from w2 have "clock w2 = clock w1 + 30 * Second" by simp
  moreover have "\<not> fst (Allow t ((scraCB o0)\<lparr>cb_state := CBHalfOpen\<rparr>))" for t by (simp add: Allow_def)
  ultimately show ?thesis using a l decided_retry [OF assms(3)]
    by (simp add: processSCRA_def scra_report_def set_result_def Let_def) blast
qed

theorem scra_timeout_wedges_breaker_witness:
  "\<exists>o1 w2 n. processSCRA Background sample_case (new_source ''s'' ''r'' SourceSCRA)
      (sample_orc\<lparr>scraCB := (NewCircuitBreaker ''scra'' 5 (30 * Second))\<lparr>cb_state := CBOpen\<rparr>\<rparr>)
      (scripted_world [Reply 0 (accepted ''S1'')]) = Finished o1 w2 \<and>
    clock w2 = 30 * Second \<and>
    store o1 = snd (SetSourceResult (clock w2) ((result_for (new_source ''s'' ''r'' SourceSCRA) SourceStatusFailed n)
      \<lparr>p_ErrorMsg := Some ''poll timeout after 30 seconds'', p_SearchID := Some ''S1''\<rparr>) sample_db) \<and>
    (\<forall>t. \<not> fst (Allow t (scraCB o1)))"
proof -
  let ?w = "scripted_world [Reply 0 (accepted ''S1'')]"
  let ?cl = "scraClient sample_orc"
  obtain w1 where w1: "SubmitSearch ?cl (search_for sample_case) Background ?w = (Inr ''S1'', w1)"
    "clock w1 = 0" "length (sent w1) = 1" "net w1 = net ?w"
    by (simp add: SubmitSearch_def call_service_def http_Do_def ReadAll_def scripted_world_def accepted_def
        json_response_def Let_def await_def scraHTTPTimeout_def Unmarshal_def dec_submit_def submit_field_def
        submit_keys)
  have d: "decided_by submitCfg (SubmitSearch ?cl (search_for sample_case)) ?w 0 (Inr ''S1'') w1"
    using w1(1) by (simp add: decided_by_def attempt_start_def)
  have "\<exists>d t b. net v (length (sent v)) req = NoReply d t b" if "wle w1 v" for v req
    using that w1(3,4) wle_sent [OF that] by (auto simp: wle_def scripted_world_def)
  then have "keeps_polling (fst (PollResult ?cl ''S1'' ctx v))" if "wle w1 v" for v ctx
    using that by (intro PollResult_NoReply) blast
  with scra_timeout_wedges_breaker [of
      "sample_orc\<lparr>scraCB := (NewCircuitBreaker ''scra'' 5 (30 * Second))\<lparr>cb_state := CBOpen\<rparr>\<rparr>" ?w
      sample_case 0 "''S1''" w1 "new_source ''s'' ''r'' SourceSCRA"] d w1(2)
  show ?thesis by (simp add: NewCircuitBreaker_def zero_time_def scripted_world_def Second_def Millisecond_def)
qed



text \<open>
  The processors come to an end: property records always, court records unless the
  limiter has been stopped, SCRA never waits for ever either, and it returns unless the
  service says \<^verbatim>\<open>"complete"\<close> without a result.
\<close>

theorem processors_return:
  "(\<exists>o1 w1. processProperty ctx c src o0 w = Finished o1 w1) \<and>
   (rl_live (courtLimiter o0) \<longrightarrow> c_CourtCaseNumber c \<noteq> None \<longrightarrow>
      (\<exists>o1 w1. processCourt ctx c src o0 w = Finished o1 w1)) \<and>
   processSCRA ctx c src o0 w \<noteq> Hangs \<and>
   ((\<forall>i ctx v. wle w v \<longrightarrow> fst (PollResult (scraClient o0) i ctx v) \<noteq> None) \<longrightarrow>
      (\<exists>o1 w1. processSCRA ctx c src o0 w = Finished o1 w1))"
proof -
  have "processSCRA ctx c src o0 w \<noteq> Hangs"
    by (simp add: processSCRA_def scra_report_def set_result_def Let_def split_beta
        split: option.splits poll_end.splits)
  moreover have "(\<exists>o1 w1. processCourt ctx c src o0 w = Finished o1 w1)"
    if "rl_live (courtLimiter o0)" "c_CourtCaseNumber c \<noteq> None"
    using that processCourt_returns by auto
  ultimately show ?thesis by (simp add: processProperty_returns processSCRA_returns)
qed

theorem processors_return_witness:
  "(\<exists>o1 w1. processCourt Background sample_case (new_source ''s'' ''r'' SourceCourtRecords)
       sample_orc (scripted_world []) = Finished o1 w1) \<and>
   (\<exists>o1 w1. processSCRA Background sample_case (new_source ''s'' ''r'' SourceCourtRecords)
       sample_orc (scripted_world []) = Finished o1 w1)"
proof -
  have "fst (PollResult (scraClient sample_orc) i ctx v) \<noteq> None" if "wle (scripted_world []) v" for i ctx v
    by (rule scripted_quiet [of 0]) (use that in \<open>simp add: scripted_world_def\<close>)
  then show ?thesis
    using processors_return [of Background sample_case "new_source ''s'' ''r'' SourceCourtRecords"
      sample_orc "scripted_world []"]
    by (simp add: sample_case_def)
qed

text \<open>
  A poll that is answered \<^verbatim>\<open>"complete"\<close> without a result ends the gateway: the
  client dereferences the missing result for its log line, and nothing recovers the panic.
\<close>

theorem scra_complete_without_result_panics:
  "processSCRA Background sample_case (new_source ''s'' ''r'' SourceSCRA) sample_orc
     (scripted_world [Reply 0 (accepted ''S1''),
        Reply 0 (json_response 200 (JObj [(''status'', JStr ''complete'')]))]) = Panics"
proof -
  let ?w = "scripted_world [Reply 0 (accepted ''S1''),
    Reply 0 (json_response 200 (JObj [(''status'', JStr ''complete'')]))]"
  let ?cl = "scraClient sample_orc"
  obtain w1 where w1: "SubmitSearch ?cl (search_for sample_case) Background ?w = (Inr ''S1'', w1)"
    "clock w1 = 0" "length (sent w1) = 1" "net w1 = net ?w" "url_error w1 = url_error ?w" "coins w1 = coins ?w"
    by (simp add: SubmitSearch_def call_service_def http_Do_def ReadAll_def scripted_world_def accepted_def
        json_response_def Let_def await_def scraHTTPTimeout_def Unmarshal_def dec_submit_def submit_field_def
        submit_keys)
  have d: "decided_by submitCfg (SubmitSearch ?cl (search_for sample_case)) ?w 0 (Inr ''S1'') w1"
    using w1(1) by (simp add: decided_by_def attempt_start_def)
  let ?v = "(snd (flip_coin w1))\<lparr>clock := Second\<rparr>"
  have "fst (PollResult ?cl ''S1'' (Some (30 * Second, DeadlineExceeded)) ?v) = None"
    using w1
    by (simp add: PollResult_def call_service_def http_Do_def ReadAll_def scripted_world_def flip_coin_def
        json_response_def Let_def await_def scraHTTPTimeout_def Unmarshal_def dec_poll_def poll_field_def
        submit_keys WithTimeout_def ctx_Err_def zero_poll_def)
  then have "fst (poll_loop ?cl ''S1'' (30 * Second) DeadlineExceeded Second 1 w1) = (PollPanics, 2)"
    using w1(2)
    by (subst poll_loop.simps) (simp add: Let_def split_beta split: option.splits)
  with decided_retry [OF d] w1(2) show ?thesis
    by (simp add: processSCRA_def scra_report_def Let_def split_beta new_source_def split: prod.splits)
qed

end
