(* ===== verification/Orchestrator.thy ===== *)
theory Orchestrator
  imports SourceProcess
begin

text \<open>
  The orchestrator, \<^verbatim>\<open>backend/internal/lookup/orchestrator.go\<close>: triggering a lookup, reading
  its status, running it, and computing the overall status of a run. The goroutine that
  \<^verbatim>\<open>go o.runLookup(...)\<close> starts is part of the result of \<open>TriggerLookup\<close>; \<open>runLookup\<close> is
  what it does. Log lines are left out.
\<close>

section \<open>Overall status\<close>

text \<open>The loop over the sources, with its counters \<open>(applicable, succeeded, failed)\<close>.\<close>

fun status_loop :: "'d lookup_source list \<Rightarrow> int \<times> int \<times> int \<Rightarrow> int \<times> int \<times> int" where
  "status_loop [] (applicable, succeeded, failed) = (applicable, succeeded, failed)"
| "status_loop (s # ss) (applicable, succeeded, failed) =
     (if src_Status s = SourceStatusNotApplicable then status_loop ss (applicable, succeeded, failed)
      else if src_Status s = SourceStatusSuccess then
        status_loop ss (applicable + 1, succeeded + 1, failed)
      else if src_Status s = SourceStatusFailed then
        status_loop ss (applicable + 1, succeeded, failed + 1)
      else status_loop ss (applicable + 1, succeeded, failed))"

definition computeOverallStatus :: "'d lookup_source list \<Rightarrow> string" where
  "computeOverallStatus sources =
     (let (applicable, succeeded, failed) = status_loop sources (0, 0, 0) in
      if applicable = 0 \<or> succeeded = applicable then StatusComplete
      else if failed = applicable then StatusFailed
      else StatusPartial)"

section \<open>Public operations\<close>

record LookupResult =
  lr_Case :: case_row
  lr_Run :: "lookup_run option"
  lr_Sources :: "source_row list"

text \<open>
  The result, the HTTP code, and the arguments of the goroutine that was started, if any. A
  run whose status is none of the four constants falls out of the switch and ends up in
  \<^verbatim>\<open>CreateLookupRun\<close>, like a case without a run.
\<close>

type_synonym trigger_out = "LookupResult \<times> int \<times> (case_row \<times> lookup_run) option"

definition start_run :: "time \<Rightarrow> string \<Rightarrow> case_row \<Rightarrow> db \<Rightarrow> (goerr + trigger_out) \<times> db" where
  "start_run now caseID c d =
     (case CreateLookupRun now caseID d of
        (Inl err, d1) \<Rightarrow> (Inl (wrap_ctx ''create lookup run'' err), d1)
      | (Inr (run, sources), d1) \<Rightarrow>
          (Inr (\<lparr>lr_Case = c, lr_Run = Some run, lr_Sources = sources\<rparr>, 202, Some (c, run)), d1))"

definition retrigger ::
  "time \<Rightarrow> case_row \<Rightarrow> lookup_run \<Rightarrow> source_row list \<Rightarrow> db \<Rightarrow> (goerr + trigger_out) \<times> db"
where
  "retrigger now c run sources d =
     (case GetRetryableSources (run_ID run) d of
        (Inl err, d1) \<Rightarrow> (Inl (wrap_ctx ''get retryable sources'' err), d1)
      | (Inr retryable, d1) \<Rightarrow>
          if retryable = [] then
            (let (_, d2) = CompleteRun now (run_ID run) StatusComplete d1 in
             (Inr (\<lparr>lr_Case = c, lr_Run = Some (run\<lparr>run_Status := StatusComplete\<rparr>),
                    lr_Sources = sources\<rparr>, 200, None), d2))
          else
            (case ResetSourcesToPending (map src_ID retryable) d1 of
               (Some err, d2) \<Rightarrow> (Inl (wrap_ctx ''reset sources'' err), d2)
             | (None, d2) \<Rightarrow>
                 (case ResetRunToPending (run_ID run) d2 of
                    (Some err, d3) \<Rightarrow> (Inl (wrap_ctx ''reset run'' err), d3)
                  | (None, d3) \<Rightarrow>
                      (let run1 = run\<lparr>run_Status := StatusPending\<rparr>;
                           (res, d4) = GetSourcesByRunID (run_ID run1) d3;
                           sources1 = (case res of Inl _ \<Rightarrow> [] | Inr ss \<Rightarrow> ss) in
                       (Inr (\<lparr>lr_Case = c, lr_Run = Some run1, lr_Sources = sources1\<rparr>, 202,
                             Some (c, run1)), d4)))))"

definition TriggerLookup :: "time \<Rightarrow> string \<Rightarrow> db \<Rightarrow> (goerr + trigger_out) \<times> db" where
  "TriggerLookup now caseID d =
     (case GetCaseByID caseID d of
        (Inl err, d1) \<Rightarrow> (Inl (wrap_ctx ''get case'' err), d1)
      | (Inr None, d1) \<Rightarrow> (Inl (ErrorString (''case '' @ caseID @ '' not found'')), d1)
      | (Inr (Some c), d1) \<Rightarrow>
          (case GetLookupRunByCaseID caseID d1 of
             (Inl err, d2) \<Rightarrow> (Inl (wrap_ctx ''get lookup run'' err), d2)
           | (Inr None, d2) \<Rightarrow> start_run now caseID c d2
           | (Inr (Some run), d2) \<Rightarrow>
               (case GetSourcesByRunID (run_ID run) d2 of
                  (Inl err, d3) \<Rightarrow> (Inl (wrap_ctx ''get sources'' err), d3)
                | (Inr sources, d3) \<Rightarrow>
                    if run_Status run = StatusComplete \<or> run_Status run = StatusPending then
                      (Inr (\<lparr>lr_Case = c, lr_Run = Some run, lr_Sources = sources\<rparr>, 200, None), d3)
                    else if run_Status run = StatusPartial \<or> run_Status run = StatusFailed then
                      retrigger now c run sources d3
                    else start_run now caseID c d3)))"

definition GetStatus :: "string \<Rightarrow> db \<Rightarrow> (goerr + LookupResult) \<times> db" where
  "GetStatus caseID d =
     (case GetCaseByID caseID d of
        (Inl err, d1) \<Rightarrow> (Inl (wrap_ctx ''get case'' err), d1)
      | (Inr None, d1) \<Rightarrow> (Inl (ErrorString (''case '' @ caseID @ '' not found'')), d1)
      | (Inr (Some c), d1) \<Rightarrow>
          (case GetLookupRunByCaseID caseID d1 of
             (Inl err, d2) \<Rightarrow> (Inl (wrap_ctx ''get lookup run'' err), d2)
           | (Inr None, d2) \<Rightarrow> (Inr \<lparr>lr_Case = c, lr_Run = None, lr_Sources = []\<rparr>, d2)
           | (Inr (Some run), d2) \<Rightarrow>
               (case GetSourcesByRunID (run_ID run) d2 of
                  (Inl err, d3) \<Rightarrow> (Inl (wrap_ctx ''get sources'' err), d3)
                | (Inr sources, d3) \<Rightarrow>
                    (Inr \<lparr>lr_Case = c, lr_Run = Some run, lr_Sources = sources\<rparr>, d3))))"

section \<open>The lookup goroutine\<close>

text \<open>
  The sources of a run are processed at the same time, each goroutine on its own timeline
  that starts at \<open>now\<close> (\<open>ws\<close> gives the world each one sees). They share nothing but the
  database, to which each sends one statement, so what they do together is what they do one
  after the other in the order of these statements; that order is the argument \<open>sched\<close>.
\<close>

datatype run_out = RunDone Orchestrator time | RunPanics | RunHangs

primrec process_all ::
  "case_row \<Rightarrow> (string \<Rightarrow> world) \<Rightarrow> time \<Rightarrow> source_row list \<Rightarrow> Orchestrator \<Rightarrow> time \<Rightarrow> run_out"
where
  "process_all c ws now [] o0 t = RunDone o0 t"
| "process_all c ws now (s # ss) o0 t =
     (case processSource Background c s o0 ((ws (src_ID s))\<lparr>clock := now\<rparr>) of
        Finished o1 w1 \<Rightarrow> process_all c ws now ss o1 (max t (clock w1))
      | Panics \<Rightarrow> RunPanics
      | Hangs \<Rightarrow> RunHangs)"

definition unresolved :: "source_row \<Rightarrow> bool" where
  "unresolved s \<longleftrightarrow>
     \<not> (src_Status s = SourceStatusNotApplicable \<or> src_Status s = SourceStatusSuccess)"

definition runLookup ::
  "(source_row list \<Rightarrow> source_row list) \<Rightarrow> (string \<Rightarrow> world) \<Rightarrow> time \<Rightarrow> case_row \<Rightarrow> lookup_run \<Rightarrow>
     Orchestrator \<Rightarrow> run_out"
where
  "runLookup sched ws now c run o0 =
     (case GetSourcesByRunID (run_ID run) (store o0) of
        (Inl err, d) \<Rightarrow> RunDone (o0\<lparr>store := d\<rparr>) now
      | (Inr sources, d) \<Rightarrow>
          (case process_all c ws now (sched (filter unresolved sources)) (o0\<lparr>store := d\<rparr>) now of
             RunPanics \<Rightarrow> RunPanics
           | RunHangs \<Rightarrow> RunHangs
           | RunDone o1 t \<Rightarrow>
               (let (res, d1) = GetSourcesByRunID (run_ID run) (store o1);
                    sources1 = (case res of Inl _ \<Rightarrow> [] | Inr ss \<Rightarrow> ss);
                    overall = computeOverallStatus sources1;
                    (_, d2) = CompleteRun t (run_ID run) overall d1 in
                RunDone (o1\<lparr>store := d2\<rparr>) t)))"

section \<open>The overall status, by cases\<close>

lemma status_loop_eq:
  "status_loop ss (a, b, f) =
     (a + int (length (filter (\<lambda>s. src_Status s \<noteq> SourceStatusNotApplicable) ss)),
      b + int (length (filter (\<lambda>s. src_Status s = SourceStatusSuccess) ss)),
      f + int (length (filter (\<lambda>s. src_Status s = SourceStatusFailed) ss)))"
  by (induction ss arbitrary: a b f) auto

lemma length_filter_eq:
  assumes "\<And>x. Q x \<Longrightarrow> P x"
  shows "length (filter Q xs) = length (filter P xs) \<longleftrightarrow> (\<forall>x \<in> set xs. P x \<longrightarrow> Q x)"
proof -
  have le: "length (filter Q xs) \<le> length (filter P xs)" for xs
    using assms by (induction xs) auto
  show ?thesis
  proof (induction xs)
    case (Cons x xs)
    then show ?case using assms [of x] le [of xs] by (cases "P x"; cases "Q x") auto
  qed simp
qed

lemma computeOverallStatus_eq:
  "computeOverallStatus ss =
     (if \<forall>s \<in> set ss. src_Status s \<in> {SourceStatusNotApplicable, SourceStatusSuccess} then StatusComplete
      else if \<forall>s \<in> set ss. src_Status s \<in> {SourceStatusNotApplicable, SourceStatusFailed} then StatusFailed
      else StatusPartial)"
proof -
  let ?n = "\<lambda>P. length (filter (\<lambda>s. P (src_Status s)) ss)"
  have "?n (\<lambda>x. x = SourceStatusSuccess) = ?n (\<lambda>x. x \<noteq> SourceStatusNotApplicable) \<longleftrightarrow>
      (\<forall>s \<in> set ss. src_Status s \<in> {SourceStatusNotApplicable, SourceStatusSuccess})"
    by (subst length_filter_eq) auto
  moreover have "?n (\<lambda>x. x = SourceStatusFailed) = ?n (\<lambda>x. x \<noteq> SourceStatusNotApplicable) \<longleftrightarrow>
      (\<forall>s \<in> set ss. src_Status s \<in> {SourceStatusNotApplicable, SourceStatusFailed})"
    by (subst length_filter_eq) auto
  moreover have "?n (\<lambda>x. x \<noteq> SourceStatusNotApplicable) = 0 \<Longrightarrow>
      \<forall>s \<in> set ss. src_Status s \<in> {SourceStatusNotApplicable, SourceStatusSuccess}"
    by (auto simp: filter_empty_conv)
  ultimately show ?thesis
    unfolding computeOverallStatus_def status_loop_eq Let_def prod.case by auto
qed

lemma computeOverallStatus_run_statuses: "computeOverallStatus ss \<in> run_statuses"
  by (simp add: computeOverallStatus_eq)

section \<open>Processing the sources of a run\<close>

lemma process_all_inv:
  assumes "process_all c ws now ss o0 t0 = RunDone o1 t" "rl_live (courtLimiter o0)" "db_inv (store o0)"
    and "\<forall>s \<in> set ss. src_Source s \<in> set source_names"
  shows "db_inv (store o1) \<and> rl_live (courtLimiter o1) \<and> t0 \<le> t"
  using assms
proof (induction ss arbitrary: o0 t0)
  case (Cons s ss)
  from Cons.prems(1) obtain o2 w2 where
    p: "processSource Background c s o0 ((ws (src_ID s))\<lparr>clock := now\<rparr>) = Finished o2 w2"
      "process_all c ws now ss o2 (max t0 (clock w2)) = RunDone o1 t"
    by (auto split: proc_out.splits)
  from dispatch.proc_inv [OF _ p(1)] Cons.prems have "db_inv (store o2)" "rl_live (courtLimiter o2)" by auto
  from Cons.IH [OF p(2) this(2,1)] Cons.prems(4) show ?case by auto
qed simp

lemma list_all2_right: "list_all2 P xs ys \<Longrightarrow> y \<in> set ys \<Longrightarrow> \<exists>x \<in> set xs. P x y"
  by (induction rule: list_all2_induct) auto

text \<open>What a list of results, each with its time, makes of the tables.\<close>

definition results_written :: "(time \<times> SetSourceResultParams) list \<Rightarrow> db \<Rightarrow> db \<Rightarrow> bool" where
  "results_written ps d d' \<longleftrightarrow>
     lookup_sources d' = fold write_result ps (lookup_sources d) \<and>
     lookup_runs d' = lookup_runs d \<and> same_server d d'"

lemma results_written_Cons:
  assumes "same_server d d1" "lookup_runs d1 = lookup_runs d"
    and "lookup_sources d1 = write_result q (lookup_sources d)" "results_written ps d1 d'"
  shows "results_written (q # ps) d d'"
  using assms by (auto simp: results_written_def intro: same_server_trans)

lemma process_all_healthy:
  assumes "process_all c ws now ss o0 t0 = RunDone o1 t" "rl_live (courtLimiter o0)" "healthy (store o0)"
    and "\<forall>s \<in> set ss. src_Source s \<in> set source_names"
  shows "\<exists>ps. list_all2 (\<lambda>s q. p_SourceID (snd q) = src_ID s \<and>
      p_Status (snd q) \<in> insert SourceStatusNotApplicable outcomes) ss ps \<and>
    results_written ps (store o0) (store o1)"
  using assms
proof (induction ss arbitrary: o0 t0)
  case Nil
  then show ?case by (simp add: results_written_def same_server_def)
next
  case (Cons s ss)
  from Cons.prems(1) obtain o2 w2 where
    p: "processSource Background c s o0 ((ws (src_ID s))\<lparr>clock := now\<rparr>) = Finished o2 w2"
      "process_all c ws now ss o2 (max t0 (clock w2)) = RunDone o1 t"
    by (auto split: proc_out.splits)
  from dispatch.proc_healthy [OF _ p(1)] Cons.prems obtain q where
    q: "resolves (insert SourceStatusNotApplicable outcomes) 33 s o0 ((ws (src_ID s))\<lparr>clock := now\<rparr>) q o2 w2"
      "healthy (store o2)" "same_server (store o0) (store o2)"
      "lookup_runs (store o2) = lookup_runs (store o0)"
      "lookup_sources (store o2) = write_result (clock w2, q) (lookup_sources (store o0))"
    by auto
  have "rl_live (courtLimiter o2)" using q(1) Cons.prems(2) by (simp add: resolves_def)
  from Cons.IH [OF p(2) this q(2)] Cons.prems(4) obtain ps where
    ps: "list_all2 (\<lambda>s q. p_SourceID (snd q) = src_ID s \<and>
        p_Status (snd q) \<in> insert SourceStatusNotApplicable outcomes) ss ps"
      "results_written ps (store o2) (store o1)" by auto
  show ?case
    using ps q results_written_Cons [OF q(3-5) ps(2)]
    by (intro exI [of _ "(clock w2, q) # ps"]) (auto simp: resolves_def)
qed

text \<open>The rows after a batch of results: one result each for the rows addressed.\<close>

lemma fold_write_result:
  assumes "distinct (map (\<lambda>q. p_SourceID (snd q)) ps)"
  shows "fold write_result ps rows =
    map (\<lambda>s. case find (\<lambda>q. p_SourceID (snd q) = src_ID s) ps of
           None \<Rightarrow> s | Some q \<Rightarrow> result_row (fst q) (snd q) s) rows"
  using assms
proof (induction ps arbitrary: rows)
  case (Cons q ps)
  have none: "find (\<lambda>x. p_SourceID (snd x) = p_SourceID (snd q)) ps = None"
    using Cons.prems by (auto simp: find_None_iff intro: rev_image_eqI)
  with Cons show ?case
    by (auto simp: write_result_def update_where_def intro!: map_cong split: option.splits)
qed simp

lemma map_find_updates:
  assumes "distinct (map src_ID rows)" "set ss \<subseteq> set rows"
    and "map (\<lambda>q. p_SourceID (snd q)) ps = map src_ID ss" "s \<in> set rows"
  shows "find (\<lambda>q. p_SourceID (snd q) = src_ID s) ps = None \<longleftrightarrow> s \<notin> set ss"
proof -
  have "find (\<lambda>q. p_SourceID (snd q) = src_ID s) ps = None \<longleftrightarrow>
      src_ID s \<notin> set (map (\<lambda>q. p_SourceID (snd q)) ps)"
    unfolding find_None_iff set_map by (metis imageE imageI)
  also have "\<dots> \<longleftrightarrow> s \<notin> set ss"
    using assms by (auto simp: distinct_map inj_on_def)
  finally show ?thesis .
qed

section \<open>A run from start to end\<close>

lemma runLookup_inv:
  assumes "runLookup sched ws now c run o0 = RunDone o1 t" "rl_live (courtLimiter o0)" "db_inv (store o0)"
    and "\<And>ss. mset (sched ss) = mset ss"
    and "\<forall>s \<in> set (lookup_sources (store o0)). src_Source s \<in> set source_names"
  shows "db_inv (store o1) \<and> rl_live (courtLimiter o1) \<and> now \<le> t"
proof -
  obtain res d where g: "GetSourcesByRunID (run_ID run) (store o0) = (res, d)" by fastforce
  have d: "same_tables (store o0) d" using read_same_tables(4) [of "store o0" "run_ID run"] by (simp add: g)
  then have inv: "db_inv d" using assms(3) by (simp add: db_inv_same_tables)
  show ?thesis
  proof (cases res)
    case (Inl e)
    with assms(1,2) g inv show ?thesis by (auto simp: runLookup_def)
  next
    case (Inr ss)
    have "set ss \<subseteq> set (lookup_sources (store o0))"
      using g Inr by (auto simp: GetSourcesByRunID_def db_query_def Let_def sources_of_def
        split: rows_out.splits if_splits dest: in_set_takeD)
    moreover have "set (sched (filter unresolved ss)) = set (filter unresolved ss)"
      using assms(4) by (metis set_mset_mset)
    ultimately have names: "\<forall>s \<in> set (sched (filter unresolved ss)). src_Source s \<in> set source_names"
      using assms(5) by auto
    from assms(1) g Inr obtain o2 where
      p: "process_all c ws now (sched (filter unresolved ss)) (o0\<lparr>store := d\<rparr>) now = RunDone o2 t"
      and o1: "o1 = o2\<lparr>store := snd (CompleteRun t (run_ID run) (computeOverallStatus
        (case fst (GetSourcesByRunID (run_ID run) (store o2)) of Inl _ \<Rightarrow> [] | Inr xs \<Rightarrow> xs)) (snd (GetSourcesByRunID (run_ID run) (store o2))))\<rparr>"
      by (auto simp: runLookup_def Let_def split_beta split: run_out.splits)
    from process_all_inv [OF p] assms(2) inv names
    have "db_inv (store o2)" "rl_live (courtLimiter o2)" "now \<le> t" by auto
    moreover from this(1) have "db_inv (snd (GetSourcesByRunID (run_ID run) (store o2)))"
      using read_same_tables(4) [of "store o2" "run_ID run"] db_inv_same_tables by blast
    ultimately show ?thesis using o1 computeOverallStatus_run_statuses by (auto intro!: CompleteRun_inv)
  qed
qed

lemma source_names_inv:
  assumes "db_inv d" "s \<in> set (lookup_sources d)"
  shows "src_Source s \<in> set source_names"
proof -
  from assms obtain r where r: "r \<in> set (lookup_runs d)" "run_ID r = src_RunID s"
    by (auto simp: db_inv_def)
  then have "map src_Source (sources_of (src_RunID s) d) = source_names"
    using assms(1) by (auto simp: db_inv_def)
  moreover have "s \<in> set (sources_of (src_RunID s) d)" using assms(2) by (simp add: sources_of_def)
  ultimately show ?thesis by (metis image_eqI set_map)
qed

lemma computeOverallStatus_mset:
  "set ss = set ss' \<Longrightarrow> computeOverallStatus ss = computeOverallStatus ss'"
  by (simp add: computeOverallStatus_eq)

text \<open>The sources a lookup processes, in any order of its goroutines.\<close>

lemma todo_rows:
  fixes i :: string
  assumes "distinct (map src_ID (lookup_sources d))" "\<And>ss. mset (sched ss) = mset ss"
  defines "todo \<equiv> sched (filter unresolved (sort_key src_Source (sources_of i d)))"
  shows "set todo = {s \<in> set (lookup_sources d). src_RunID s = i \<and> unresolved s}" "distinct (map src_ID todo)"
proof -
  have m: "mset todo = mset (filter unresolved (sources_of i d))" unfolding todo_def using assms(2) by simp
  then have "set todo = set (filter unresolved (sources_of i d))" by (metis set_mset_mset)
  then show "set todo = {s \<in> set (lookup_sources d). src_RunID s = i \<and> unresolved s}" by (auto simp: sources_of_def)
  have "distinct (map src_ID (filter unresolved (sources_of i d)))"
    using assms(1) by (simp add: sources_of_def distinct_map_filter)
  moreover have "mset (map src_ID todo) = mset (map src_ID (filter unresolved (sources_of i d)))"
    using m by simp
  ultimately show "distinct (map src_ID todo)" by (metis mset_eq_imp_distinct_iff)
qed

text \<open>
  What a lookup writes on a healthy database, given what its processors write: \<open>Q s p\<close> relates
  a source to the result \<open>p\<close> its processor has for it.
\<close>

lemma runLookup_rows:
  assumes "runLookup sched ws now c run o0 = RunDone o1 t" "db_inv (store o0)"
    and "healthy (store o0)" and sched: "\<And>ss. mset (sched ss) = mset ss"
    and all: "\<forall>ss o2 t.
      set ss = {s \<in> set (lookup_sources (store o0)). src_RunID s = run_ID run \<and> unresolved s} \<and>
      distinct (map src_ID ss) \<and>
      process_all c ws now ss (o0\<lparr>store := next_stmt (store o0)\<rparr>) now = RunDone o2 t \<longrightarrow>
      (\<exists>ps. list_all2 (\<lambda>s q. p_SourceID (snd q) = src_ID s \<and> Q s (snd q)) ss ps \<and>
        results_written ps (next_stmt (store o0)) (store o2))"
  shows "\<exists>f. lookup_sources (store o1) = map f (lookup_sources (store o0)) \<and>
    (\<forall>s \<in> set (lookup_sources (store o0)).
       if src_RunID s = run_ID run \<and> unresolved s
       then \<exists>u p. f s = result_row u p s \<and> Q s p else f s = s) \<and>
    lookup_runs (store o1) = update_where (\<lambda>r. run_ID r = run_ID run)
      (\<lambda>r. r\<lparr>run_Status := computeOverallStatus (sources_of (run_ID run) (store o1)),
              CompletedAt := Some t\<rparr>) (lookup_runs (store o0)) \<and>
    same_server (store o0) (store o1)"
proof -
  let ?rows = "lookup_sources (store o0)" and ?i = "run_ID run"
  let ?ss = "sched (filter unresolved (sort_key src_Source (sources_of ?i (store o0))))"
  have dist: "distinct (map src_ID ?rows)" using assms(2) by (simp add: db_inv_def)
  have set_ss: "set ?ss = {s \<in> set ?rows. src_RunID s = ?i \<and> unresolved s}" and dss: "distinct (map src_ID ?ss)"
    using todo_rows [OF dist sched, of ?i] by simp_all
  from assms(1,3) obtain o2 where
    p: "process_all c ws now ?ss (o0\<lparr>store := next_stmt (store o0)\<rparr>) now = RunDone o2 t"
    by (auto simp: runLookup_def healthy_reads split: run_out.splits prod.splits)
  from all set_ss dss p obtain ps where
    Q: "list_all2 (\<lambda>s q. p_SourceID (snd q) = src_ID s \<and> Q s (snd q)) ?ss ps"
    and ps: "results_written ps (next_stmt (store o0)) (store o2)" by blast
  have ids: "map (\<lambda>q. p_SourceID (snd q)) ps = map src_ID ?ss"
    using Q by (induction rule: list_all2_induct) auto
  have ps: "lookup_sources (store o2) = fold write_result ps ?rows"
      "lookup_runs (store o2) = lookup_runs (store o0)" "same_server (store o0) (store o2)"
    using ps by (simp_all add: results_written_def same_server_def)
  then have h2: "healthy (store o2)" using assms(3) healthy_same_server by blast
  have o1: "store o1 = update_run ?i (\<lambda>r. r\<lparr>run_Status := computeOverallStatus (sources_of ?i (store o2)),
      CompletedAt := Some t\<rparr>) (next_stmt (next_stmt (store o2)))"
    using assms(1,3) p h2 computeOverallStatus_mset [of "sort_key src_Source (sources_of ?i (store o2))"]
    by (auto simp: runLookup_def healthy_reads healthy_writes)
  define f where "f s = (case find (\<lambda>q. p_SourceID (snd q) = src_ID s) ps of
      None \<Rightarrow> s | Some q \<Rightarrow> result_row (fst q) (snd q) s)" for s
  have f: "lookup_sources (store o2) = map f ?rows"
    using dss ids ps(1) by (simp add: fold_write_result f_def [abs_def])
  have "if src_RunID s = ?i \<and> unresolved s then \<exists>u p. f s = result_row u p s \<and> Q s p else f s = s"
    if s: "s \<in> set ?rows" for s
  proof (cases "find (\<lambda>q. p_SourceID (snd q) = src_ID s) ps")
    case None
    with map_find_updates [OF dist _ ids s] s have "\<not> (src_RunID s = ?i \<and> unresolved s)" by (auto simp: set_ss)
    then show ?thesis by (subst if_not_P) (simp_all add: f_def None)
  next
    case (Some q)
    then have q: "q \<in> set ps" "p_SourceID (snd q) = src_ID s" using find_SomeD by fastforce+
    from list_all2_right [OF Q q(1)]
    obtain s' where s': "s' \<in> set ?ss" "p_SourceID (snd q) = src_ID s'" "Q s' (snd q)" by blast
    have "s' = s" using s s' q(2) dist unfolding set_ss by (auto simp: distinct_map inj_on_def)
    with s' Some show ?thesis unfolding set_ss by (auto simp: f_def)
  qed
  moreover have "lookup_sources (store o1) = map f ?rows" using o1 f by simp
  moreover have "lookup_runs (store o1) = update_where (\<lambda>r. run_ID r = ?i)
      (\<lambda>r. r\<lparr>run_Status := computeOverallStatus (sources_of ?i (store o1)), CompletedAt := Some t\<rparr>)
      (lookup_runs (store o0))"
    using o1 ps(2) by simp
  moreover have "same_server (store o0) (store o1)" using o1 ps(3) by (simp add: same_server_def)
  ultimately show ?thesis by blast
qed

text \<open>
  What a lookup leaves behind on a healthy database: unresolved sources of the run have a
  terminal result, all other rows are as they were, the run has the status of its sources.
\<close>

lemma runLookup_healthy:
  assumes "runLookup sched ws now c run o0 = RunDone o1 t" "rl_live (courtLimiter o0)" "db_inv (store o0)"
    and "healthy (store o0)" and sched: "\<And>ss. mset (sched ss) = mset ss"
  shows "\<exists>f. lookup_sources (store o1) = map f (lookup_sources (store o0)) \<and>
    (\<forall>s \<in> set (lookup_sources (store o0)).
       src_RunID (f s) = src_RunID s \<and>
       (if src_RunID s = run_ID run \<and> unresolved s
        then src_Status (f s) \<in> insert SourceStatusNotApplicable outcomes else f s = s)) \<and>
    lookup_runs (store o1) = update_where (\<lambda>r. run_ID r = run_ID run)
      (\<lambda>r. r\<lparr>run_Status := computeOverallStatus (sources_of (run_ID run) (store o1)),
              CompletedAt := Some t\<rparr>) (lookup_runs (store o0)) \<and>
    same_server (store o0) (store o1)"
proof -
  have "\<forall>ss o2 t.
      set ss = {s \<in> set (lookup_sources (store o0)). src_RunID s = run_ID run \<and> unresolved s} \<and>
      distinct (map src_ID ss) \<and>
      process_all c ws now ss (o0\<lparr>store := next_stmt (store o0)\<rparr>) now = RunDone o2 t \<longrightarrow>
      (\<exists>ps. list_all2 (\<lambda>s q. p_SourceID (snd q) = src_ID s \<and>
          p_Status (snd q) \<in> insert SourceStatusNotApplicable outcomes) ss ps \<and>
        results_written ps (next_stmt (store o0)) (store o2))"
  proof (intro allI impI, elim conjE)
    fix ss o2 t
    assume ss: "set ss = {s \<in> set (lookup_sources (store o0)). src_RunID s = run_ID run \<and> unresolved s}"
      and p: "process_all c ws now ss (o0\<lparr>store := next_stmt (store o0)\<rparr>) now = RunDone o2 t"
    show "\<exists>ps. list_all2 (\<lambda>s q. p_SourceID (snd q) = src_ID s \<and>
          p_Status (snd q) \<in> insert SourceStatusNotApplicable outcomes) ss ps \<and>
        results_written ps (next_stmt (store o0)) (store o2)"
      using process_all_healthy [OF p] ss source_names_inv [OF assms(3)] assms(2,4) by auto
  qed
  note rows = runLookup_rows [where Q = "\<lambda>s p. p_Status p \<in> insert SourceStatusNotApplicable outcomes",
      OF assms(1,3,4) sched this]
  have weaken: "src_RunID (f s) = src_RunID s \<and> (if src_RunID s = run_ID run \<and> unresolved s
      then src_Status (f s) \<in> insert SourceStatusNotApplicable outcomes else f s = s)"
    if "if src_RunID s = run_ID run \<and> unresolved s
        then \<exists>u p. f s = result_row u p s \<and> p_Status p \<in> insert SourceStatusNotApplicable outcomes
        else f s = s" for f s
    using that by (cases "src_RunID s = run_ID run \<and> unresolved s") auto
  from rows show ?thesis
    by (elim exE conjE) (rule exI, intro conjI, (assumption | (rule ballI, rule weaken, erule (1) bspec))+)
qed

section \<open>Triggering\<close>

definition trigger_ok :: "(goerr + trigger_out) \<times> db \<Rightarrow> bool" where
  "trigger_ok x \<longleftrightarrow> db_inv (snd x) \<and>
    (case fst x of
       Inl e \<Rightarrow> True
     | Inr (res, code, l) \<Rightarrow> code \<in> {200, 202} \<and> (code = 202 \<longleftrightarrow> l \<noteq> None) \<and> lr_Run res \<noteq> None)"

lemma trigger_ok_simps [simp]:
  "trigger_ok (Inl e, d) = db_inv d"
  "trigger_ok (Inr (res, code, l), d) =
    (db_inv d \<and> code \<in> {200, 202} \<and> (code = 202 \<longleftrightarrow> l \<noteq> None) \<and> lr_Run res \<noteq> None)"
  by (simp_all add: trigger_ok_def)

lemma start_run_ok: "db_inv d \<Longrightarrow> trigger_ok (start_run now i c d)"
  using CreateLookupRun_inv [of d now i] by (auto simp: start_run_def split: prod.splits sum.splits)

lemma retrigger_ok:
  assumes "db_inv d"
  shows "trigger_ok (retrigger now c r ss d)"
proof -
  obtain res d1 where g: "GetRetryableSources (run_ID r) d = (res, d1)" by fastforce
  have i1: "db_inv d1" using read_same_tables(5) [of d "run_ID r"] assms by (simp add: g db_inv_same_tables)
  show ?thesis
  proof (cases res)
    case (Inr xs)
    obtain e2 d2 where rs: "ResetSourcesToPending (map src_ID xs) d1 = (e2, d2)" by fastforce
    have i2: "db_inv d2" using ResetSourcesToPending_inv [OF i1, of "map src_ID xs"] by (simp add: rs)
    obtain e3 d3 where rr: "ResetRunToPending (run_ID r) d2 = (e3, d3)" by fastforce
    have i3: "db_inv d3" using ResetRunToPending_inv [OF i2, of "run_ID r"] by (simp add: rr)
    obtain y d4 where gs: "GetSourcesByRunID (run_ID r) d3 = (y, d4)" by fastforce
    have i4: "db_inv d4" using read_same_tables(4) [of d3 "run_ID r"] i3 by (simp add: gs db_inv_same_tables)
    show ?thesis
      using i1 i2 i3 i4 Inr CompleteRun_inv [OF i1, of StatusComplete now "run_ID r"]
      by (cases e2; cases e3) (auto simp: retrigger_def g rs rr gs Let_def split: prod.splits)
  qed (simp add: retrigger_def g i1)
qed

lemma TriggerLookup_ok:
  assumes "db_inv d"
  shows "trigger_ok (TriggerLookup now i d)"
proof -
  obtain x1 d1 where g1: "GetCaseByID i d = (x1, d1)" by fastforce
  have i1: "db_inv d1" using read_same_tables(1) [of d i] assms by (simp add: g1 db_inv_same_tables)
  obtain x2 d2 where g2: "GetLookupRunByCaseID i d1 = (x2, d2)" by fastforce
  have i2: "db_inv d2" using read_same_tables(3) [of d1 i] i1 by (simp add: g2 db_inv_same_tables)
  show ?thesis
  proof (cases "\<exists>c r. x1 = Inr (Some c) \<and> x2 = Inr (Some r)")
    case True
    then obtain c r where cr: "x1 = Inr (Some c)" "x2 = Inr (Some r)" by blast
    obtain x3 d3 where g3: "GetSourcesByRunID (run_ID r) d2 = (x3, d3)" by fastforce
    have "db_inv d3" using read_same_tables(4) [of d2 "run_ID r"] i2 by (simp add: g3 db_inv_same_tables)
    then show ?thesis using cr
      by (cases x3) (simp_all add: TriggerLookup_def g1 g2 g3 start_run_ok retrigger_ok)
  next
    case False
    with i1 i2 show ?thesis
      by (auto simp: TriggerLookup_def g1 g2 start_run_ok split: sum.splits option.splits)
  qed
qed

lemma TriggerLookup_healthy_existing:
  assumes "healthy d" "find (\<lambda>c. c_ID c = i) (cases d) = Some c"
    and "find (\<lambda>r. run_CaseID r = i) (lookup_runs d) = Some r"
  shows "TriggerLookup now i d =
    (let d3 = next_stmt (next_stmt (next_stmt d)); ss = sort_key src_Source (sources_of (run_ID r) d) in
     if run_Status r = StatusComplete \<or> run_Status r = StatusPending
     then (Inr (\<lparr>lr_Case = c, lr_Run = Some r, lr_Sources = ss\<rparr>, 200, None), d3)
     else if run_Status r = StatusPartial \<or> run_Status r = StatusFailed then retrigger now c r ss d3
     else start_run now i c d3)"
  using assms by (simp add: TriggerLookup_def healthy_reads Let_def)

lemma retrigger_healthy:
  assumes "healthy d" "distinct (map src_ID (lookup_sources d))"
    and "s0 \<in> set (sources_of (run_ID r) d)" "src_Status s0 \<in> {''pending'', ''failed''}"
  shows "\<exists>d' ss'. retrigger now c r ss d =
      (Inr (\<lparr>lr_Case = c, lr_Run = Some (r\<lparr>run_Status := StatusPending\<rparr>), lr_Sources = ss'\<rparr>, 202,
            Some (c, r\<lparr>run_Status := StatusPending\<rparr>)), d') \<and>
    ss' = sort_key src_Source (sources_of (run_ID r) d') \<and> same_server d d' \<and>
    lookup_sources d' =
      map (\<lambda>s. if src_RunID s = run_ID r \<and> src_Status s \<in> {''pending'', ''failed''}
               then reset_row s else s) (lookup_sources d) \<and>
    lookup_runs d' = update_where (\<lambda>q. run_ID q = run_ID r)
      (\<lambda>q. q\<lparr>run_Status := ''pending'', CompletedAt := None\<rparr>) (lookup_runs d)"
proof -
  let ?P = "\<lambda>s. src_RunID s = run_ID r \<and> src_Status s \<in> {''pending'', ''failed''}"
  let ?rs = "sort_key src_Source (filter (\<lambda>s. src_Status s \<in> {''pending'', ''failed''}) (sources_of (run_ID r) d))"
  have set_rs: "set ?rs = {s \<in> set (lookup_sources d). ?P s}" by (auto simp: sources_of_def)
  have "s0 \<in> set ?rs" using assms(3,4) by simp
  then have ne: "?rs \<noteq> []" by (metis empty_iff list.set(1))
  have mem: "src_ID s \<in> src_ID ` set ?rs \<longleftrightarrow> ?P s" if "s \<in> set (lookup_sources d)" for s
    using that assms(2) unfolding set_rs by (auto simp: distinct_map inj_on_def)
  obtain d2 where d2: "ResetSourcesToPending (map src_ID ?rs) (next_stmt d) = (None, d2)"
    "same_server (next_stmt d) d2" "lookup_runs d2 = lookup_runs d"
    "lookup_sources d2 = map (\<lambda>s. if src_ID s \<in> src_ID ` set ?rs then reset_row s else s) (lookup_sources d)"
    using ResetSourcesToPending_healthy [of "next_stmt d" "map src_ID ?rs"] assms(1)
    by (auto simp: prod_eq_iff)
  have rows: "lookup_sources d2 = map (\<lambda>s. if ?P s then reset_row s else s) (lookup_sources d)"
    unfolding d2(4) using mem by (intro map_cong) auto
  have h2: "healthy d2" using d2(2) assms(1) by (simp add: healthy_same_server)
  show ?thesis
    using assms(1) ne d2(1-3) h2 rows
    by (simp add: retrigger_def healthy_reads healthy_writes Let_def same_server_def StatusPending_def)
qed

lemma process_all_returns:
  assumes "rl_live (courtLimiter o0)"
    and "\<And>s i ctx v. s \<in> set ss \<Longrightarrow> wle ((ws (src_ID s))\<lparr>clock := now\<rparr>) v \<Longrightarrow>
       fst (PollResult (scraClient o0) i ctx v) \<noteq> None"
    and "\<forall>s \<in> set ss. src_Source s \<in> set source_names"
  shows "\<exists>o1 t. process_all c ws now ss o0 t0 = RunDone o1 t"
  using assms
proof (induction ss arbitrary: o0 t0)
  case (Cons s ss)
  let ?w = "(ws (src_ID s))\<lparr>clock := now\<rparr>"
  have "\<exists>o1 w1. processSCRA Background c s o0 ?w = Finished o1 w1"
    by (rule processSCRA_returns) (rule Cons.prems(2), simp_all)
  then have "\<exists>o1 w1. processSource Background c s o0 ?w = Finished o1 w1"
    using Cons.prems(1) processProperty_returns processCourt_returns
    by (auto simp: processSource_def set_result_def)
  then obtain o1 w1 where p: "processSource Background c s o0 ?w = Finished o1 w1" by blast
  have "src_Source s \<in> set source_names" using Cons.prems(3) by simp
  from dispatch.proc_resolves [OF this p Cons.prems(1)] obtain q where
    "resolves (insert SourceStatusNotApplicable outcomes) 33 s o0 ?w q o1 w1" by blast
  then have r: "rl_live (courtLimiter o1)" "scraClient o1 = scraClient o0"
    using Cons.prems(1) by (simp_all add: resolves_def)
  have "\<exists>o2 t. process_all c ws now ss o1 (max t0 (clock w1)) = RunDone o2 t"
  proof (rule Cons.IH)
    fix s' i ctx v
    assume "s' \<in> set ss" "wle ((ws (src_ID s'))\<lparr>clock := now\<rparr>) v"
    then show "fst (PollResult (scraClient o1) i ctx v) \<noteq> None"
      unfolding r(2) by (intro Cons.prems(2)) auto
  qed (use Cons.prems(3) r(1) in simp_all)
  with p show ?case by simp
qed simp

lemma runLookup_done:
  assumes "rl_live (courtLimiter o0)" "db_inv (store o0)" "\<And>ss. mset (sched ss) = mset ss"
    and "\<And>i k ctx v. wle ((ws k)\<lparr>clock := now\<rparr>) v \<Longrightarrow> fst (PollResult (scraClient o0) i ctx v) \<noteq> None"
  shows "\<exists>o1 t. runLookup sched ws now c run o0 = RunDone o1 t"
proof -
  obtain res d where g: "GetSourcesByRunID (run_ID run) (store o0) = (res, d)" by fastforce
  show ?thesis
  proof (cases res)
    case (Inr ss)
    have "set ss \<subseteq> set (lookup_sources (store o0))"
      using g Inr by (auto simp: GetSourcesByRunID_def db_query_def Let_def sources_of_def
        split: rows_out.splits if_splits dest: in_set_takeD)
    moreover have "set (sched (filter unresolved ss)) = set (filter unresolved ss)"
      using assms(3) by (metis set_mset_mset)
    ultimately have names: "\<forall>s \<in> set (sched (filter unresolved ss)). src_Source s \<in> set source_names"
      using source_names_inv [OF assms(2)] by auto
    have "\<exists>o1 t. process_all c ws now (sched (filter unresolved ss)) (o0\<lparr>store := d\<rparr>) now = RunDone o1 t"
    proof (rule process_all_returns)
      show "fst (PollResult (scraClient (o0\<lparr>store := d\<rparr>)) i ctx v) \<noteq> None"
        if "wle ((ws (src_ID s))\<lparr>clock := now\<rparr>) v" for s i ctx v
        using assms(4) [OF that] by simp
    qed (use assms(1) names in simp_all)
    then obtain o1 t where
      "process_all c ws now (sched (filter unresolved ss)) (o0\<lparr>store := d\<rparr>) now = RunDone o1 t" by blast
    with g Inr show ?thesis by (simp add: runLookup_def split_beta Let_def)
  qed (simp add: runLookup_def g)
qed

section \<open>Sample runs\<close>

definition sample_run :: "string \<Rightarrow> lookup_run" where
  "sample_run st =
     \<lparr>run_ID = ''R'', run_CaseID = ''C1'', run_Status = st, StartedAt = 0, CompletedAt = Some 9\<rparr>"

definition sample_run_db :: "string \<Rightarrow> db" where
  "sample_run_db st = sample_db
     \<lparr>lookup_runs := [sample_run st],
      lookup_sources :=
        [(new_source ''p'' ''R'' SourcePropertyRecords)\<lparr>src_Status := SourceStatusSuccess, Attempts := 1\<rparr>,
         (new_source ''c'' ''R'' SourceCourtRecords)\<lparr>src_Status := SourceStatusFailed, Attempts := 5\<rparr>,
         new_source ''s'' ''R'' SourceSCRA]\<rparr>"

lemma sample_run_db_ok:
  "healthy (sample_run_db st)" "st \<in> run_statuses \<Longrightarrow> db_inv (sample_run_db st)"
  "distinct (map src_ID (lookup_sources (sample_run_db st)))"
  "find (\<lambda>c. c_ID c = ''C1'') (cases (sample_run_db st)) = Some sample_case"
  "find (\<lambda>r. run_CaseID r = ''C1'') (lookup_runs (sample_run_db st)) = Some (sample_run st)"
  "lookup_runs (sample_run_db st) = [sample_run st]" "run_ID (sample_run st) = ''R''"
  "run_Status (sample_run st) = st"
  by (simp_all add: sample_run_db_def sample_run_def sample_db_def sample_case_def healthy_def db_inv_def
      sources_of_def source_names_def)

text \<open>An orchestrator with an open breaker, and a database whose third statement fails.\<close>

definition broken_orc :: Orchestrator where
  "broken_orc = sample_orc
     \<lparr>scraCB := (NewCircuitBreaker ''scra'' 5 (30 * Second))\<lparr>cb_state := CBOpen, openedAt := 0\<rparr>,
      store := sample_db
        \<lparr>lookup_runs := [sample_run StatusPending],
         lookup_sources := [new_source ''s'' ''R'' SourceSCRA],
         rows_fate := (\<lambda>n. if n = 2 then QueryFails ErrTimeout else RowsOk)\<rparr>\<rparr>"

section \<open>Properties\<close>

text \<open>
  The overall status of a run: complete when every source has succeeded or does not
  apply (also when there are none), else failed when every source that applies has failed,
  else partial.
\<close>

theorem computeOverallStatus_cases:
  "computeOverallStatus ss =
     (if list_all (\<lambda>s. src_Status s \<in> {SourceStatusNotApplicable, SourceStatusSuccess}) ss then StatusComplete
      else if list_all (\<lambda>s. src_Status s \<in> {SourceStatusNotApplicable, SourceStatusFailed}) ss then StatusFailed
      else StatusPartial)"
  by (simp only: computeOverallStatus_eq list_all_iff)

text \<open>
  Triggering is consistent under all faults of the database: the tables keep their
  invariant, a goroutine is started exactly when the answer is 202, the only other code is
  200, and either comes with a run.
\<close>

theorem TriggerLookup_consistent:
  assumes "db_inv d" and "TriggerLookup now i d = (out, d')"
  shows "db_inv d' \<and>
    (case out of
       Inl e \<Rightarrow> True
     | Inr (res, code, launched) \<Rightarrow>
         code \<in> {200, 202} \<and> (code = 202 \<longleftrightarrow> launched \<noteq> None) \<and> lr_Run res \<noteq> None)"
  using TriggerLookup_ok [OF assms(1), of now i] by (simp add: assms(2) trigger_ok_def)

theorem TriggerLookup_consistent_witness:
  "db_inv (snd (TriggerLookup 5 ''C1'' sample_db))"
  using TriggerLookup_consistent [OF sample_db_ok(1), of 5 "''C1''"] by (metis prod.collapse)

text \<open>
  Triggering a case whose run is complete or in progress changes no table and starts
  nothing: it answers 200 with the run and its sources, sorted by name.
\<close>

theorem TriggerLookup_idempotent:
  assumes "healthy d" "find (\<lambda>c. c_ID c = i) (cases d) = Some c"
    and "find (\<lambda>r. run_CaseID r = i) (lookup_runs d) = Some r"
    and "run_Status r = StatusComplete \<or> run_Status r = StatusPending"
  shows "\<exists>d'. TriggerLookup now i d =
      (Inr (\<lparr>lr_Case = c, lr_Run = Some r, lr_Sources = sort_key src_Source (sources_of (run_ID r) d)\<rparr>,
            200, None), d') \<and> same_tables d d'"
  using assms(4)
  by (simp add: TriggerLookup_healthy_existing [OF assms(1-3)] Let_def same_tables_def same_server_def)

theorem TriggerLookup_idempotent_witness:
  "\<exists>d'. TriggerLookup 5 ''C1'' (sample_run_db StatusComplete) =
      (Inr (\<lparr>lr_Case = sample_case, lr_Run = Some (sample_run StatusComplete),
             lr_Sources = sort_key src_Source (sources_of ''R'' (sample_run_db StatusComplete))\<rparr>,
            200, None), d') \<and> same_tables (sample_run_db StatusComplete) d'"
  using TriggerLookup_idempotent [of "sample_run_db StatusComplete" "''C1''" sample_case "sample_run StatusComplete" 5,
      OF sample_run_db_ok(1,4,5)]
  by (simp add: sample_run_db_ok)

lemma first_trigger:
  assumes "healthy d" "fresh_uuids d" "db_inv d"
    and "find (\<lambda>c. c_ID c = i) (cases d) = Some c" "i \<notin> set (map run_CaseID (lookup_runs d))"
  shows "\<exists>r ss d1 d2. TriggerLookup now i d =
      (Inr (\<lparr>lr_Case = c, lr_Run = Some r, lr_Sources = ss\<rparr>, 202, Some (c, r)), d1) \<and>
    run_created now i r ss d d1 \<and>
    TriggerLookup now' i d1 =
      (Inr (\<lparr>lr_Case = c, lr_Run = Some r, lr_Sources = sort_key src_Source ss\<rparr>, 200, None), d2) \<and>
    same_tables d1 d2"
proof -
  let ?d2 = "next_stmt (next_stmt d)"
  have none: "find (\<lambda>r. run_CaseID r = i) (lookup_runs d) = None"
    using assms(5) by (auto simp: find_None_iff)
  have ci: "i \<in> set (map c_ID (cases d))" using find_SomeD [OF assms(4)] by auto
  have pre: "healthy ?d2" "fresh_uuids ?d2" "db_inv ?d2"
    using assms(1-3) by (auto simp: fresh_uuids_def)
  from CreateLookupRun_healthy [OF pre, of i now] ci assms(5) obtain r ss d1 where
    cr: "CreateLookupRun now i ?d2 = (Inr (r, ss), d1)" "run_created now i r ss ?d2 d1"
    by (auto simp: prod_eq_iff)
  have t1: "TriggerLookup now i d =
      (Inr (\<lparr>lr_Case = c, lr_Run = Some r, lr_Sources = ss\<rparr>, 202, Some (c, r)), d1)"
    using assms(1,4) none cr(1) by (simp add: TriggerLookup_def healthy_reads start_run_def)
  have rc: "run_created now i r ss d d1" using cr(2) unfolding run_created_def same_server_def next_stmt_simps by blast
  have h1: "healthy d1" using rc assms(1) healthy_same_server unfolding run_created_def by blast
  have c1: "find (\<lambda>c. c_ID c = i) (cases d1) = Some c"
    using rc assms(4) by (simp add: run_created_def same_server_def)
  have r1: "find (\<lambda>r. run_CaseID r = i) (lookup_runs d1) = Some r"
  proof -
    have "find P (xs @ [x]) = Some x" if "find P xs = None" "P x" for P and xs :: "lookup_run list" and x
      using that by (induction xs) (auto split: if_splits)
    with none rc show ?thesis by (simp add: run_created_def)
  qed
  have s1: "sources_of (run_ID r) d1 = ss" by (rule run_created_sources [OF assms(3) rc])
  have "TriggerLookup now' i d1 = (Inr (\<lparr>lr_Case = c, lr_Run = Some r, lr_Sources = sort_key src_Source ss\<rparr>,
      200, None), next_stmt (next_stmt (next_stmt d1)))"
    using rc by (simp add: TriggerLookup_healthy_existing [OF h1 c1 r1] s1 Let_def run_created_def StatusPending_def)
  with t1 rc show ?thesis by (auto simp: same_tables_def same_server_def)
qed

text \<open>
  Claim C11. The first trigger of a case creates its run, answers 202 and starts one goroutine;
  a second trigger, before that goroutine has done anything, finds the pending run, answers
  200 with the same run, and starts nothing.
\<close>

theorem TriggerLookup_twice:
  assumes "healthy d" "fresh_uuids d" "db_inv d"
    and "find (\<lambda>c. c_ID c = i) (cases d) = Some c" "i \<notin> set (map run_CaseID (lookup_runs d))"
  shows "\<exists>r ss d1 d2. TriggerLookup now i d =
      (Inr (\<lparr>lr_Case = c, lr_Run = Some r, lr_Sources = ss\<rparr>, 202, Some (c, r)), d1) \<and>
    run_created now i r ss d d1 \<and>
    TriggerLookup now' i d1 =
      (Inr (\<lparr>lr_Case = c, lr_Run = Some r, lr_Sources = sort_key src_Source ss\<rparr>, 200, None), d2) \<and>
    same_tables d1 d2"
  using assms by (rule first_trigger)

theorem TriggerLookup_twice_witness:
  "\<exists>r ss d1 d2. TriggerLookup 5 ''C1'' sample_db =
      (Inr (\<lparr>lr_Case = sample_case, lr_Run = Some r, lr_Sources = ss\<rparr>, 202, Some (sample_case, r)), d1) \<and>
    run_created 5 ''C1'' r ss sample_db d1 \<and>
    TriggerLookup 6 ''C1'' d1 =
      (Inr (\<lparr>lr_Case = sample_case, lr_Run = Some r, lr_Sources = sort_key src_Source ss\<rparr>, 200, None), d2) \<and>
    same_tables d1 d2"
  by (rule TriggerLookup_twice [OF sample_db_ok(2,3,1)]) (simp_all add: sample_db_def sample_case_def)

text \<open>
  Claim C10. Re-triggering a run that was partial or failed retries what failed and nothing
  else: it answers 202, starts one goroutine, puts the run and exactly its pending and failed
  sources back to pending (their attempts are kept), and leaves every other row alone. The run
  it answers with says pending, but still carries the completion time of the earlier lookup,
  which the row no longer has.
\<close>

theorem TriggerLookup_retries_failed:
  assumes "healthy d" "distinct (map src_ID (lookup_sources d))"
    and "find (\<lambda>c. c_ID c = i) (cases d) = Some c"
    and "find (\<lambda>r. run_CaseID r = i) (lookup_runs d) = Some r"
    and "run_Status r = StatusPartial \<or> run_Status r = StatusFailed"
    and "s0 \<in> set (sources_of (run_ID r) d)" "src_Status s0 \<in> {''pending'', ''failed''}"
  shows "\<exists>d' r'. r' = r\<lparr>run_Status := StatusPending\<rparr> \<and>
    TriggerLookup now i d =
      (Inr (\<lparr>lr_Case = c, lr_Run = Some r', lr_Sources = sort_key src_Source (sources_of (run_ID r) d')\<rparr>,
            202, Some (c, r')), d') \<and>
    lookup_sources d' =
      map (\<lambda>s. if src_RunID s = run_ID r \<and> src_Status s \<in> {''pending'', ''failed''}
               then reset_row s else s) (lookup_sources d) \<and>
    lookup_runs d' = update_where (\<lambda>q. run_ID q = run_ID r)
      (\<lambda>q. q\<lparr>run_Status := ''pending'', CompletedAt := None\<rparr>) (lookup_runs d)"
proof -
  let ?d3 = "next_stmt (next_stmt (next_stmt d))"
  have "run_Status r \<noteq> StatusComplete" "run_Status r \<noteq> StatusPending" using assms(5) by auto
  then have "TriggerLookup now i d = retrigger now c r (sort_key src_Source (sources_of (run_ID r) d)) ?d3"
    using TriggerLookup_healthy_existing [OF assms(1,3,4), of now] assms(5) by (simp add: Let_def)
  with retrigger_healthy [of ?d3 s0 r now c] assms(1,2,6,7) show ?thesis by fastforce
qed

theorem TriggerLookup_retries_failed_witness:
  "\<exists>d' r'. r' = sample_run StatusPending \<and>
    TriggerLookup 10 ''C1'' (sample_run_db StatusPartial) =
      (Inr (\<lparr>lr_Case = sample_case, lr_Run = Some r', lr_Sources = sort_key src_Source (sources_of ''R'' d')\<rparr>,
            202, Some (sample_case, r')), d') \<and>
    CompletedAt r' = Some 9 \<and> map CompletedAt (lookup_runs d') = [None] \<and>
    map src_Status (lookup_sources d') = [SourceStatusSuccess, ''pending'', ''pending'']"
  using TriggerLookup_retries_failed [of "sample_run_db StatusPartial" "''C1''" sample_case
      "sample_run StatusPartial" "new_source ''s'' ''R'' SourceSCRA" 10, OF sample_run_db_ok(1,3-5)]
  by (auto simp: sample_run_db_ok) (auto simp: sample_run_db_def sample_run_def sources_of_def source_status_defs)

lemma lookup_resolves:
  assumes "runLookup sched ws now c run o0 = RunDone o1 t"
    and "rl_live (courtLimiter o0)" "db_inv (store o0)" "healthy (store o0)"
    and "\<And>ss. mset (sched ss) = mset ss"
    and "run0 \<in> set (lookup_runs (store o0))" "run_ID run0 = run_ID run"
  shows "run0\<lparr>run_Status := computeOverallStatus (sources_of (run_ID run) (store o1)), CompletedAt := Some t\<rparr>
      \<in> set (lookup_runs (store o1)) \<and>
    (\<forall>s \<in> set (sources_of (run_ID run) (store o1)). src_Status s \<in> insert SourceStatusNotApplicable outcomes) \<and>
    (\<forall>s \<in> set (lookup_sources (store o0)).
       src_RunID s \<noteq> run_ID run \<or> src_Status s \<in> {SourceStatusNotApplicable, SourceStatusSuccess} \<longrightarrow>
       s \<in> set (lookup_sources (store o1)))"
proof -
  from runLookup_healthy [OF assms(1-5)] obtain f where
    f: "lookup_sources (store o1) = map f (lookup_sources (store o0))"
    "\<And>s. s \<in> set (lookup_sources (store o0)) \<Longrightarrow> src_RunID (f s) = src_RunID s"
    "\<And>s. s \<in> set (lookup_sources (store o0)) \<Longrightarrow> src_RunID s = run_ID run \<Longrightarrow> unresolved s \<Longrightarrow>
       src_Status (f s) \<in> insert SourceStatusNotApplicable outcomes"
    "\<And>s. s \<in> set (lookup_sources (store o0)) \<Longrightarrow> \<not> (src_RunID s = run_ID run \<and> unresolved s) \<Longrightarrow> f s = s"
    "lookup_runs (store o1) = update_where (\<lambda>r. run_ID r = run_ID run)
      (\<lambda>r. r\<lparr>run_Status := computeOverallStatus (sources_of (run_ID run) (store o1)),
              CompletedAt := Some t\<rparr>) (lookup_runs (store o0))"
    by (metis (no_types, lifting))
  have "\<forall>s \<in> set (sources_of (run_ID run) (store o1)). src_Status s \<in> insert SourceStatusNotApplicable outcomes"
  proof
    fix s' assume "s' \<in> set (sources_of (run_ID run) (store o1))"
    then obtain s where s: "s \<in> set (lookup_sources (store o0))" "s' = f s" "src_RunID s = run_ID run"
      using f(1,2) by (auto simp: sources_of_def)
    then show "src_Status s' \<in> insert SourceStatusNotApplicable outcomes"
      using f(3,4) [OF s(1)] by (cases "unresolved s") (auto simp: unresolved_def)
  qed
  moreover have "\<forall>s \<in> set (lookup_sources (store o0)).
      src_RunID s \<noteq> run_ID run \<or> src_Status s \<in> {SourceStatusNotApplicable, SourceStatusSuccess} \<longrightarrow>
      s \<in> set (lookup_sources (store o1))"
    using f(1,4) by (auto simp: unresolved_def image_iff) metis+
  moreover have "run0\<lparr>run_Status := computeOverallStatus (sources_of (run_ID run) (store o1)), CompletedAt := Some t\<rparr>
      \<in> set (lookup_runs (store o1))"
    using assms(6,7) unfolding f(5) set_update_where by (auto simp: image_iff intro!: bexI [of _ run0])
  ultimately show ?thesis by blast
qed

text \<open>
  Claim C3. A lookup that runs to its end on a healthy database resolves its run: no source of
  the run is pending any more, sources that had succeeded or did not apply are untouched, rows
  of other runs are untouched, and the run carries the overall status of its sources and the
  completion time. This holds for every behaviour of the services and every order in which
  the goroutines write.
\<close>

theorem runLookup_resolves:
  assumes "runLookup sched ws now c run o0 = RunDone o1 t"
    and "rl_live (courtLimiter o0)" "db_inv (store o0)" "healthy (store o0)"
    and "\<And>ss. mset (sched ss) = mset ss"
    and "run0 \<in> set (lookup_runs (store o0))" "run_ID run0 = run_ID run"
  shows "run0\<lparr>run_Status := computeOverallStatus (sources_of (run_ID run) (store o1)), CompletedAt := Some t\<rparr>
      \<in> set (lookup_runs (store o1)) \<and>
    (\<forall>s \<in> set (sources_of (run_ID run) (store o1)). src_Status s \<in> insert SourceStatusNotApplicable outcomes) \<and>
    (\<forall>s \<in> set (lookup_sources (store o0)).
       src_RunID s \<noteq> run_ID run \<or> src_Status s \<in> {SourceStatusNotApplicable, SourceStatusSuccess} \<longrightarrow>
       s \<in> set (lookup_sources (store o1)))"
  using assms by (rule lookup_resolves)

theorem runLookup_resolves_witness:
  "\<exists>o1 t. runLookup rev (\<lambda>_. scripted_world []) 0 sample_case (sample_run StatusPending)
      (sample_orc\<lparr>store := sample_run_db StatusPending\<rparr>) = RunDone o1 t \<and>
    (\<forall>s \<in> set (sources_of ''R'' (store o1)). src_Status s \<noteq> SourceStatusPending)"
proof -
  let ?o = "sample_orc\<lparr>store := sample_run_db StatusPending\<rparr>"
  obtain o1 t where r: "runLookup rev (\<lambda>_. scripted_world []) 0 sample_case (sample_run StatusPending) ?o = RunDone o1 t"
  proof -
    have "\<exists>o1 t. runLookup rev (\<lambda>_. scripted_world []) 0 sample_case (sample_run StatusPending) ?o = RunDone o1 t"
      by (rule runLookup_done) (use scripted_quiet in \<open>simp_all add: sample_run_db_ok\<close>)
    with that show ?thesis by blast
  qed
  from runLookup_resolves [OF r, of "sample_run StatusPending"] show ?thesis
    using r by (auto simp: sample_run_db_ok)
qed

text \<open>
  Claim C28. A lookup comes to an end unless the limiter is stopped or the SCRA service
  answers \<^verbatim>\<open>"complete"\<close> without a result, whatever else the services and the database do.
\<close>

theorem runLookup_returns:
  assumes "rl_live (courtLimiter o0)" "db_inv (store o0)" "\<And>ss. mset (sched ss) = mset ss"
    and "\<And>i k ctx v. wle ((ws k)\<lparr>clock := now\<rparr>) v \<Longrightarrow> fst (PollResult (scraClient o0) i ctx v) \<noteq> None"
  shows "\<exists>o1 t. runLookup sched ws now c run o0 = RunDone o1 t \<and> now \<le> t \<and> db_inv (store o1) \<and>
    rl_live (courtLimiter o1)"
proof -
  have "\<exists>o1 t. runLookup sched ws now c run o0 = RunDone o1 t"
    by (rule runLookup_done [OF assms(1-3)]) (rule assms(4))
  then obtain o1 t where r: "runLookup sched ws now c run o0 = RunDone o1 t" by blast
  have "\<forall>s \<in> set (lookup_sources (store o0)). src_Source s \<in> set source_names"
    using source_names_inv [OF assms(2)] by blast
  with runLookup_inv [OF r assms(1-3)] r show ?thesis by blast
qed

theorem runLookup_returns_witness:
  "\<exists>o1 t. runLookup rev (\<lambda>_. scripted_world []) 0 sample_case (sample_run StatusPending)
      (sample_orc\<lparr>store := sample_run_db StatusPending\<rparr>) = RunDone o1 t \<and> 0 \<le> t \<and> db_inv (store o1) \<and>
    rl_live (courtLimiter o1)"
  by (rule runLookup_returns) (use scripted_quiet in \<open>simp_all add: sample_run_db_ok\<close>)

text \<open>
  Claim C40. The status of a run can be wrong: when the read of the sources at the end of a
  lookup fails, its error is dropped, the empty list counts as "no applicable sources", and
  the run is marked complete whatever became of its sources. A run that is complete is never
  retried.
\<close>

theorem failed_final_read_completes:
  assumes "GetSourcesByRunID (run_ID run) (store o0) = (Inr ss, d)"
    and "process_all c ws now (sched (filter unresolved ss)) (o0\<lparr>store := d\<rparr>) now = RunDone o1 t"
    and "rows_fate (store o1) (nstmts (store o1)) = QueryFails e"
    and "exec_fate (store o1) (nstmts (store o1) + 1) = ExecOk"
    and "run0 \<in> set (lookup_runs (store o1))" "run_ID run0 = run_ID run"
  shows "\<exists>o2. runLookup sched ws now c run o0 = RunDone o2 t \<and>
    run0\<lparr>run_Status := StatusComplete, CompletedAt := Some t\<rparr> \<in> set (lookup_runs (store o2)) \<and>
    lookup_sources (store o2) = lookup_sources (store o1)"
proof -
  have g: "GetSourcesByRunID (run_ID run) (store o1) =
      (Inl (wrap_ctx (''get sources for run '' @ run_ID run) e), next_stmt (store o1))"
    by (simp add: GetSourcesByRunID_def db_query_def assms(3) Let_def)
  have c: "computeOverallStatus ([] :: source_row list) = StatusComplete"
    by (simp add: computeOverallStatus_eq)
  have x: "snd (CompleteRun t (run_ID run) StatusComplete (next_stmt (store o1))) =
      update_run (run_ID run) (\<lambda>r. r\<lparr>run_Status := StatusComplete, CompletedAt := Some t\<rparr>)
        (next_stmt (next_stmt (store o1)))"
    using assms(4) by (simp add: CompleteRun_def db_exec_def) (simp add: next_stmt_def)
  show ?thesis
    using assms(5,6)
    by (auto simp: runLookup_def assms(1,2) g c x Let_def split_beta set_update_where image_iff
        intro!: bexI [of _ run0])
qed

theorem failed_final_read_completes_witness:
  "\<exists>o2. runLookup id (\<lambda>_. scripted_world []) 0 sample_case (sample_run StatusPending) broken_orc = RunDone o2 0 \<and>
     (sample_run StatusComplete)\<lparr>CompletedAt := Some 0\<rparr> \<in> set (lookup_runs (store o2)) \<and>
     map src_Status (lookup_sources (store o2)) = [SourceStatusFailed]"
proof -
  obtain o1 where o1: "process_all sample_case (\<lambda>_. scripted_world []) 0 (lookup_sources (store broken_orc))
      (broken_orc\<lparr>store := next_stmt (store broken_orc)\<rparr>) 0 = RunDone o1 0"
    "rows_fate (store o1) = rows_fate (store broken_orc)" "exec_fate (store o1) = exec_fate (store broken_orc)"
    "nstmts (store o1) = 2" "lookup_runs (store o1) = [sample_run StatusPending]"
    "map src_Status (lookup_sources (store o1)) = [SourceStatusFailed]"
    by (simp add: broken_orc_def processSource_def processSCRA_def Allow_def NewCircuitBreaker_def set_result_def
        SetSourceResult_def db_exec_def next_stmt_def sample_db_def update_source_def result_row_def)
  have "GetSourcesByRunID ''R'' (store broken_orc) = (Inr (lookup_sources (store broken_orc)), next_stmt (store broken_orc))"
    by (simp add: GetSourcesByRunID_def db_query_def broken_orc_def sample_db_def sources_of_def)
  moreover have "exec_fate (store broken_orc) n = ExecOk" "rows_fate (store broken_orc) 2 = QueryFails ErrTimeout"
    "filter unresolved (lookup_sources (store broken_orc)) = lookup_sources (store broken_orc)" for n
    by (simp_all add: broken_orc_def sample_db_def unresolved_def source_status_defs)
  ultimately obtain o2 where
    "runLookup id (\<lambda>_. scripted_world []) 0 sample_case (sample_run StatusPending) broken_orc = RunDone o2 0"
    "(sample_run StatusPending)\<lparr>run_Status := StatusComplete, CompletedAt := Some 0\<rparr> \<in> set (lookup_runs (store o2))"
    "lookup_sources (store o2) = lookup_sources (store o1)"
    using failed_final_read_completes [of "sample_run StatusPending" broken_orc
        "lookup_sources (store broken_orc)" "next_stmt (store broken_orc)" sample_case
        "\<lambda>_. scripted_world []" 0 id o1 0 ErrTimeout "sample_run StatusPending"] o1
    by (auto simp: sample_run_db_ok)
  with o1(6) show ?thesis by (auto simp: sample_run_def)
qed

end
