(* ===== verification/Handler.thy ===== *)
theory Handler
  imports GoTime Orchestrator "HOL-Library.AList"
begin

text \<open>
  The HTTP endpoints of \<^verbatim>\<open>backend/internal/api/handler.go\<close>. A handler is a function from
  the request and the state it reads to the response; \<^verbatim>\<open>writeJSON\<close> sets the status code
  and encodes the body, so a response is the pair of the two. The zone of the server, which
  \<^verbatim>\<open>time.RFC3339\<close> shows, is the argument \<open>tz\<close>. Log lines are left out. The concurrent part
  of \<^verbatim>\<open>BulkEnrich\<close> is in the theory \<open>Bulk\<close>.
\<close>

section \<open>Responses\<close>

record api_response =
  api_code :: int
  api_body :: json

definition writeJSON :: "int \<Rightarrow> json \<Rightarrow> api_response" where
  "writeJSON code v = \<lparr>api_code = code, api_body = v\<rparr>"

definition errorResponse :: "string \<Rightarrow> json" where
  "errorResponse msg = JObj [(''error'', JStr msg)]"

record cbInfo =
  ci_State :: string
  ci_Failures :: int

record healthResponse =
  hr_Status :: string
  hr_DB :: string
  hr_CircuitBreakers :: "(string \<times> cbInfo) list"

record sourceResponse =
  sr_Status :: string
  sr_Attempts :: int
  sr_LastAttempt :: "string option"
  sr_Data :: "json option"
  sr_Reason :: string
  sr_SearchID :: string
  sr_Error :: string

record statusResponse =
  st_CaseID :: string
  st_RunID :: string
  st_Status :: string
  st_Sources :: "(string \<times> sourceResponse) list"
  st_StartedAt :: "string option"
  st_CompletedAt :: "string option"

text \<open>
  A Go map is an association list with distinct keys; \<^verbatim>\<open>encoding/json\<close> writes it in the
  order of its keys. A member with \<^verbatim>\<open>omitempty\<close> is left out when it holds the zero value.
\<close>

definition enc_map :: "('a \<Rightarrow> json) \<Rightarrow> (string \<times> 'a) list \<Rightarrow> json" where
  "enc_map f m = JObj (map (\<lambda>(k, v). (k, f v)) (sort_key fst m))"

definition omit_str :: "string \<Rightarrow> string \<Rightarrow> (string \<times> json) list" where
  "omit_str k s = (if s = [] then [] else [(k, JStr s)])"

definition omit_int :: "string \<Rightarrow> int \<Rightarrow> (string \<times> json) list" where
  "omit_int k i = (if i = 0 then [] else [(k, JInt i)])"

definition omit_ptr :: "string \<Rightarrow> ('a \<Rightarrow> json) \<Rightarrow> 'a option \<Rightarrow> (string \<times> json) list" where
  "omit_ptr k f p = (case p of None \<Rightarrow> [] | Some x \<Rightarrow> [(k, f x)])"

definition enc_sourceResponse :: "sourceResponse \<Rightarrow> json" where
  "enc_sourceResponse r = JObj
     ([(''status'', JStr (sr_Status r))] @ omit_int ''attempts'' (sr_Attempts r) @
      omit_ptr ''lastAttempt'' JStr (sr_LastAttempt r) @ omit_ptr ''data'' id (sr_Data r) @
      omit_str ''reason'' (sr_Reason r) @ omit_str ''searchId'' (sr_SearchID r) @
      omit_str ''error'' (sr_Error r))"

definition enc_statusResponse :: "statusResponse \<Rightarrow> json" where
  "enc_statusResponse r = JObj
     ([(''caseId'', JStr (st_CaseID r))] @ omit_str ''runId'' (st_RunID r) @
      [(''status'', JStr (st_Status r)), (''sources'', enc_map enc_sourceResponse (st_Sources r))] @
      omit_ptr ''startedAt'' JStr (st_StartedAt r) @ omit_ptr ''completedAt'' JStr (st_CompletedAt r))"

definition enc_cbInfo :: "cbInfo \<Rightarrow> json" where
  "enc_cbInfo c = JObj [(''state'', JStr (ci_State c)), (''failures'', JInt (ci_Failures c))]"

definition enc_healthResponse :: "healthResponse \<Rightarrow> json" where
  "enc_healthResponse r = JObj
     [(''status'', JStr (hr_Status r)), (''db'', JStr (hr_DB r)),
      (''circuitBreakers'', enc_map enc_cbInfo (hr_CircuitBreakers r))]"

section \<open>Building the status of a case\<close>

definition str_of_ptr :: "string option \<Rightarrow> string" where
  "str_of_ptr p = (case p of None \<Rightarrow> [] | Some s \<Rightarrow> s)"

definition sourceResponse_of :: "int \<Rightarrow> source_row \<Rightarrow> sourceResponse" where
  "sourceResponse_of tz src =
     \<lparr>sr_Status = src_Status src, sr_Attempts = Attempts src,
      sr_LastAttempt = map_option (format_rfc3339 tz) (LastAttemptAt src), sr_Data = Data src,
      sr_Reason = str_of_ptr (Reason src), sr_SearchID = str_of_ptr (SearchID src),
      sr_Error = str_of_ptr (ErrorMessage src)\<rparr>"

definition buildStatusResponse :: "int \<Rightarrow> LookupResult \<Rightarrow> statusResponse" where
  "buildStatusResponse tz result =
     (let resp = \<lparr>st_CaseID = c_ID (lr_Case result), st_RunID = [], st_Status = [],
                  st_Sources = [], st_StartedAt = None, st_CompletedAt = None\<rparr>;
          resp1 = (case lr_Run result of
                     None \<Rightarrow> resp
                   | Some run \<Rightarrow>
                       resp\<lparr>st_RunID := run_ID run, st_Status := run_Status run,
                         st_StartedAt := Some (format_rfc3339 tz (StartedAt run)),
                         st_CompletedAt := map_option (format_rfc3339 tz) (CompletedAt run)\<rparr>) in
      fold (\<lambda>src r. r\<lparr>st_Sources :=
          AList.update (src_Source src) (sourceResponse_of tz src) (st_Sources r)\<rparr>)
        (lr_Sources result) resp1)"

section \<open>Handlers\<close>

text \<open>The error answer of the two endpoints that look up a case.\<close>

definition lookup_error :: "goerr \<Rightarrow> api_response" where
  "lookup_error err =
     (if str_contains (error_text err) ''not found'' then writeJSON 404 (errorResponse (error_text err))
      else writeJSON 500 (errorResponse (error_text err)))"

definition LookupCase ::
  "int \<Rightarrow> time \<Rightarrow> string \<Rightarrow> db \<Rightarrow> (api_response \<times> (case_row \<times> lookup_run) option) \<times> db"
where
  "LookupCase tz now caseID d =
     (if caseID = [] then ((writeJSON 400 (errorResponse ''missing case id''), None), d)
      else
        (case TriggerLookup now caseID d of
           (Inl err, d1) \<Rightarrow> ((lookup_error err, None), d1)
         | (Inr (result, statusCode, launched), d1) \<Rightarrow>
             ((writeJSON statusCode (enc_statusResponse (buildStatusResponse tz result)), launched), d1)))"

definition not_started :: "string \<Rightarrow> json" where
  "not_started caseID = JObj
     [(''caseId'', JStr caseID), (''completedAt'', JNull), (''sources'', JNull),
      (''startedAt'', JNull), (''status'', JStr ''not_started'')]"

definition GetLookupStatus :: "int \<Rightarrow> string \<Rightarrow> db \<Rightarrow> api_response \<times> db" where
  "GetLookupStatus tz caseID d =
     (if caseID = [] then (writeJSON 400 (errorResponse ''missing case id''), d)
      else
        (case GetStatus caseID d of
           (Inl err, d1) \<Rightarrow> (lookup_error err, d1)
         | (Inr result, d1) \<Rightarrow>
             (if lr_Run result = None then writeJSON 200 (not_started caseID)
              else writeJSON 200 (enc_statusResponse (buildStatusResponse tz result)), d1)))"

definition case_summary :: "case_row \<Rightarrow> string option \<Rightarrow> json" where
  "case_summary c status = JObj
     ([(''id'', JStr (c_ID c)), (''caseNumber'', JStr (c_CaseNumber c)),
       (''borrower'', JStr (c_LastName c @ '', '' @ c_FirstName c)),
       (''address'', JStr (c_Address c @ '', '' @ c_County c @ '', '' @ c_State c)),
       (''currentStage'', JStr (c_CurrentStage c))] @ omit_ptr ''lookupStatus'' JStr status)"

primrec summaries :: "case_row list \<Rightarrow> db \<Rightarrow> json list \<times> db" where
  "summaries [] d = ([], d)"
| "summaries (c # cs) d =
     (let (res, d1) = GetLookupRunByCaseID (c_ID c) d;
          status = (case res of Inr (Some run) \<Rightarrow> Some (run_Status run) | _ \<Rightarrow> None);
          (ss, d2) = summaries cs d1 in
      (case_summary c status # ss, d2))"

definition ListCasesHandler :: "db \<Rightarrow> api_response \<times> db" where
  "ListCasesHandler d =
     (case ListCases d of
        (Inl err, d1) \<Rightarrow> (writeJSON 500 (errorResponse (error_text err)), d1)
      | (Inr cs, d1) \<Rightarrow> (let (ss, d2) = summaries cs d1 in (writeJSON 200 (JArr ss), d2)))"

text \<open>
  The health endpoint: \<open>ping\<close> is the error of \<^verbatim>\<open>pool.Ping\<close>, if any. Reading the state of a
  breaker may change it.
\<close>

primrec cb_report :: "time \<Rightarrow> CircuitBreaker list \<Rightarrow> (string \<times> cbInfo) list \<Rightarrow>
    (string \<times> cbInfo) list \<times> CircuitBreaker list" where
  "cb_report now [] m = (m, [])"
| "cb_report now (cb # cbs) m =
     (let (st, cb1) = CB_State now cb;
          m1 = AList.update (CB_Name cb) \<lparr>ci_State = CBState_string st, ci_Failures = CB_Failures cb1\<rparr> m;
          (m2, cbs1) = cb_report now cbs m1 in
      (m2, cb1 # cbs1))"

definition Health ::
  "time \<Rightarrow> goerr option \<Rightarrow> CircuitBreaker list \<Rightarrow> api_response \<times> CircuitBreaker list"
where
  "Health now ping breakers =
     (let dbStatus = (if ping = None then ''up'' else ''down'');
          (cbStatus, breakers1) = cb_report now breakers [];
          overall = (if dbStatus = ''down'' then ''unhealthy'' else ''healthy'');
          code = (if overall = ''unhealthy'' then 503 else 200) in
      (writeJSON code (enc_healthResponse
         \<lparr>hr_Status = overall, hr_DB = dbStatus, hr_CircuitBreakers = cbStatus\<rparr>), breakers1))"

section \<open>Well-formed documents\<close>

text \<open>No object of the document names a member twice.\<close>

primrec json_wf :: "json \<Rightarrow> bool" where
  "json_wf JNull = True"
| "json_wf (JBool b) = True"
| "json_wf (JInt i) = True"
| "json_wf (JDec x) = True"
| "json_wf (JStr s) = True"
| "json_wf (JArr js) = list_all (\<lambda>b. b) (map json_wf js)"
| "json_wf (JObj ms) = (distinct (map fst ms) \<and> list_all snd (map (map_prod id json_wf) ms))"

lemma json_wf_JArr [simp]: "json_wf (JArr js) \<longleftrightarrow> (\<forall>j \<in> set js. json_wf j)"
  by (simp add: list_all_iff)

lemma json_wf_JObj [simp]:
  "json_wf (JObj ms) \<longleftrightarrow> distinct (map fst ms) \<and> (\<forall>m \<in> set ms. json_wf (snd m))"
  by (auto simp: list_all_iff)

declare json_wf.simps(6,7) [simp del]

lemma omit_members [simp]:
  "fst ` set (omit_str k s) = (if s = [] then {} else {k})" "distinct (map fst (omit_str k s))"
  "fst ` set (omit_int k i) = (if i = 0 then {} else {k})" "distinct (map fst (omit_int k i))"
  "fst ` set (omit_ptr k f p) = (if p = None then {} else {k})" "distinct (map fst (omit_ptr k f p))"
  "\<forall>m \<in> set (omit_str k s). json_wf (snd m)" "\<forall>m \<in> set (omit_int k i). json_wf (snd m)"
  "(\<forall>m \<in> set (omit_ptr k f p). json_wf (snd m)) = pred_option (\<lambda>x. json_wf (f x)) p"
  by (cases p; simp add: omit_str_def omit_int_def omit_ptr_def)+

lemma enc_map_wf:
  assumes "distinct (map fst m)" "\<And>k v. (k, v) \<in> set m \<Longrightarrow> json_wf (f v)"
  shows "json_wf (enc_map f m)"
proof -
  have "map fst (map (\<lambda>(k, v). (k, f v)) xs) = map fst xs" for xs :: "(string \<times> _) list" by (induction xs) auto
  moreover have "distinct (map fst (sort_key fst m))" using assms(1) by (simp add: distinct_map)
  ultimately have "distinct (map fst (map (\<lambda>(k, v). (k, f v)) (sort_key fst m)))" by (simp only:)
  with assms(2) show ?thesis unfolding enc_map_def json_wf_JObj by (intro conjI ballI) (assumption, auto)
qed

lemma enc_sourceResponse_wf:
  assumes "pred_option json_wf (sr_Data r)"
  shows "json_wf (enc_sourceResponse r)"
proof -
  have "distinct (map fst ([(''status'', JStr (sr_Status r))] @ omit_int ''attempts'' (sr_Attempts r) @
      omit_ptr ''lastAttempt'' JStr (sr_LastAttempt r) @ omit_ptr ''data'' id (sr_Data r) @
      omit_str ''reason'' (sr_Reason r) @ omit_str ''searchId'' (sr_SearchID r) @
      omit_str ''error'' (sr_Error r)))"
    by simp
  with assms show ?thesis unfolding enc_sourceResponse_def json_wf_JObj
    by (intro conjI) (simp_all only: set_append ball_Un omit_members, simp_all add: pred_option_def)
qed

lemma enc_statusResponse_wf:
  assumes "distinct (map fst (st_Sources r))" "\<And>k v. (k, v) \<in> set (st_Sources r) \<Longrightarrow> pred_option json_wf (sr_Data v)"
  shows "json_wf (enc_statusResponse r)"
proof -
  have "json_wf (enc_map enc_sourceResponse (st_Sources r))"
    using assms by (intro enc_map_wf enc_sourceResponse_wf)
  moreover have "distinct (map fst ([(''caseId'', JStr (st_CaseID r))] @ omit_str ''runId'' (st_RunID r) @
      [(''status'', JStr (st_Status r)), (''sources'', enc_map enc_sourceResponse (st_Sources r))] @
      omit_ptr ''startedAt'' JStr (st_StartedAt r) @ omit_ptr ''completedAt'' JStr (st_CompletedAt r)))"
    by simp
  ultimately show ?thesis unfolding enc_statusResponse_def json_wf_JObj
    by (intro conjI) (simp_all only: set_append ball_Un omit_members, simp_all add: pred_option_def)
qed

section \<open>The status response\<close>

lemma fold_sources:
  "st_Sources (fold (\<lambda>src r. r\<lparr>st_Sources := AList.update (k src) (f src) (st_Sources r)\<rparr>) ss r) =
     fold (\<lambda>src. AList.update (k src) (f src)) ss (st_Sources r)"
  "st_CaseID (fold (\<lambda>src r. r\<lparr>st_Sources := AList.update (k src) (f src) (st_Sources r)\<rparr>) ss r) = st_CaseID r"
  "st_RunID (fold (\<lambda>src r. r\<lparr>st_Sources := AList.update (k src) (f src) (st_Sources r)\<rparr>) ss r) = st_RunID r"
  "st_Status (fold (\<lambda>src r. r\<lparr>st_Sources := AList.update (k src) (f src) (st_Sources r)\<rparr>) ss r) = st_Status r"
  "st_StartedAt (fold (\<lambda>src r. r\<lparr>st_Sources := AList.update (k src) (f src) (st_Sources r)\<rparr>) ss r) = st_StartedAt r"
  "st_CompletedAt (fold (\<lambda>src r. r\<lparr>st_Sources := AList.update (k src) (f src) (st_Sources r)\<rparr>) ss r) = st_CompletedAt r"
  by (induction ss arbitrary: r) auto

lemma buildStatusResponse_fields:
  "st_CaseID (buildStatusResponse tz res) = c_ID (lr_Case res)"
  "st_Sources (buildStatusResponse tz res) =
     fold (\<lambda>src. AList.update (src_Source src) (sourceResponse_of tz src)) (lr_Sources res) []"
  "lr_Run res = Some r \<Longrightarrow> st_RunID (buildStatusResponse tz res) = run_ID r"
  "lr_Run res = Some r \<Longrightarrow> st_Status (buildStatusResponse tz res) = run_Status r"
  "lr_Run res = Some r \<Longrightarrow>
     st_StartedAt (buildStatusResponse tz res) = Some (format_rfc3339 tz (StartedAt r))"
  "lr_Run res = Some r \<Longrightarrow>
     st_CompletedAt (buildStatusResponse tz res) = map_option (format_rfc3339 tz) (CompletedAt r)"
  by (simp_all add: buildStatusResponse_def Let_def fold_sources split: option.splits)

lemma fold_update_distinct:
  "distinct (map fst m) \<Longrightarrow> distinct (map fst (fold (\<lambda>x. AList.update (k x) (f x)) xs m))"
  by (induction xs arbitrary: m) (simp_all add: distinct_update)

lemma update_fresh: "k \<notin> fst ` set m \<Longrightarrow> AList.update k v m = m @ [(k, v)]"
  by (induction m) auto

lemma fold_update_fresh:
  "distinct (map k xs) \<Longrightarrow> (\<And>x. x \<in> set xs \<Longrightarrow> k x \<notin> fst ` set m) \<Longrightarrow>
     fold (\<lambda>x. AList.update (k x) (f x)) xs m = m @ map (\<lambda>x. (k x, f x)) xs"
proof (induction xs arbitrary: m)
  case (Cons x xs)
  have "fold (\<lambda>x. AList.update (k x) (f x)) xs (m @ [(k x, f x)]) =
      (m @ [(k x, f x)]) @ map (\<lambda>x. (k x, f x)) xs"
    using Cons.prems by (intro Cons.IH) (auto simp: image_iff)
  with Cons.prems(2) [of x] show ?case by (simp add: update_fresh)
qed simp

lemma fold_update_values:
  "(a, v) \<in> set (fold (\<lambda>x. AList.update (k x) (f x)) xs m) \<Longrightarrow>
     (a, v) \<in> set m \<or> (\<exists>x \<in> set xs. a = k x \<and> v = f x)"
proof (induction xs arbitrary: m)
  case (Cons x xs)
  have "set (AList.update (k x) (f x) m) \<subseteq> insert (k x, f x) (set m)" by (induction m) auto
  with Cons.IH [of "AList.update (k x) (f x) m"] Cons.prems show ?case by auto
qed simp

lemma buildStatusResponse_wf:
  assumes "\<forall>s \<in> set (lr_Sources res). pred_option json_wf (Data s)"
  shows "json_wf (enc_statusResponse (buildStatusResponse tz res))"
proof (rule enc_statusResponse_wf)
  show "distinct (map fst (st_Sources (buildStatusResponse tz res)))"
    unfolding buildStatusResponse_fields by (rule fold_update_distinct) simp
  show "pred_option json_wf (sr_Data v)"
    if "(k, v) \<in> set (st_Sources (buildStatusResponse tz res))" for k v
    using fold_update_values [OF that [unfolded buildStatusResponse_fields]] assms
    by (auto simp: sourceResponse_of_def)
qed

section \<open>Rows and the operations of the orchestrator\<close>

text \<open>
  A property of single source rows that new rows have and a reset keeps, such as being in the
  domain of a column. Every row a trigger shows or leaves behind then has it, whatever the
  database does.
\<close>

locale row_property =
  fixes P :: "source_row \<Rightarrow> bool"
  assumes new_row: "P (new_source i r n)"
    and reset: "P s \<Longrightarrow> P (reset_row s)"
begin

definition rows :: "db \<Rightarrow> bool" where
  "rows d \<longleftrightarrow> (\<forall>s \<in> set (lookup_sources d). P s)"

lemma rows_same_tables: "same_tables d d' \<Longrightarrow> rows d' = rows d"
  by (simp add: rows_def same_tables_def)

lemma query_rows:
  "rows d \<Longrightarrow> GetSourcesByRunID i d = (Inr ss, d') \<Longrightarrow> \<forall>s \<in> set ss. P s"
  by (auto simp: GetSourcesByRunID_def db_query_def Let_def rows_def sources_of_def
      split: rows_out.splits if_splits dest!: in_set_takeD)

lemma reset_rows: "rows d \<Longrightarrow> rows (snd (ResetSourcesToPending is d))"
proof (induction "is" arbitrary: d)
  case (Cons i "is")
  from Cons.prems have "rows (snd (db_exec (update_source i reset_row) d))"
    by (cases rule: db_exec_cases [of "update_source i reset_row" d])
      (auto simp: rows_def set_update_where reset)
  with Cons.IH show ?case
    by (cases "db_exec (update_source i reset_row) d") (auto split: option.splits)
qed simp

lemma exec_rows: "rows d \<Longrightarrow> rows (f (next_stmt d)) \<Longrightarrow> rows (snd (db_exec f d))"
  by (cases rule: db_exec_cases [of f d]) (auto simp: rows_def)

lemma run_rows:
  "rows d \<Longrightarrow> rows (snd (ResetRunToPending i d))" "rows d \<Longrightarrow> rows (snd (CompleteRun now i st d))"
  unfolding ResetRunToPending_def CompleteRun_def wrap_opt_simps
  by (rule exec_rows; simp add: rows_def)+

lemma created_rows:
  assumes "rows d" "distinct (map src_ID (lookup_sources d))"
  shows "rows (snd (CreateLookupRun now c d))"
    and "fst (CreateLookupRun now c d) = Inr (r, ss) \<Longrightarrow> \<forall>s \<in> set ss. P s"
proof -
  have new: "\<forall>s \<in> set xs. P s" if "run_created now c q xs d d'" for q xs d'
    using that new_row unfolding run_created_def by metis
  have "rows d'" if "run_created now c q xs d d'" for q xs d'
    using new [OF that] that assms(1) by (auto simp: rows_def run_created_def)
  with CreateLookupRun_cases [OF assms(2), of now c] assms(1)
  show "rows (snd (CreateLookupRun now c d))" using rows_same_tables by blast
  from CreateLookupRun_cases [OF assms(2), of now c] new
  show "fst (CreateLookupRun now c d) = Inr (r, ss) \<Longrightarrow> \<forall>s \<in> set ss. P s" by auto
qed

definition shows_rows :: "(goerr + trigger_out) \<times> db \<Rightarrow> bool" where
  "shows_rows x \<longleftrightarrow> rows (snd x) \<and> (\<forall>out. fst x = Inr out \<longrightarrow> (\<forall>s \<in> set (lr_Sources (fst out)). P s))"

lemma start_run_rows:
  assumes "rows d" "distinct (map src_ID (lookup_sources d))"
  shows "shows_rows (start_run now i c d)"
  using created_rows [OF assms, of now i]
  by (cases "CreateLookupRun now i d") (auto simp: start_run_def shows_rows_def split: sum.splits)

lemma retrigger_rows:
  assumes "rows d" "\<forall>s \<in> set ss. P s"
  shows "shows_rows (retrigger now c r ss d)"
proof -
  obtain res d1 where g: "GetRetryableSources (run_ID r) d = (res, d1)" by fastforce
  have i1: "rows d1" using read_same_tables(5) [of d "run_ID r"] assms(1) by (simp add: g rows_same_tables)
  show ?thesis
  proof (cases res)
    case (Inr xs)
    obtain e2 d2 where rs: "ResetSourcesToPending (map src_ID xs) d1 = (e2, d2)" by fastforce
    have i2: "rows d2" using reset_rows [OF i1, of "map src_ID xs"] by (simp add: rs)
    obtain e3 d3 where rr: "ResetRunToPending (run_ID r) d2 = (e3, d3)" by fastforce
    have i3: "rows d3" using run_rows(1) [OF i2, of "run_ID r"] by (simp add: rr)
    obtain y d4 where gs: "GetSourcesByRunID (run_ID r) d3 = (y, d4)" by fastforce
    have i4: "rows d4" using read_same_tables(4) [of d3 "run_ID r"] i3 by (simp add: gs rows_same_tables)
    have "\<forall>zs. y = Inr zs \<longrightarrow> (\<forall>s \<in> set zs. P s)" using query_rows [OF i3] gs by blast
    then show ?thesis
      using i1 i2 i3 i4 Inr run_rows(2) [OF i1, of now "run_ID r" StatusComplete] assms(2)
      by (cases e2; cases e3) (auto simp: retrigger_def shows_rows_def g rs rr gs Let_def split: prod.splits sum.splits)
  qed (simp add: retrigger_def shows_rows_def g i1)
qed

lemma TriggerLookup_rows:
  assumes "rows d" "distinct (map src_ID (lookup_sources d))"
  shows "shows_rows (TriggerLookup now i d)"
proof -
  obtain x1 d1 where g1: "GetCaseByID i d = (x1, d1)" by fastforce
  have i1: "same_tables d d1" using read_same_tables(1) [of d i] by (simp add: g1)
  obtain x2 d2 where g2: "GetLookupRunByCaseID i d1 = (x2, d2)" by fastforce
  have i2: "same_tables d d2" using read_same_tables(3) [of d1 i] i1 by (auto simp: g2 intro: same_tables_trans)
  have r: "rows d1" "rows d2" "distinct (map src_ID (lookup_sources d2))"
    using i1 i2 assms by (simp_all add: rows_same_tables) (simp add: same_tables_def)
  show ?thesis
  proof (cases "\<exists>c r. x1 = Inr (Some c) \<and> x2 = Inr (Some r)")
    case True
    then obtain c q where cr: "x1 = Inr (Some c)" "x2 = Inr (Some q)" by blast
    obtain x3 d3 where g3: "GetSourcesByRunID (run_ID q) d2 = (x3, d3)" by fastforce
    have i3: "same_tables d2 d3" using read_same_tables(4) [of d2 "run_ID q"] by (simp add: g3)
    then have d3: "rows d3" "distinct (map src_ID (lookup_sources d3))"
      using r by (simp_all add: rows_same_tables) (simp add: same_tables_def)
    show ?thesis
    proof (cases x3)
      case (Inr ss)
      have "\<forall>s \<in> set ss. P s" using query_rows [OF r(2)] g3 Inr by blast
      with cr d3 Inr retrigger_rows [OF d3(1) this, of now c q] start_run_rows [OF d3, of now i c]
      show ?thesis by (auto simp: TriggerLookup_def g1 g2 g3) (auto simp: shows_rows_def)
    qed (simp add: TriggerLookup_def g1 g2 g3 cr d3 shows_rows_def)
  next
    case False
    with r start_run_rows [OF r(2,3), of now i] show ?thesis
      by (auto simp: TriggerLookup_def g1 g2 split: sum.splits option.splits) (auto simp: shows_rows_def)
  qed
qed

end

definition payload_wf :: "source_row \<Rightarrow> bool" where
  "payload_wf s \<longleftrightarrow> pred_option json_wf (Data s)"

interpretation payloads: row_property payload_wf
  by unfold_locales (simp_all add: payload_wf_def new_source_def reset_row_def)

section \<open>What the handlers answer\<close>

lemma writeJSON_simps [simp]: "api_code (writeJSON c v) = c" "api_body (writeJSON c v) = v"
  by (simp_all add: writeJSON_def)

lemma errorResponse_wf [simp]: "json_wf (errorResponse msg)"
  by (simp add: errorResponse_def)

lemma errorResponse_inject [simp]: "errorResponse a = errorResponse b \<longleftrightarrow> a = b"
  by (simp add: errorResponse_def)

lemma lookup_error_simps [simp]:
  "api_body (lookup_error e) = errorResponse (error_text e)"
  "api_code (lookup_error e) = (if str_contains (error_text e) ''not found'' then 404 else 500)"
  by (simp_all add: lookup_error_def)

lemma status_not_error: "enc_statusResponse r \<noteq> errorResponse msg"
  by (simp add: enc_statusResponse_def errorResponse_def)

lemma LookupCase_split:
  "i \<noteq> [] \<Longrightarrow> LookupCase tz now i d =
     ((case fst (TriggerLookup now i d) of
         Inl err \<Rightarrow> (lookup_error err, None)
       | Inr (result, code, launched) \<Rightarrow>
           (writeJSON code (enc_statusResponse (buildStatusResponse tz result)), launched)),
      snd (TriggerLookup now i d))"
  by (cases "TriggerLookup now i d") (auto simp: LookupCase_def split: sum.splits)

lemma LookupCase_wf:
  assumes "\<forall>s \<in> set (lookup_sources d). payload_wf s" "distinct (map src_ID (lookup_sources d))"
  shows "json_wf (api_body (fst (fst (LookupCase tz now i d))))"
proof (cases "i = []")
  case False
  from payloads.TriggerLookup_rows [of d now i] assms
  have "\<forall>out. fst (TriggerLookup now i d) = Inr out \<longrightarrow> (\<forall>s \<in> set (lr_Sources (fst out)). payload_wf s)"
    by (simp add: payloads.rows_def payloads.shows_rows_def)
  then show ?thesis
    using False by (auto simp: LookupCase_split payload_wf_def split: sum.splits intro!: buildStatusResponse_wf)
qed (simp add: LookupCase_def)

lemma GetStatus_rows:
  assumes "\<forall>s \<in> set (lookup_sources d). payload_wf s" "GetStatus i d = (Inr res, d')"
  shows "\<forall>s \<in> set (lr_Sources res). payload_wf s"
proof -
  obtain x1 d1 where g1: "GetCaseByID i d = (x1, d1)" by fastforce
  have i1: "same_tables d d1" using read_same_tables(1) [of d i] by (simp add: g1)
  obtain x2 d2 where g2: "GetLookupRunByCaseID i d1 = (x2, d2)" by fastforce
  have i2: "same_tables d d2" using read_same_tables(3) [of d1 i] i1 by (auto simp: g2 intro: same_tables_trans)
  then have "payloads.rows d2" using assms(1) by (simp add: payloads.rows_same_tables) (simp add: payloads.rows_def)
  with assms(2) payloads.query_rows [of d2] show ?thesis
    by (auto simp: GetStatus_def g1 g2 split: sum.splits option.splits prod.splits)
qed

lemma GetLookupStatus_wf:
  assumes "\<forall>s \<in> set (lookup_sources d). payload_wf s"
  shows "json_wf (api_body (fst (GetLookupStatus tz i d)))"
proof (cases "fst (GetStatus i d)")
  case (Inr res)
  have "\<forall>s \<in> set (lr_Sources res). pred_option json_wf (Data s)"
    using GetStatus_rows [OF assms, of i res] Inr by (simp add: prod_eq_iff payload_wf_def)
  then show ?thesis using Inr buildStatusResponse_wf [of res tz]
    by (cases "GetStatus i d") (simp add: GetLookupStatus_def not_started_def)
qed (cases "GetStatus i d"; simp add: GetLookupStatus_def)

lemma case_summary_wf [simp]: "json_wf (case_summary c st)"
  by (cases st) (simp_all add: case_summary_def omit_ptr_def)

lemma summaries_wf: "\<forall>j \<in> set (fst (summaries cs d)). json_wf j"
  by (induction cs arbitrary: d) (simp_all add: Let_def split_beta)

lemma ListCases_wf: "json_wf (api_body (fst (ListCasesHandler d)))"
  using summaries_wf by (auto simp: ListCasesHandler_def Let_def split_beta split: sum.splits)

lemma cb_report_eq:
  "cb_report now cbs m =
     (fold (\<lambda>cb. AList.update (cb_name cb)
        \<lparr>ci_State = CBState_string (fst (CB_State now cb)), ci_Failures = failures cb\<rparr>) cbs m,
      map (\<lambda>cb. snd (CB_State now cb)) cbs)"
proof (induction cbs arbitrary: m)
  case (Cons cb cbs)
  have "CB_Failures (snd (CB_State now cb)) = failures cb"
    by (simp add: CB_Failures_def CB_State_def Let_def)
  with Cons show ?case by (simp add: Let_def split_beta CB_Name_def)
qed simp

lemma Health_wf: "json_wf (api_body (fst (Health now ping bs)))"
proof -
  have "json_wf (enc_map enc_cbInfo (fst (cb_report now bs [])))"
    unfolding cb_report_eq fst_conv
    by (intro enc_map_wf fold_update_distinct) (simp_all add: enc_cbInfo_def)
  then show ?thesis by (simp add: Health_def Let_def split_beta enc_healthResponse_def)
qed

lemma summaries_healthy:
  assumes "healthy d"
  shows "fst (summaries cs d) =
    map (\<lambda>c. case_summary c (map_option run_Status (find (\<lambda>r. run_CaseID r = c_ID c) (lookup_runs d)))) cs"
  using assms
  by (induction cs arbitrary: d) (auto simp: healthy_reads Let_def split_beta split: option.splits)

lemma run_sources_sorted:
  assumes "db_inv d" "r \<in> set (lookup_runs d)"
  shows "map src_Source (sort_key src_Source (sources_of (run_ID r) d)) =
    [SourceCourtRecords, SourcePropertyRecords, SourceSCRA]"
proof -
  have "map src_Source (sources_of (run_ID r) d) = source_names" using assms by (auto simp: db_inv_def)
  then obtain p c s where "sources_of (run_ID r) d = [p, c, s]" "src_Source p = SourcePropertyRecords"
    "src_Source c = SourceCourtRecords" "src_Source s = SourceSCRA"
    by (auto simp: source_names_def)
  then show ?thesis by (simp add: source_name_defs)
qed

section \<open>Properties\<close>

text \<open>
  What \<^verbatim>\<open>POST /api/cases/{id}/enrich\<close> can answer, whatever statements of the
  database fail: the code is one of 200, 202, 400, 404 and 500; 400 is the answer to an empty
  ID and to nothing else; a lookup goroutine is started exactly with 202; the body is an error
  object exactly for the codes from 400 on; and the tables stay consistent.
\<close>

theorem LookupCase_answers:
  assumes "db_inv d" and "LookupCase tz now i d = ((resp, launched), d')"
  shows "api_code resp \<in> {200, 202, 400, 404, 500} \<and> (api_code resp = 400 \<longleftrightarrow> i = []) \<and>
    (api_code resp = 202 \<longleftrightarrow> launched \<noteq> None) \<and>
    (400 \<le> api_code resp \<longleftrightarrow> (\<exists>msg. api_body resp = errorResponse msg)) \<and> db_inv d'"
proof (cases "i = []")
  case True
  with assms show ?thesis by (auto simp: LookupCase_def)
next
  case False
  with assms TriggerLookup_ok [OF assms(1), of now i] show ?thesis
    by (auto simp: LookupCase_split trigger_ok_def status_not_error split: sum.splits prod.splits if_splits)
qed

theorem LookupCase_answers_witness:
  "api_code (fst (fst (LookupCase 0 5 [] sample_db))) = 400"
  using LookupCase_answers [OF sample_db_ok(1), of 0 5 "[]"] by (metis prod.collapse)



lemma status_reported:
  assumes "healthy d" "db_inv d" "i \<noteq> []"
    and "find (\<lambda>c. c_ID c = i) (cases d) = Some c"
    and "find (\<lambda>r. run_CaseID r = i) (lookup_runs d) = Some r"
  shows "\<exists>resp d'. GetLookupStatus tz i d = (writeJSON 200 (enc_statusResponse resp), d') \<and>
    same_tables d d' \<and> st_CaseID resp = i \<and> st_RunID resp = run_ID r \<and> st_Status resp = run_Status r \<and>
    st_CompletedAt resp = map_option (format_rfc3339 tz) (CompletedAt r) \<and>
    map fst (st_Sources resp) = [SourceCourtRecords, SourcePropertyRecords, SourceSCRA] \<and>
    set (st_Sources resp) = (\<lambda>s. (src_Source s, sourceResponse_of tz s)) ` set (sources_of (run_ID r) d)"
proof -
  let ?ss = "sort_key src_Source (sources_of (run_ID r) d)"
  let ?res = "\<lparr>lr_Case = c, lr_Run = Some r, lr_Sources = ?ss\<rparr>"
  have r: "r \<in> set (lookup_runs d)" and c: "c_ID c = i" using assms(4,5) find_SomeD by fastforce+
  note names = run_sources_sorted [OF assms(2) r]
  have "distinct (map src_Source ?ss)" unfolding names by simp
  then have src: "st_Sources (buildStatusResponse tz ?res) = map (\<lambda>s. (src_Source s, sourceResponse_of tz s)) ?ss"
    by (simp add: buildStatusResponse_fields fold_update_fresh)
  have "GetLookupStatus tz i d = (writeJSON 200 (enc_statusResponse (buildStatusResponse tz ?res)),
      next_stmt (next_stmt (next_stmt d)))"
    using assms by (simp add: GetLookupStatus_def GetStatus_def healthy_reads)
  moreover have "map fst (st_Sources (buildStatusResponse tz ?res)) = map src_Source ?ss"
    by (simp add: src comp_def)
  moreover have "set (st_Sources (buildStatusResponse tz ?res)) =
      (\<lambda>s. (src_Source s, sourceResponse_of tz s)) ` set (sources_of (run_ID r) d)"
    unfolding src set_map by simp
  ultimately show ?thesis
    unfolding names by (intro exI [of _ "buildStatusResponse tz ?res"] exI [of _ "next_stmt (next_stmt (next_stmt d))"])
      (simp add: buildStatusResponse_fields c same_tables_def same_server_def)
qed

lemma find_distinct: "distinct (map f xs) \<Longrightarrow> x \<in> set xs \<Longrightarrow> find (\<lambda>y. f y = f x) xs = Some x"
  by (induction xs) (auto simp: image_iff)

text \<open>What the status endpoint reports once a lookup of a case is over.\<close>

lemma lookup_reported:
  assumes run: "runLookup sched ws now c r o0 = RunDone o1 t"
    and "healthy (store o0)" "db_inv (store o0)" "rl_live (courtLimiter o0)"
    and "find (\<lambda>c. c_ID c = i) (cases (store o0)) = Some c0" "i \<noteq> []"
    and sched: "\<And>ss. mset (sched ss) = mset ss"
    and r0: "r0 \<in> set (lookup_runs (store o0))" "run_ID r0 = run_ID r" "run_CaseID r0 = i"
  shows "\<exists>resp d2. GetLookupStatus tz i (store o1) = (writeJSON 200 (enc_statusResponse resp), d2) \<and>
    st_RunID resp = run_ID r \<and>
    st_Status resp = computeOverallStatus (sources_of (run_ID r) (store o1)) \<and>
    st_CompletedAt resp = Some (format_rfc3339 tz t) \<and>
    map fst (st_Sources resp) = [SourceCourtRecords, SourcePropertyRecords, SourceSCRA] \<and>
    set (st_Sources resp) = (\<lambda>s. (src_Source s, sourceResponse_of tz s)) ` set (sources_of (run_ID r) (store o1)) \<and>
    (\<forall>s \<in> set (sources_of (run_ID r) (store o1)). src_Status s \<in> insert SourceStatusNotApplicable outcomes)"
proof -
  let ?r = "r0\<lparr>run_Status := computeOverallStatus (sources_of (run_ID r) (store o1)), CompletedAt := Some t\<rparr>"
  have fin: "?r \<in> set (lookup_runs (store o1))"
    and res: "\<forall>s \<in> set (sources_of (run_ID r) (store o1)). src_Status s \<in> insert SourceStatusNotApplicable outcomes"
    using lookup_resolves [OF run assms(4,3,2) sched r0(1,2)] by blast+
  have srv: "same_server (store o0) (store o1)" using runLookup_healthy [OF run assms(4,3,2) sched] by blast
  have inv: "db_inv (store o1)"
    using runLookup_inv [OF run] assms(3,4) sched source_names_inv [OF assms(3)] by auto
  have c1: "find (\<lambda>c. c_ID c = i) (cases (store o1)) = Some c0"
    using srv assms(5) by (simp add: same_server_def)
  have r1: "find (\<lambda>q. run_CaseID q = i) (lookup_runs (store o1)) = Some ?r"
    using find_distinct [of run_CaseID "lookup_runs (store o1)" ?r] fin inv r0(3)
    by (simp add: db_inv_def)
  have "healthy (store o1)" using assms(2) healthy_same_server [OF srv] by simp
  from status_reported [OF this inv assms(6) c1 r1, of tz] r0(2) res show ?thesis by auto
qed

lemma first_lookup_reported:
  assumes "healthy (store o0)" "db_inv (store o0)" "rl_live (courtLimiter o0)"
    and "find (\<lambda>c. c_ID c = i) (cases (store o0)) = Some c" "i \<noteq> []"
    and sched: "\<And>ss. mset (sched ss) = mset ss"
    and rc: "run_created now i r ss (store o0) d1" and inv1: "db_inv d1"
    and run: "runLookup sched ws now c r (o0\<lparr>store := d1\<rparr>) = RunDone o1 t"
  shows "\<exists>resp d2. GetLookupStatus tz i (store o1) = (writeJSON 200 (enc_statusResponse resp), d2) \<and>
    st_RunID resp = run_ID r \<and>
    st_Status resp = computeOverallStatus (sources_of (run_ID r) (store o1)) \<and>
    st_CompletedAt resp = Some (format_rfc3339 tz t) \<and>
    map fst (st_Sources resp) = [SourceCourtRecords, SourcePropertyRecords, SourceSCRA] \<and>
    set (st_Sources resp) = (\<lambda>s. (src_Source s, sourceResponse_of tz s)) ` set (sources_of (run_ID r) (store o1)) \<and>
    (\<forall>s \<in> set (sources_of (run_ID r) (store o1)). src_Status s \<in> insert SourceStatusNotApplicable outcomes)"
proof -
  have srv: "same_server (store o0) d1" using rc by (simp add: run_created_def)
  have "healthy (store (o0\<lparr>store := d1\<rparr>))" using healthy_same_server [OF srv] assms(1) by simp
  moreover have "find (\<lambda>c. c_ID c = i) (cases (store (o0\<lparr>store := d1\<rparr>))) = Some c"
    using srv assms(4) by (simp add: same_server_def)
  ultimately show ?thesis
    using lookup_reported [OF run, of i c r tz] assms(3,5) sched inv1 rc by (simp add: run_created_def)
qed

text \<open>
  \<^verbatim>\<open>GET /api/cases/{id}/enrichment\<close> reports the run of the case and shows exactly
  its three sources, in the order of their names, each with the contents of its row.
\<close>

theorem GetLookupStatus_reports:
  assumes "healthy d" "db_inv d" "i \<noteq> []"
    and "find (\<lambda>c. c_ID c = i) (cases d) = Some c"
    and "find (\<lambda>r. run_CaseID r = i) (lookup_runs d) = Some r"
  shows "\<exists>resp d'. GetLookupStatus tz i d = (writeJSON 200 (enc_statusResponse resp), d') \<and>
    same_tables d d' \<and> st_CaseID resp = i \<and> st_RunID resp = run_ID r \<and> st_Status resp = run_Status r \<and>
    st_CompletedAt resp = map_option (format_rfc3339 tz) (CompletedAt r) \<and>
    map fst (st_Sources resp) = [SourceCourtRecords, SourcePropertyRecords, SourceSCRA] \<and>
    set (st_Sources resp) = (\<lambda>s. (src_Source s, sourceResponse_of tz s)) ` set (sources_of (run_ID r) d)"
  using assms by (rule status_reported)

theorem GetLookupStatus_reports_witness:
  "\<exists>resp d'. GetLookupStatus 0 ''C1'' (sample_run_db StatusPartial) = (writeJSON 200 (enc_statusResponse resp), d') \<and>
    map fst (st_Sources resp) = [SourceCourtRecords, SourcePropertyRecords, SourceSCRA]"
  using GetLookupStatus_reports [of "sample_run_db StatusPartial" "''C1''" sample_case
      "sample_run StatusPartial" 0, OF sample_run_db_ok(1) sample_run_db_ok(2) _ sample_run_db_ok(4,5)]
  by auto



text \<open>
  \<^verbatim>\<open>GET /api/health\<close> answers 503 exactly when the database does not answer, lists
  each breaker with its state and failures in the order of the names, and leaves every breaker
  as reading its state leaves it.
\<close>

theorem Health_answers:
  assumes "Health now ping breakers = (resp, breakers')" and "distinct (map cb_name breakers)"
  shows "api_code resp = (if ping = None then 200 else 503) \<and>
    breakers' = map (\<lambda>cb. snd (CB_State now cb)) breakers \<and>
    (\<exists>m. api_body resp = JObj [(''status'', JStr (if ping = None then ''healthy'' else ''unhealthy'')),
           (''db'', JStr (if ping = None then ''up'' else ''down'')), (''circuitBreakers'', JObj m)] \<and>
         sorted (map fst m) \<and>
         set m = (\<lambda>cb. (cb_name cb, JObj [(''state'', JStr (CBState_string (fst (CB_State now cb)))),
                                          (''failures'', JInt (failures cb))])) ` set breakers)"
proof -
  let ?f = "\<lambda>cb. \<lparr>ci_State = CBState_string (fst (CB_State now cb)), ci_Failures = failures cb\<rparr>"
  let ?m = "map (\<lambda>cb. (cb_name cb, ?f cb)) breakers"
  have rep: "cb_report now breakers [] = (?m, map (\<lambda>cb. snd (CB_State now cb)) breakers)"
    using assms(2) by (simp add: cb_report_eq fold_update_fresh)
  have fst_map: "map fst (map (\<lambda>(k, v). (k, g v)) xs) = map fst xs" for g :: "cbInfo \<Rightarrow> json" and xs :: "(string \<times> cbInfo) list"
    by (induction xs) auto
  have "sorted (map fst (map (\<lambda>(k, v). (k, enc_cbInfo v)) (sort_key fst ?m)))"
    unfolding fst_map by (rule sorted_sort_key)
  moreover have "set (map (\<lambda>(k, v). (k, enc_cbInfo v)) (sort_key fst ?m)) =
      (\<lambda>cb. (cb_name cb, enc_cbInfo (?f cb))) ` set breakers"
    unfolding set_map set_sort by (simp add: image_image)
  ultimately show ?thesis
    using assms(1) unfolding Health_def rep Let_def
    by (auto simp: enc_healthResponse_def enc_map_def enc_cbInfo_def simp del: map_map sort_key_simps)
qed

theorem Health_answers_witness:
  "api_code (fst (Health 0 (Some ErrTimeout) [NewCircuitBreaker ''scra'' 5 30])) = 503"
proof -
  obtain resp bs where h: "Health 0 (Some ErrTimeout) [NewCircuitBreaker ''scra'' 5 30] = (resp, bs)" by fastforce
  from Health_answers [OF h] h show ?thesis by simp
qed

text \<open>
  \<^verbatim>\<open>GET /api/cases\<close> lists the cases in the order of their IDs, each with the status of
  its own run, if it has one.
\<close>

theorem ListCases_answers:
  assumes "healthy d"
  shows "fst (ListCasesHandler d) = writeJSON 200 (JArr
    (map (\<lambda>c. case_summary c (map_option run_Status (find (\<lambda>r. run_CaseID r = c_ID c) (lookup_runs d))))
       (sort_key c_ID (cases d))))"
  using assms summaries_healthy [of "next_stmt d"]
  by (simp add: ListCasesHandler_def ListCases_def healthy_query Let_def split_beta)

theorem ListCases_answers_witness:
  "fst (ListCasesHandler (sample_run_db StatusPartial)) = writeJSON 200 (JArr [case_summary sample_case (Some StatusPartial)])"
  using ListCases_answers [OF sample_run_db_ok(1)]
  by (simp add: sample_run_db_def sample_run_def sample_db_def) (simp add: sample_case_def)

end
