(* ===== verification/Concurrency.thy ===== *)
theory Concurrency
  imports Handler
begin

text \<open>
  Requests and lookups that run at the same time. \<open>TriggerLookup\<close> and \<open>runLookup\<close> are
  recast as programs whose steps are the single statements they send to the database (a
  transaction counts as one: its rows appear with the commit, and a concurrent insert for the
  same case waits for it). The gateway is then a list of such threads over one database, and
  its steps interleave them freely.
\<close>

section \<open>Programs of statements\<close>

datatype 'a prog = Return 'a | Stmt "db \<Rightarrow> 'a prog \<times> db"

primrec bind_prog :: "'a prog \<Rightarrow> ('a \<Rightarrow> 'b prog) \<Rightarrow> 'b prog" where
  "bind_prog (Return x) f = f x"
| "bind_prog (Stmt g) f = Stmt (map_prod (\<lambda>p. bind_prog p f) id \<circ> g)"

definition call :: "(db \<Rightarrow> 'a \<times> db) \<Rightarrow> 'a prog" where
  "call f = Stmt (map_prod Return id \<circ> f)"

text \<open>What a program does when nothing else runs.\<close>

primrec run_prog :: "'a prog \<Rightarrow> db \<Rightarrow> 'a \<times> db" where
  "run_prog (Return x) = (\<lambda>d. (x, d))"
| "run_prog (Stmt g) = (\<lambda>d. case map_prod run_prog id (g d) of (h, d') \<Rightarrow> h d')"

lemma bind_assoc: "bind_prog (bind_prog p f) h = bind_prog p (\<lambda>x. bind_prog (f x) h)"
proof (induction p)
  case (Stmt g)
  have "bind_prog (bind_prog (fst (g d)) f) h = bind_prog (fst (g d)) (\<lambda>x. bind_prog (f x) h)" for d
    by (rule Stmt [OF rangeI, of _ d]) (simp add: fsts.simps prod_eq_iff)
  then show ?case by (simp add: fun_eq_iff prod_eq_iff)
qed simp

lemma run_bind [simp]:
  "run_prog (bind_prog p f) d = (case run_prog p d of (x, d') \<Rightarrow> run_prog (f x) d')"
proof (induction p arbitrary: d)
  case (Stmt g)
  show ?case
  proof (cases "g d")
    case (Pair p' d')
    then have "p' \<in> Basic_BNFs.fsts (g d)" by (simp add: fsts.simps)
    from Stmt [OF rangeI this] Pair show ?thesis by simp
  qed
qed simp

lemma run_call [simp]: "run_prog (call f) d = f d"
  by (cases "f d") (simp add: call_def)

section \<open>The operations of the orchestrator as programs\<close>

definition start_prog :: "time \<Rightarrow> string \<Rightarrow> case_row \<Rightarrow> (goerr + trigger_out) prog" where
  "start_prog now caseID c =
     bind_prog (call (CreateLookupRun now caseID)) (\<lambda>x. Return
       (case x of
          Inl err \<Rightarrow> Inl (wrap_ctx ''create lookup run'' err)
        | Inr (run, sources) \<Rightarrow>
            Inr (\<lparr>lr_Case = c, lr_Run = Some run, lr_Sources = sources\<rparr>, 202, Some (c, run))))"

primrec reset_prog :: "string list \<Rightarrow> goerr option prog" where
  "reset_prog [] = Return None"
| "reset_prog (i # is) =
     bind_prog (call (db_exec (update_source i reset_row))) (\<lambda>x.
       case x of
         Some e \<Rightarrow> Return (Some (wrap_ctx (''reset source '' @ i) e))
       | None \<Rightarrow> reset_prog is)"

definition retrigger_prog ::
  "time \<Rightarrow> case_row \<Rightarrow> lookup_run \<Rightarrow> source_row list \<Rightarrow> (goerr + trigger_out) prog"
where
  "retrigger_prog now c run sources =
     bind_prog (call (GetRetryableSources (run_ID run))) (\<lambda>x.
       case x of
         Inl err \<Rightarrow> Return (Inl (wrap_ctx ''get retryable sources'' err))
       | Inr retryable \<Rightarrow>
           if retryable = [] then
             bind_prog (call (CompleteRun now (run_ID run) StatusComplete)) (\<lambda>_.
               Return (Inr (\<lparr>lr_Case = c, lr_Run = Some (run\<lparr>run_Status := StatusComplete\<rparr>),
                             lr_Sources = sources\<rparr>, 200, None)))
           else
             bind_prog (reset_prog (map src_ID retryable)) (\<lambda>x.
               case x of
                 Some err \<Rightarrow> Return (Inl (wrap_ctx ''reset sources'' err))
               | None \<Rightarrow>
                   bind_prog (call (ResetRunToPending (run_ID run))) (\<lambda>x.
                     case x of
                       Some err \<Rightarrow> Return (Inl (wrap_ctx ''reset run'' err))
                     | None \<Rightarrow>
                         (let run1 = run\<lparr>run_Status := StatusPending\<rparr> in
                          bind_prog (call (GetSourcesByRunID (run_ID run1))) (\<lambda>res.
                            let sources1 = (case res of Inl _ \<Rightarrow> [] | Inr ss \<Rightarrow> ss) in
                            Return (Inr (\<lparr>lr_Case = c, lr_Run = Some run1, lr_Sources = sources1\<rparr>,
                                         202, Some (c, run1))))))))"

definition Trigger_prog :: "time \<Rightarrow> string \<Rightarrow> (goerr + trigger_out) prog" where
  "Trigger_prog now caseID =
     bind_prog (call (GetCaseByID caseID)) (\<lambda>x.
       case x of
         Inl err \<Rightarrow> Return (Inl (wrap_ctx ''get case'' err))
       | Inr None \<Rightarrow> Return (Inl (ErrorString (''case '' @ caseID @ '' not found'')))
       | Inr (Some c) \<Rightarrow>
           bind_prog (call (GetLookupRunByCaseID caseID)) (\<lambda>x.
             case x of
               Inl err \<Rightarrow> Return (Inl (wrap_ctx ''get lookup run'' err))
             | Inr None \<Rightarrow> start_prog now caseID c
             | Inr (Some run) \<Rightarrow>
                 bind_prog (call (GetSourcesByRunID (run_ID run))) (\<lambda>x.
                   case x of
                     Inl err \<Rightarrow> Return (Inl (wrap_ctx ''get sources'' err))
                   | Inr sources \<Rightarrow>
                       if run_Status run = StatusComplete \<or> run_Status run = StatusPending then
                         Return (Inr (\<lparr>lr_Case = c, lr_Run = Some run, lr_Sources = sources\<rparr>, 200, None))
                       else if run_Status run = StatusPartial \<or> run_Status run = StatusFailed then
                         retrigger_prog now c run sources
                       else start_prog now caseID c)))"

text \<open>
  A lookup, seen from the database: \<open>results\<close> gives what the source goroutines write, in the
  order of their statements, and \<open>t\<close> is the time at the end.
\<close>

type_synonym result_writes = "source_row list \<Rightarrow> (time \<times> SetSourceResultParams) list"

primrec write_prog :: "(time \<times> SetSourceResultParams) list \<Rightarrow> unit prog" where
  "write_prog [] = Return ()"
| "write_prog (q # qs) = bind_prog (call (SetSourceResult (fst q) (snd q))) (\<lambda>_. write_prog qs)"

definition Lookup_prog ::
  "(source_row list \<Rightarrow> source_row list) \<Rightarrow> result_writes \<Rightarrow> time \<Rightarrow> lookup_run \<Rightarrow> unit prog"
where
  "Lookup_prog sched results t run =
     bind_prog (call (GetSourcesByRunID (run_ID run))) (\<lambda>x.
       case x of
         Inl err \<Rightarrow> Return ()
       | Inr sources \<Rightarrow>
           bind_prog (write_prog (results (sched (filter unresolved sources)))) (\<lambda>_.
             bind_prog (call (GetSourcesByRunID (run_ID run))) (\<lambda>res.
               let sources1 = (case res of Inl _ \<Rightarrow> [] | Inr ss \<Rightarrow> ss) in
               bind_prog (call (CompleteRun t (run_ID run) (computeOverallStatus sources1))) (\<lambda>_.
                 Return ()))))"

text \<open>One result per source, with a status a processor can report.\<close>

definition valid_results :: "result_writes \<Rightarrow> bool" where
  "valid_results results \<longleftrightarrow> (\<forall>ss.
     map (\<lambda>q. p_SourceID (snd q)) (results ss) = map src_ID ss \<and>
     (\<forall>q \<in> set (results ss). p_Status (snd q) \<in> insert SourceStatusNotApplicable outcomes))"

section \<open>The programs are the operations\<close>

lemma run_reset_prog [simp]: "run_prog (reset_prog is) d = ResetSourcesToPending is d"
  by (induction "is" arbitrary: d) (auto split: prod.splits option.splits)

lemma run_start_prog [simp]: "run_prog (start_prog now i c) d = start_run now i c d"
  by (simp add: start_prog_def start_run_def split: prod.splits sum.splits)

lemma run_retrigger_prog [simp]: "run_prog (retrigger_prog now c r ss) d = retrigger now c r ss d"
  by (simp add: retrigger_prog_def retrigger_def Let_def split: prod.splits sum.splits option.splits)

lemma run_Trigger_prog: "run_prog (Trigger_prog now i) d = TriggerLookup now i d"
  by (simp add: Trigger_prog_def TriggerLookup_def split: prod.splits sum.splits option.splits)

lemma run_write_prog: "snd (run_prog (write_prog qs) d) = fold (\<lambda>q d. snd (SetSourceResult (fst q) (snd q) d)) qs d"
  by (induction qs arbitrary: d) (simp_all add: split_beta)

lemma process_all_writes:
  assumes "process_all c ws now ss o0 t0 = RunDone o1 t" "rl_live (courtLimiter o0)"
    and "\<forall>s \<in> set ss. src_Source s \<in> set source_names"
  shows "\<exists>qs. map (\<lambda>q. p_SourceID (snd q)) qs = map src_ID ss \<and>
    (\<forall>q \<in> set qs. p_Status (snd q) \<in> insert SourceStatusNotApplicable outcomes) \<and>
    store o1 = fold (\<lambda>q d. snd (SetSourceResult (fst q) (snd q) d)) qs (store o0)"
  using assms
proof (induction ss arbitrary: o0 t0)
  case (Cons s ss)
  from Cons.prems(1) obtain o2 w2 where
    p: "processSource Background c s o0 ((ws (src_ID s))\<lparr>clock := now\<rparr>) = Finished o2 w2"
      "process_all c ws now ss o2 (max t0 (clock w2)) = RunDone o1 t"
    by (auto split: proc_out.splits)
  from dispatch.proc_resolves [OF _ p(1)] Cons.prems obtain q where
    q: "resolves (insert SourceStatusNotApplicable outcomes) 33 s o0 ((ws (src_ID s))\<lparr>clock := now\<rparr>) q o2 w2"
    by auto
  then have "rl_live (courtLimiter o2)" using Cons.prems(2) by (simp add: resolves_def)
  from Cons.IH [OF p(2) this] Cons.prems(3) obtain qs where
    "map (\<lambda>q. p_SourceID (snd q)) qs = map src_ID ss"
    "\<forall>q \<in> set qs. p_Status (snd q) \<in> insert SourceStatusNotApplicable outcomes"
    "store o1 = fold (\<lambda>q d. snd (SetSourceResult (fst q) (snd q) d)) qs (store o2)" by auto
  with q show ?case by (intro exI [of _ "(clock w2, q) # qs"]) (simp add: resolves_def)
qed simp

definition some_result :: "source_row \<Rightarrow> time \<times> SetSourceResultParams" where
  "some_result s = (0, \<lparr>p_SourceID = src_ID s, p_Status = SourceStatusFailed, p_Attempts = 1,
     p_Data = None, p_ErrorMsg = None, p_Reason = None, p_SearchID = None\<rparr>)"

lemma valid_some_results: "valid_results (map some_result)"
  by (simp add: valid_results_def some_result_def)

lemma read_sources_subset:
  "GetSourcesByRunID i d = (Inr ss, d') \<Longrightarrow> set ss \<subseteq> set (lookup_sources d)"
  by (auto simp: GetSourcesByRunID_def db_query_def Let_def sources_of_def
      split: rows_out.splits if_splits dest: in_set_takeD)

lemma runLookup_prog:
  assumes "runLookup sched ws now c run o0 = RunDone o1 t" "rl_live (courtLimiter o0)"
    and "db_inv (store o0)" and sched: "\<And>ss. mset (sched ss) = mset ss"
  shows "\<exists>results. valid_results results \<and>
    store o1 = snd (run_prog (Lookup_prog sched results t run) (store o0))"
proof -
  obtain res d where g: "GetSourcesByRunID (run_ID run) (store o0) = (res, d)" by fastforce
  show ?thesis
  proof (cases res)
    case (Inl e)
    with assms(1) g valid_some_results show ?thesis
      by (intro exI [of _ "map some_result"]) (auto simp: runLookup_def Lookup_prog_def)
  next
    case (Inr ss)
    let ?todo = "sched (filter unresolved ss)"
    have "set ?todo \<subseteq> set (lookup_sources (store o0))"
      using read_sources_subset [OF g [unfolded Inr]] sched by (metis filter_is_subset set_mset_mset subset_trans)
    then have names: "\<forall>s \<in> set ?todo. src_Source s \<in> set source_names"
      using source_names_inv [OF assms(3)] by blast
    from assms(1) g Inr obtain o2 where
      p: "process_all c ws now ?todo (o0\<lparr>store := d\<rparr>) now = RunDone o2 t"
      and o1: "store o1 = snd (CompleteRun t (run_ID run) (computeOverallStatus
        (case fst (GetSourcesByRunID (run_ID run) (store o2)) of Inl _ \<Rightarrow> [] | Inr xs \<Rightarrow> xs))
        (snd (GetSourcesByRunID (run_ID run) (store o2))))"
      by (auto simp: runLookup_def Let_def split_beta split: run_out.splits)
    from process_all_writes [OF p _ names] assms(2) obtain qs where
      qs: "map (\<lambda>q. p_SourceID (snd q)) qs = map src_ID ?todo"
        "\<forall>q \<in> set qs. p_Status (snd q) \<in> insert SourceStatusNotApplicable outcomes"
        "store o2 = fold (\<lambda>q d. snd (SetSourceResult (fst q) (snd q) d)) qs d" by auto
    let ?results = "\<lambda>xs. if xs = ?todo then qs else map some_result xs"
    have "valid_results ?results"
      using qs(1,2) by (auto simp: valid_results_def some_result_def)
    moreover have "snd (run_prog (Lookup_prog sched ?results t run) (store o0)) = store o1"
      using qs(3) by (simp add: Lookup_prog_def g Inr o1 Let_def split_beta run_write_prog)
    ultimately show ?thesis by metis
  qed
qed

section \<open>Threads\<close>

text \<open>
  A thread serves one request, has answered it, or is a lookup. \<open>Statement k\<close> is one statement
  of the trigger that thread \<open>k\<close> serves; the answer of a trigger with a lookup to start adds
  the thread of that lookup. \<open>LookupStatement k\<close> is one statement of a lookup.
\<close>

datatype thread =
    Trigger string "(goerr + trigger_out) prog"
  | Answered string "goerr + trigger_out"
  | Lookup string "unit prog"

datatype label = Request | Statement nat | Answer nat | LookupStatement nat

type_synonym gateway = "thread list \<times> db"

primrec lookup_threads :: "string \<Rightarrow> thread list \<Rightarrow> goerr + trigger_out \<Rightarrow> bool" where
  "lookup_threads i new (Inl e) \<longleftrightarrow> new = []"
| "lookup_threads i new (Inr out) \<longleftrightarrow>
     (case snd (snd out) of
        None \<Rightarrow> new = []
      | Some (c, run) \<Rightarrow> \<exists>sched results t. (\<forall>ss. mset (sched ss) = mset ss) \<and> valid_results results \<and>
          new = [Lookup i (Lookup_prog sched results t run)])"

inductive gw_step :: "label \<Rightarrow> gateway \<Rightarrow> gateway \<Rightarrow> bool" where
  request: "gw_step Request (ts, d) (ts @ [Trigger i (Trigger_prog now i)], d)"
| statement: "k < length ts \<Longrightarrow> ts ! k = Trigger i (Stmt g) \<Longrightarrow> g d = (p, d') \<Longrightarrow>
    gw_step (Statement k) (ts, d) (ts[k := Trigger i p], d')"
| answer: "k < length ts \<Longrightarrow> ts ! k = Trigger i (Return out) \<Longrightarrow> lookup_threads i new out \<Longrightarrow>
    gw_step (Answer k) (ts, d) (ts[k := Answered i out] @ new, d)"
| lookup: "k < length ts \<Longrightarrow> ts ! k = Lookup i (Stmt g) \<Longrightarrow> g d = (p, d') \<Longrightarrow>
    gw_step (LookupStatement k) (ts, d) (ts[k := Lookup i p], d')"

inductive_cases gw_step_cases: "gw_step l (ts, d) s"

inductive gw_path :: "label list \<Rightarrow> gateway \<Rightarrow> gateway \<Rightarrow> bool" where
  start: "gw_path [] s s"
| more: "gw_path ls s s' \<Longrightarrow> gw_step l s' s'' \<Longrightarrow> gw_path (ls @ [l]) s s''"

lemma gw_path_append: "gw_path ls' s' s'' \<Longrightarrow> gw_path ls s s' \<Longrightarrow> gw_path (ls @ ls') s s''"
proof (induction rule: gw_path.induct)
  case (more ls' s' s'' l s''')
  then show ?case using gw_path.more [of "ls @ ls'" s s'' l s'''] by simp
qed simp

section \<open>Programs within bounds\<close>

text \<open>
  \<open>obeys I Q n p\<close>: started in any state with \<open>I\<close>, the program \<open>p\<close> keeps \<open>I\<close> with every
  statement, whatever happens in between as long as \<open>I\<close> holds again before its next one; it
  ends after at most \<open>n\<close> statements, with a result that satisfies \<open>Q\<close>.
\<close>

inductive obeys :: "(db \<Rightarrow> bool) \<Rightarrow> ('a \<Rightarrow> bool) \<Rightarrow> nat \<Rightarrow> 'a prog \<Rightarrow> bool" for I Q where
  Return: "Q x \<Longrightarrow> obeys I Q n (Return x)"
| Stmt: "(\<And>d. I d \<Longrightarrow> I (snd (g d))) \<Longrightarrow> (\<And>d. I d \<Longrightarrow> obeys I Q n (fst (g d))) \<Longrightarrow>
    obeys I Q (Suc n) (Stmt g)"

inductive_simps obeys_Return [simp]: "obeys I Q n (Return x)"
inductive_cases obeys_StmtE: "obeys I Q n (Stmt g)"

lemma obeys_mono: "obeys I Q n p \<Longrightarrow> n \<le> m \<Longrightarrow> obeys I Q m p"
proof (induction arbitrary: m rule: obeys.induct)
  case (Stmt g n)
  then obtain m' where "m = Suc m'" "n \<le> m'" by (cases m) auto
  with Stmt show ?case by (auto intro: obeys.Stmt)
qed (auto intro: obeys.Return)

lemma obeys_weaken: "obeys I Q n p \<Longrightarrow> (\<And>x. Q x \<Longrightarrow> R x) \<Longrightarrow> obeys I R n p"
  by (induction rule: obeys.induct) (auto intro: obeys.intros)

lemma obeys_bind:
  "obeys I Q m p \<Longrightarrow> (\<And>x. Q x \<Longrightarrow> obeys I R n (f x)) \<Longrightarrow> obeys I R (m + n) (bind_prog p f)"
proof (induction rule: obeys.induct)
  case (Return x m)
  then show ?case by (simp add: obeys_mono [of I R n])
next
  case (Stmt g m)
  then show ?case by (auto intro!: obeys.Stmt)
qed

lemma obeys_call:
  assumes "\<And>d. I d \<Longrightarrow> I (snd (f d))" "\<And>d. I d \<Longrightarrow> obeys I R n (k (fst (f d)))"
  shows "obeys I R (Suc n) (bind_prog (call f) k)"
  using assms by (auto simp: call_def intro!: obeys.Stmt)

lemma obeys_call':
  "0 < n \<Longrightarrow> (\<And>d. I d \<Longrightarrow> I (snd (f d))) \<Longrightarrow> (\<And>d. I d \<Longrightarrow> obeys I R (n - 1) (k (fst (f d)))) \<Longrightarrow>
     obeys I R n (bind_prog (call f) k)"
  using obeys_call [of I f R "n - 1" k] by simp

definition answer_ok :: "goerr + trigger_out \<Rightarrow> bool" where
  "answer_ok out \<longleftrightarrow>
     (case out of
        Inl e \<Rightarrow> True
      | Inr (res, code, l) \<Rightarrow> code \<in> {200, 202} \<and> (code = 202 \<longleftrightarrow> l \<noteq> None) \<and> lr_Run res \<noteq> None)"

lemma answer_ok_simps [simp]:
  "answer_ok (Inl e)"
  "answer_ok (Inr (res, code, l)) \<longleftrightarrow> code \<in> {200, 202} \<and> (code = 202 \<longleftrightarrow> l \<noteq> None) \<and> lr_Run res \<noteq> None"
  by (simp_all add: answer_ok_def)

text \<open>\<open>ok i c\<close> says which runs (by their ID and case) a lookup or a retrigger may touch.\<close>

definition launch_ok :: "(string \<Rightarrow> string \<Rightarrow> bool) \<Rightarrow> string \<Rightarrow> goerr + trigger_out \<Rightarrow> bool" where
  "launch_ok ok j out \<longleftrightarrow> answer_ok out \<and>
     (case out of
        Inl e \<Rightarrow> True
      | Inr (res, code, l) \<Rightarrow>
          (case l of None \<Rightarrow> True | Some (c, r) \<Rightarrow> run_CaseID r = j \<and> ok (run_ID r) j))"

lemma launch_ok_simps [simp]:
  "launch_ok ok j (Inl e)"
  "launch_ok ok j (Inr (res, code, None)) \<longleftrightarrow> answer_ok (Inr (res, code, None))"
  "launch_ok ok j (Inr (res, code, Some (c, r))) \<longleftrightarrow>
     answer_ok (Inr (res, code, Some (c, r))) \<and> run_CaseID r = j \<and> ok (run_ID r) j"
  by (simp_all add: launch_ok_def)

lemma launch_ok_answer: "launch_ok ok j out \<Longrightarrow> answer_ok out"
  by (simp add: launch_ok_def)

text \<open>
  A property of the database that every single statement of the gateway keeps, and under
  which a run has at most three sources: every thread then keeps it in every interleaving.
  Runs that are created, or found partial or failed, are among those that may be touched.
\<close>

locale statement_invariant =
  fixes I :: "db \<Rightarrow> bool" and ok :: "string \<Rightarrow> string \<Rightarrow> bool"
  assumes tables: "same_tables d d' \<Longrightarrow> I d' = I d"
    and create: "I d \<Longrightarrow> I (snd (CreateLookupRun now c d))"
    and created: "I d \<Longrightarrow> fst (CreateLookupRun now c d) = Inr (r, ss) \<Longrightarrow> run_CaseID r = c \<and> ok (run_ID r) c"
    and found: "I d \<Longrightarrow> r \<in> set (lookup_runs d) \<Longrightarrow> run_Status r \<in> {StatusPartial, StatusFailed} \<Longrightarrow>
      ok (run_ID r) (run_CaseID r)"
    and complete: "I d \<Longrightarrow> ok i c \<Longrightarrow> st \<in> run_statuses \<Longrightarrow> I (snd (CompleteRun now i st d))"
    and result: "I d \<Longrightarrow> p_Status p \<in> source_statuses \<Longrightarrow> I (snd (SetSourceResult now p d))"
    and reset_source: "I d \<Longrightarrow> I (snd (db_exec (update_source i reset_row) d))"
    and reset_run: "I d \<Longrightarrow> ok i c \<Longrightarrow> I (snd (ResetRunToPending i d))"
    and three: "I d \<Longrightarrow> length (sources_of i d) \<le> 3"
begin

lemma reads:
  "I d \<Longrightarrow> I (snd (GetCaseByID i d))" "I d \<Longrightarrow> I (snd (GetLookupRunByCaseID i d))"
  "I d \<Longrightarrow> I (snd (GetSourcesByRunID i d))" "I d \<Longrightarrow> I (snd (GetRetryableSources i d))"
  using tables read_same_tables by blast+

lemma few_rows:
  assumes "I d"
  shows "fst (GetSourcesByRunID i d) = Inr ss \<Longrightarrow> length ss \<le> 3"
    and "fst (GetRetryableSources i d) = Inr ss \<Longrightarrow> length ss \<le> 3"
proof -
  have "length (filter P (sources_of i d)) \<le> 3" for P
    using le_trans [OF length_filter_le three [OF assms]] .
  then show "fst (GetSourcesByRunID i d) = Inr ss \<Longrightarrow> length ss \<le> 3"
    "fst (GetRetryableSources i d) = Inr ss \<Longrightarrow> length ss \<le> 3"
    using three [OF assms, of i]
    by (auto simp: GetSourcesByRunID_def GetRetryableSources_def db_query_def Let_def min_def
        split: rows_out.splits if_splits) (meson le_trans nat_le_linear)+
qed

lemma start_prog_obeys: "obeys I (launch_ok ok i) 1 (start_prog now i c)"
  unfolding start_prog_def One_nat_def
  by (rule obeys_call) (auto simp: create split: sum.splits dest: created)

lemma reset_prog_obeys: "obeys I (\<lambda>_. True) (length is) (reset_prog is)"
proof (induction "is")
  case (Cons i "is")
  then show ?case
    by (auto intro!: obeys_call reset_source split: option.splits)
qed simp

lemma retrigger_prog_obeys:
  assumes ok: "ok (run_ID r) (run_CaseID r)"
  shows "obeys I (launch_ok ok (run_CaseID r)) 6 (retrigger_prog now c r ss)"
proof -
  let ?Q = "launch_ok ok (run_CaseID r)"
  have reload: "obeys I ?Q 1 (bind_prog (call (GetSourcesByRunID i)) (\<lambda>res. Return (k res)))"
    if "\<And>x. ?Q (k x)" for i k
    unfolding One_nat_def using that by (intro obeys_call) (auto simp: reads)
  have pending: "obeys I ?Q 2 (bind_prog (call (ResetRunToPending (run_ID r))) (\<lambda>x.
      case x of Some err \<Rightarrow> Return (Inl (wrap_ctx ''reset run'' err))
      | None \<Rightarrow> let run1 = r\<lparr>run_Status := StatusPending\<rparr> in
          bind_prog (call (GetSourcesByRunID (run_ID run1))) (\<lambda>res.
            let sources1 = (case res of Inl _ \<Rightarrow> [] | Inr ss \<Rightarrow> ss) in
            Return (Inr (\<lparr>lr_Case = c, lr_Run = Some run1, lr_Sources = sources1\<rparr>, 202, Some (c, run1))))))"
    unfolding numeral_2_eq_2 Let_def
    by (rule obeys_call) (auto simp: reset_run [OF _ ok] ok intro!: reload [unfolded One_nat_def] split: option.splits)
  have complete': "obeys I ?Q 1 (bind_prog (call (CompleteRun now (run_ID r) StatusComplete)) (\<lambda>_.
      Return (Inr (\<lparr>lr_Case = c, lr_Run = Some (r\<lparr>run_Status := StatusComplete\<rparr>), lr_Sources = ss\<rparr>, 200, None))))"
    unfolding One_nat_def by (rule obeys_call) (simp_all add: complete [OF _ ok])
  have "obeys I ?Q (Suc 5) (retrigger_prog now c r ss)"
    unfolding retrigger_prog_def
  proof (rule obeys_call)
    fix d assume d: "I d"
    show "I (snd (GetRetryableSources (run_ID r) d))" by (rule reads(4) [OF d])
    have bound: "obeys I ?Q 5 (bind_prog (reset_prog (map src_ID xs)) k)"
      if "length xs \<le> 3" "\<And>x. obeys I ?Q 2 (k x)" for xs :: "source_row list" and k
      using obeys_mono [OF obeys_bind [OF reset_prog_obeys [of "map src_ID xs"] that(2)], of 5 "\<lambda>x. x"] that(1) by simp
    show "obeys I ?Q 5 (case fst (GetRetryableSources (run_ID r) d) of
        Inl err \<Rightarrow> Return (Inl (wrap_ctx ''get retryable sources'' err))
      | Inr retryable \<Rightarrow> if retryable = [] then bind_prog (call (CompleteRun now (run_ID r) StatusComplete)) (\<lambda>_.
            Return (Inr (\<lparr>lr_Case = c, lr_Run = Some (r\<lparr>run_Status := StatusComplete\<rparr>), lr_Sources = ss\<rparr>, 200, None)))
          else bind_prog (reset_prog (map src_ID retryable)) (\<lambda>x. case x of
            Some err \<Rightarrow> Return (Inl (wrap_ctx ''reset sources'' err))
          | None \<Rightarrow> bind_prog (call (ResetRunToPending (run_ID r))) (\<lambda>x. case x of
              Some err \<Rightarrow> Return (Inl (wrap_ctx ''reset run'' err))
            | None \<Rightarrow> let run1 = r\<lparr>run_Status := StatusPending\<rparr> in
                bind_prog (call (GetSourcesByRunID (run_ID run1))) (\<lambda>res.
                  let sources1 = (case res of Inl _ \<Rightarrow> [] | Inr ss \<Rightarrow> ss) in
                  Return (Inr (\<lparr>lr_Case = c, lr_Run = Some run1, lr_Sources = sources1\<rparr>, 202, Some (c, run1)))))))"
    proof (cases "fst (GetRetryableSources (run_ID r) d)")
      case (Inr xs)
      with few_rows(2) [OF d Inr] show ?thesis
        using pending obeys_mono [OF complete', of 5]
        by (auto intro!: bound split: option.splits)
    qed simp
  qed
  then show ?thesis by simp
qed

lemma Trigger_prog_obeys: "obeys I (launch_ok ok i) 9 (Trigger_prog now i)"
proof -
  have found_run: "run_CaseID r = i \<and> (run_Status r \<in> {StatusPartial, StatusFailed} \<longrightarrow> ok (run_ID r) i)"
    if "I d" "fst (GetLookupRunByCaseID i d) = Inr (Some r)" for d r
  proof -
    have "find (\<lambda>r. run_CaseID r = i) (lookup_runs d) = Some r"
      using that(2) by (auto simp: GetLookupRunByCaseID_def db_query_row_def split: exec_out.splits)
    from find_SomeD [OF this] found [OF that(1), of r] show ?thesis by auto
  qed
  have again: "obeys I (launch_ok ok i) 6 (retrigger_prog now c r ss)"
    if "I d" "fst (GetLookupRunByCaseID i d) = Inr (Some r)" "run_Status r \<in> {StatusPartial, StatusFailed}" for c r ss d
    using retrigger_prog_obeys [of r now c ss] found_run [OF that(1,2)] that(3) by auto
  show ?thesis
    unfolding Trigger_prog_def
    by (intro obeys_call')
      (auto simp: reads intro!: obeys_call' obeys_mono [OF start_prog_obeys] obeys_mono [OF again]
        split: sum.splits option.splits)
qed

lemma write_prog_obeys:
  "\<forall>q \<in> set qs. p_Status (snd q) \<in> source_statuses \<Longrightarrow> obeys I (\<lambda>_. True) (length qs) (write_prog qs)"
  by (induction qs) (auto intro!: obeys_call result)

lemma Lookup_prog_obeys:
  assumes "valid_results results" "\<And>ss. mset (sched ss) = mset ss" and ok: "ok (run_ID r) i"
  shows "obeys I (\<lambda>_. True) 6 (Lookup_prog sched results t r)"
proof -
  have finish: "obeys I (\<lambda>_. True) 2 (bind_prog (call (GetSourcesByRunID (run_ID r))) (\<lambda>res.
      let sources1 = (case res of Inl _ \<Rightarrow> [] | Inr ss \<Rightarrow> ss) in
      bind_prog (call (CompleteRun t (run_ID r) (computeOverallStatus sources1))) (\<lambda>_. Return ())))"
    unfolding numeral_2_eq_2 Let_def
    by (intro obeys_call) (auto simp: reads intro!: obeys_call complete [OF _ ok] computeOverallStatus_run_statuses)
  have writes: "obeys I (\<lambda>_. True) 3 (write_prog (results (sched (filter unresolved ss))))" if "length ss \<le> 3" for ss
  proof -
    let ?todo = "sched (filter unresolved ss)"
    have "length (results ?todo) = length ?todo"
      using assms(1) unfolding valid_results_def by (metis length_map)
    also have "\<dots> = length (filter unresolved ss)" using assms(2) by (metis size_mset)
    finally have "length (results ?todo) \<le> 3" using that le_trans [OF length_filter_le] by simp
    moreover have "\<forall>q \<in> set (results ?todo). p_Status (snd q) \<in> source_statuses"
      using assms(1) outcomes_ok by (auto simp: valid_results_def source_statuses_def)
    ultimately show ?thesis by (auto intro: obeys_mono write_prog_obeys)
  qed
  have rest: "obeys I (\<lambda>_. True) 5 (bind_prog (write_prog (results (sched (filter unresolved ss)))) k)"
    if "length ss \<le> 3" "\<And>x. obeys I (\<lambda>_. True) 2 (k x)" for ss and k :: "unit \<Rightarrow> unit prog"
    using obeys_bind [OF writes [OF that(1)] that(2)] by simp
  show ?thesis
    unfolding Lookup_prog_def
    by (rule obeys_call') (auto simp: reads intro!: rest finish [unfolded Let_def] few_rows(1) split: sum.splits)
qed

end

section \<open>Every interleaving\<close>

text \<open>
  The steps a thread can still take, the lookup it may start included: nine statements, the
  answer and six statements for a new request.
\<close>

primrec finished :: "thread \<Rightarrow> bool" where
  "finished (Trigger i p) = False"
| "finished (Answered i out) = True"
| "finished (Lookup i p) = (case p of Return x \<Rightarrow> True | Stmt g \<Rightarrow> False)"

primrec answer_of :: "thread \<Rightarrow> (goerr + trigger_out) option" where
  "answer_of (Trigger i p) = None"
| "answer_of (Answered i out) = Some out"
| "answer_of (Lookup i p) = None"

primrec steps_left :: "(db \<Rightarrow> bool) \<Rightarrow> (string \<Rightarrow> string \<Rightarrow> bool) \<Rightarrow> thread \<Rightarrow> nat \<Rightarrow> bool" where
  "steps_left I ok (Trigger i p) n \<longleftrightarrow> (\<exists>m. obeys I (launch_ok ok i) m p \<and> n = m + 7)"
| "steps_left I ok (Answered i out) n \<longleftrightarrow> launch_ok ok i out"
| "steps_left I ok (Lookup i p) n \<longleftrightarrow> obeys I (\<lambda>_. True) n p"

lemma list_all2_update:
  "list_all2 P xs ys \<Longrightarrow> k < length xs \<Longrightarrow> P x y \<Longrightarrow> list_all2 P (xs[k := x]) (ys[k := y])"
  by (auto simp: list_all2_conv_all_nth nth_list_update)

lemma sum_list_update_less:
  "k < length ns \<Longrightarrow> m < ns ! k \<Longrightarrow> sum_list (ns[k := m]) < sum_list (ns :: nat list)"
  using elem_le_sum_list [of k ns] by (simp add: sum_list_update)

context statement_invariant
begin

lemma gw_step_steps:
  assumes "gw_step l (ts, d) (ts', d')" "I d" "list_all2 (steps_left I ok) ts ns"
  shows "I d' \<and> (\<exists>ns'. list_all2 (steps_left I ok) ts' ns' \<and>
    (if l = Request then sum_list ns' = sum_list ns + 16 else sum_list ns' < sum_list ns))"
  using assms(1)
proof (cases rule: gw_step_cases [consumes 1, case_names request statement answer lookup])
  case (request i now)
  have "steps_left I ok (Trigger i (Trigger_prog now i)) 16" using Trigger_prog_obeys by auto
  with assms(2,3) request show ?thesis
    by (intro conjI exI [of _ "ns @ [16]"]) (auto intro: list_all2_appendI)
next
  case (statement k i g p)
  have len: "length ns = length ts" using assms(3) by (simp add: list_all2_lengthD)
  have "steps_left I ok (ts ! k) (ns ! k)" by (rule list_all2_nthD [OF assms(3)]) (use statement in simp)
  then obtain m where m: "obeys I (launch_ok ok i) m (Stmt g)" "ns ! k = m + 7" using statement by auto
  from m(1) obtain m' where m': "m = Suc m'" "I (snd (g d))" "obeys I (launch_ok ok i) m' (fst (g d))"
    using assms(2) by (auto elim!: obeys_StmtE)
  then have "list_all2 (steps_left I ok) ts' (ns[k := m' + 7])"
    using statement assms(3) by (auto intro!: list_all2_update)
  moreover have "sum_list (ns[k := m' + 7]) < sum_list ns"
    using m(2) m'(1) statement len by (intro sum_list_update_less) auto
  ultimately show ?thesis using m'(2) statement by auto
next
  case (answer k i out new)
  have len: "length ns = length ts" using assms(3) by (simp add: list_all2_lengthD)
  have "steps_left I ok (ts ! k) (ns ! k)" by (rule list_all2_nthD [OF assms(3)]) (use answer in simp)
  then have out: "launch_ok ok i out" "7 \<le> ns ! k" using answer by auto
  have "\<exists>ms. list_all2 (steps_left I ok) new ms \<and> sum_list ms \<le> 6"
  proof (cases "new = []")
    case False
    then obtain sched results t run where "new = [Lookup i (Lookup_prog sched results t run)]"
      "\<forall>ss. mset (sched ss) = mset ss" "valid_results results" "ok (run_ID run) i"
      using answer out(1) by (cases out) (auto split: option.splits)
    with Lookup_prog_obeys show ?thesis by (intro exI [of _ "[6]"]) auto
  qed simp
  then obtain ms where ms: "list_all2 (steps_left I ok) new ms" "sum_list ms \<le> 6" by blast
  have "list_all2 (steps_left I ok) ts' (ns[k := 0] @ ms)"
    using answer out(1) assms(3) ms(1) by (auto intro!: list_all2_appendI list_all2_update)
  moreover have "sum_list (ns[k := 0] @ ms) < sum_list ns"
    using ms(2) out(2) answer len elem_le_sum_list [of k ns] by (simp add: sum_list_update)
  ultimately show ?thesis using assms(2) answer by auto
next
  case (lookup k i g p)
  have len: "length ns = length ts" using assms(3) by (simp add: list_all2_lengthD)
  have "obeys I (\<lambda>_. True) (ns ! k) (Stmt g)" using list_all2_nthD [OF assms(3), of k] lookup by simp
  then obtain m' where m': "ns ! k = Suc m'" "I (snd (g d))" "obeys I (\<lambda>_. True) m' (fst (g d))"
    using assms(2) by (auto elim!: obeys_StmtE)
  then have "list_all2 (steps_left I ok) ts' (ns[k := m'])"
    using lookup assms(3) by (auto intro!: list_all2_update)
  moreover have "sum_list (ns[k := m']) < sum_list ns"
    using m'(1) lookup len by (intro sum_list_update_less) auto
  ultimately show ?thesis using m'(2) lookup by auto
qed

lemma gw_path_steps:
  assumes "gw_path ls s s'" "I (snd s)" "list_all2 (steps_left I ok) (fst s) ns"
  shows "I (snd s') \<and> (\<exists>ns'. list_all2 (steps_left I ok) (fst s') ns' \<and>
    length (filter (\<lambda>l. l \<noteq> Request) ls) + sum_list ns' \<le> sum_list ns + 16 * count_list ls Request)"
  using assms
proof (induction rule: gw_path.induct)
  case (more ls s s' l s'')
  from more.IH [OF more.prems] obtain ns' where ns': "I (snd s')" "list_all2 (steps_left I ok) (fst s') ns'"
    "length (filter (\<lambda>l. l \<noteq> Request) ls) + sum_list ns' \<le> sum_list ns + 16 * count_list ls Request"
    by blast
  obtain ts d ts' d' where s: "s' = (ts, d)" "s'' = (ts', d')" by fastforce
  from gw_step_steps [OF more.hyps(2) [unfolded s]] ns'(1,2) obtain ns'' where
    ns'': "I d'" "list_all2 (steps_left I ok) ts' ns''"
    "if l = Request then sum_list ns'' = sum_list ns' + 16 else sum_list ns'' < sum_list ns'"
    unfolding s fst_conv snd_conv by blast
  have "length (filter (\<lambda>l. l \<noteq> Request) (ls @ [l])) + sum_list ns'' \<le>
      sum_list ns + 16 * count_list (ls @ [l]) Request"
    using ns'(3) ns''(3) by (cases "l = Request") simp_all
  with ns''(1,2) show ?case unfolding s by auto
qed auto

end

lemma lookup_threads_exist: "\<exists>new. lookup_threads i new out"
proof (cases out)
  case (Inr x)
  show ?thesis
  proof (cases "snd (snd x)")
    case (Some cr)
    then have "lookup_threads i [Lookup i (Lookup_prog (\<lambda>x. x) (map some_result) 0 (snd cr))] out"
      using Inr valid_some_results
      by (cases cr) (auto intro!: exI [of _ "\<lambda>x. x"] exI [of _ "map some_result"] exI [of _ 0])
    then show ?thesis by blast
  qed (simp add: Inr)
qed simp

lemma unfinished_step:
  assumes "t \<in> set ts" "\<not> finished t"
  shows "\<exists>l s. l \<noteq> Request \<and> gw_step l (ts, d) s"
proof -
  obtain k where k: "k < length ts" "ts ! k = t" using assms(1) by (auto simp: in_set_conv_nth)
  consider (ret) i out where "t = Trigger i (Return out)" | (stmt) i g where "t = Trigger i (Stmt g)"
    | (look) i g where "t = Lookup i (Stmt g)"
    using assms(2) by (cases t) (auto split: prog.splits, metis prog.exhaust)
  then show ?thesis
  proof cases
    case ret
    obtain new where "lookup_threads i new out" using lookup_threads_exist by blast
    from gw_step.answer [OF k(1) _ this, of d] k(2) ret show ?thesis by (intro exI conjI) auto
  next
    case stmt
    from gw_step.statement [OF k(1), of i g d "fst (g d)" "snd (g d)"] k(2) stmt show ?thesis
      by (intro exI conjI) auto
  next
    case look
    from gw_step.lookup [OF k(1), of i g d "fst (g d)" "snd (g d)"] k(2) look show ?thesis
      by (intro exI conjI) auto
  qed
qed

text \<open>The invariant of the tables, together with the runs that existed at the start.\<close>

definition run_keys :: "db \<Rightarrow> (string \<times> string \<times> time) set" where
  "run_keys d = set (map (\<lambda>r. (run_ID r, run_CaseID r, StartedAt r)) (lookup_runs d))"

lemma run_keys_update [simp]:
  assumes "\<And>r. run_ID (f r) = run_ID r" "\<And>r. run_CaseID (f r) = run_CaseID r" "\<And>r. StartedAt (f r) = StartedAt r"
  shows "run_keys (update_run i f d) = run_keys d"
  using assms by (simp only: run_keys_def update_simps map_update_where)

lemma run_keys_simps [simp]:
  "run_keys (next_stmt d) = run_keys d" "run_keys (update_source i g d) = run_keys d"
  by (simp_all add: run_keys_def)

lemma run_keys_exec: "run_keys (f (next_stmt d)) = run_keys d \<Longrightarrow> run_keys (snd (db_exec f d)) = run_keys d"
  by (cases rule: db_exec_cases [of f d]) auto

lemma run_keys_ops [simp]:
  "run_keys (snd (CompleteRun now i st d)) = run_keys d" "run_keys (snd (ResetRunToPending i d)) = run_keys d"
  "run_keys (snd (SetSourceResult now q d)) = run_keys d"
  "run_keys (snd (db_exec (update_source i g) d)) = run_keys d"
  by (simp_all add: CompleteRun_def ResetRunToPending_def SetSourceResult_def run_keys_exec)

lemma run_keys_create:
  "db_inv d \<Longrightarrow> run_keys d \<subseteq> run_keys (snd (CreateLookupRun now c d))"
  using CreateLookupRun_cases [of d now c]
  by (auto simp: db_inv_def same_tables_def run_created_def run_keys_def)

lemma CreateLookupRun_Inr:
  assumes "db_inv d" "fst (CreateLookupRun now c d) = Inr (r, ss)"
  shows "run_created now c r ss d (snd (CreateLookupRun now c d))"
proof -
  have "distinct (map src_ID (lookup_sources d))" using assms(1) by (simp add: db_inv_def)
  from CreateLookupRun_cases [OF this, of now c] assms(2) show ?thesis by auto
qed

lemma run_created_case: "run_created now c r ss d d' \<Longrightarrow> run_CaseID r = c"
  by (simp add: run_created_def)

interpretation kept: statement_invariant "\<lambda>d. db_inv d \<and> K \<subseteq> run_keys d" "\<lambda>i c. True" for K
proof unfold_locales
  show "same_tables d d' \<Longrightarrow> (db_inv d' \<and> K \<subseteq> run_keys d') = (db_inv d \<and> K \<subseteq> run_keys d)" for d d'
    by (simp add: db_inv_same_tables) (simp add: same_tables_def run_keys_def)
  show "length (sources_of i d) \<le> 3" if "db_inv d \<and> K \<subseteq> run_keys d" for d i
  proof (cases "i \<in> set (map run_ID (lookup_runs d))")
    case True
    with that have "map src_Source (sources_of i d) = source_names" by (auto simp: db_inv_def)
    then show ?thesis by (metis eq_imp_le length_map list.size(3,4) source_names_def numeral_3_eq_3 add_0 Suc_eq_plus1)
  next
    case False
    with that have "sources_of i d = []" by (auto simp: sources_of_def filter_empty_conv db_inv_def)
    then show ?thesis by simp
  qed
qed (auto simp: CreateLookupRun_inv CompleteRun_inv SetSourceResult_inv ResetRunToPending_inv
    db_inv_exec db_inv_update_source
    dest: subset_trans [OF _ run_keys_create] CreateLookupRun_Inr run_created_case)

section \<open>Who starts a lookup\<close>

definition launches :: "string \<Rightarrow> goerr + trigger_out \<Rightarrow> bool" where
  "launches i out =
     (case out of
        Inl e \<Rightarrow> False
      | Inr (res, code, l) \<Rightarrow> (case l of None \<Rightarrow> False | Some (c, r) \<Rightarrow> run_CaseID r = i))"

lemma launches_simps [simp]:
  "\<not> launches i (Inl e)" "\<not> launches i (Inr (res, code, None))"
  "launches i (Inr (res, code, Some (c, r))) \<longleftrightarrow> run_CaseID r = i"
  by (simp_all add: launches_def)

definition starters :: "string \<Rightarrow> thread list \<Rightarrow> thread list" where
  "starters i ts = filter (\<lambda>t. case answer_of t of None \<Rightarrow> False | Some out \<Rightarrow> launches i out) ts"

definition nruns :: "string \<Rightarrow> db \<Rightarrow> nat" where
  "nruns i d = length (filter (\<lambda>r. run_CaseID r = i) (lookup_runs d))"

text \<open>No run of the case is in a state that a trigger would start again.\<close>

definition quiet :: "string \<Rightarrow> db \<Rightarrow> bool" where
  "quiet i d \<longleftrightarrow> db_inv d \<and>
     (\<forall>r \<in> set (lookup_runs d). run_CaseID r = i \<longrightarrow> run_Status r \<in> {StatusPending, StatusComplete})"

lemma distinct_key_filter: "distinct (map f xs) \<Longrightarrow> length (filter (\<lambda>x. f x = k) xs) \<le> 1"
proof (induction xs)
  case (Cons x xs)
  then have "f x = k \<Longrightarrow> filter (\<lambda>x. f x = k) xs = []" by (simp add: filter_empty_conv image_iff) metis
  with Cons show ?case by auto
qed simp

lemma nruns_le_1: "db_inv d \<Longrightarrow> nruns i d \<le> 1"
  unfolding nruns_def by (rule distinct_key_filter) (simp add: db_inv_def)

text \<open>
  \<open>calm i b p\<close>: in a database that is quiet for case \<open>i\<close>, the program \<open>p\<close> keeps it so, never
  removes a run of the case, and launches a lookup of the case only if \<open>b\<close> holds or the run
  was created by \<open>p\<close> itself.
\<close>

inductive calm :: "string \<Rightarrow> bool \<Rightarrow> (goerr + trigger_out) prog \<Rightarrow> bool" for i where
  Return: "launches i x \<longrightarrow> b \<Longrightarrow> calm i b (Return x)"
| Stmt: "(\<And>d. quiet i d \<Longrightarrow> quiet i (snd (g d)) \<and> nruns i d \<le> nruns i (snd (g d))) \<Longrightarrow>
    (\<And>d. quiet i d \<Longrightarrow> calm i (b \<or> nruns i d < nruns i (snd (g d))) (fst (g d))) \<Longrightarrow> calm i b (Stmt g)"

inductive_simps calm_Return [simp]: "calm i b (Return x)"
inductive_cases calm_StmtE: "calm i b (Stmt g)"

lemma calm_mono: "calm i b p \<Longrightarrow> (b \<Longrightarrow> b') \<Longrightarrow> calm i b' p"
proof (induction arbitrary: b' rule: calm.induct)
  case (Stmt g b)
  show ?case
  proof (rule calm.Stmt)
    fix d assume d: "quiet i d"
    show "quiet i (snd (g d)) \<and> nruns i d \<le> nruns i (snd (g d))" by (rule Stmt.hyps(1) [OF d])
    show "calm i (b' \<or> nruns i d < nruns i (snd (g d))) (fst (g d))"
      by (rule Stmt.IH [OF d]) (use Stmt.prems in blast)
  qed
qed (auto)

lemma calm_call:
  assumes "\<And>d. quiet i d \<Longrightarrow> quiet i (snd (f d)) \<and> nruns i d \<le> nruns i (snd (f d))"
    and "\<And>d. quiet i d \<Longrightarrow> calm i (b \<or> nruns i d < nruns i (snd (f d))) (k (fst (f d)))"
  shows "calm i b (bind_prog (call f) k)"
  using assms by (auto simp: call_def intro!: calm.Stmt)

lemma calm_keep:
  assumes "\<And>d. quiet i d \<Longrightarrow> quiet i (snd (f d)) \<and> nruns i (snd (f d)) = nruns i d"
    and "\<And>d. quiet i d \<Longrightarrow> calm i b (k (fst (f d)))"
  shows "calm i b (bind_prog (call f) k)"
  using assms by (intro calm_call) auto

lemma quiet_same_tables:
  "same_tables d d' \<Longrightarrow> quiet i d' = quiet i d" "same_tables d d' \<Longrightarrow> nruns i d' = nruns i d"
  by (simp_all add: quiet_def db_inv_same_tables) (simp_all add: same_tables_def nruns_def)

lemma quiet_reads [simp]:
  "quiet i d \<Longrightarrow> quiet i (snd (GetCaseByID j d)) \<and> nruns i (snd (GetCaseByID j d)) = nruns i d"
  "quiet i d \<Longrightarrow> quiet i (snd (GetLookupRunByCaseID j d)) \<and> nruns i (snd (GetLookupRunByCaseID j d)) = nruns i d"
  "quiet i d \<Longrightarrow> quiet i (snd (GetSourcesByRunID j d)) \<and> nruns i (snd (GetSourcesByRunID j d)) = nruns i d"
  "quiet i d \<Longrightarrow> quiet i (snd (GetRetryableSources j d)) \<and> nruns i (snd (GetRetryableSources j d)) = nruns i d"
  using quiet_same_tables [OF read_same_tables(1)] quiet_same_tables [OF read_same_tables(3)]
    quiet_same_tables [OF read_same_tables(4)] quiet_same_tables [OF read_same_tables(5)] by simp_all

lemma quiet_exec:
  assumes "quiet i d" "db_inv (f (next_stmt d))"
    and "map (\<lambda>r. (run_CaseID r, run_Status r)) (lookup_runs (f (next_stmt d))) =
      map (\<lambda>r. (run_CaseID r, if p r then st else run_Status r)) (lookup_runs d)"
    and "st \<in> {StatusPending, StatusComplete}"
  shows "quiet i (snd (db_exec f d)) \<and> nruns i (snd (db_exec f d)) = nruns i d"
proof -
  let ?d = "f (next_stmt d)"
  have n: "nruns i d' = length (filter (\<lambda>c. c = i) (map fst (map (\<lambda>r. (run_CaseID r, run_Status r)) (lookup_runs d'))))" for d'
    by (simp add: nruns_def filter_map comp_def)
  have q: "quiet i d' \<longleftrightarrow> db_inv d' \<and> (\<forall>x \<in> set (map (\<lambda>r. (run_CaseID r, run_Status r)) (lookup_runs d')).
      fst x = i \<longrightarrow> snd x \<in> {StatusPending, StatusComplete})" for d'
    by (auto simp: quiet_def)
  have "nruns i ?d = nruns i d" unfolding n assms(3) by (simp add: filter_map comp_def)
  moreover have "quiet i ?d" using assms(1,2,4) unfolding q [of ?d] assms(3) by (auto simp: quiet_def)
  moreover have "quiet i (next_stmt d) \<and> nruns i (next_stmt d) = nruns i d"
    using assms(1) by (simp add: quiet_def nruns_def)
  ultimately show ?thesis by (cases rule: db_exec_cases [of f d]) auto
qed

lemma quiet_writes [simp]:
  assumes "quiet i d"
  shows "quiet i (snd (CompleteRun now j StatusComplete d)) \<and> nruns i (snd (CompleteRun now j StatusComplete d)) = nruns i d"
    and "quiet i (snd (ResetRunToPending j d)) \<and> nruns i (snd (ResetRunToPending j d)) = nruns i d"
    and "quiet i (snd (db_exec (update_source j reset_row) d)) \<and>
      nruns i (snd (db_exec (update_source j reset_row) d)) = nruns i d"
proof -
  have inv: "db_inv d" using assms by (simp add: quiet_def)
  show "quiet i (snd (CompleteRun now j StatusComplete d)) \<and> nruns i (snd (CompleteRun now j StatusComplete d)) = nruns i d"
    unfolding CompleteRun_def wrap_opt_simps
    by (rule quiet_exec [OF assms, where st = StatusComplete and p = "\<lambda>r. run_ID r = j"])
      (auto simp: inv db_inv_update_run update_where_def)
  show "quiet i (snd (ResetRunToPending j d)) \<and> nruns i (snd (ResetRunToPending j d)) = nruns i d"
    unfolding ResetRunToPending_def wrap_opt_simps
    by (rule quiet_exec [OF assms, where st = StatusPending and p = "\<lambda>r. run_ID r = j"])
      (auto simp: inv db_inv_update_run update_where_def StatusPending_def)
  show "quiet i (snd (db_exec (update_source j reset_row) d)) \<and>
      nruns i (snd (db_exec (update_source j reset_row) d)) = nruns i d"
    by (rule quiet_exec [OF assms, where st = StatusPending and p = "\<lambda>r. False"])
      (auto simp: inv db_inv_update_source)
qed

lemma calm_read:
  assumes "\<And>d. quiet i d \<Longrightarrow> quiet i (snd (f d)) \<and> nruns i (snd (f d)) = nruns i d"
    and "\<And>d x. quiet i d \<Longrightarrow> fst (f d) = x \<Longrightarrow> calm i b (k x)"
  shows "calm i b (bind_prog (call f) k)"
  using assms by (intro calm_keep) blast+

lemma quiet_create:
  assumes "quiet i d"
  shows "quiet i (snd (CreateLookupRun now j d)) \<and> nruns i d \<le> nruns i (snd (CreateLookupRun now j d)) \<and>
    (\<forall>r ss. fst (CreateLookupRun now j d) = Inr (r, ss) \<longrightarrow> run_CaseID r = i \<longrightarrow>
       nruns i d < nruns i (snd (CreateLookupRun now j d)))"
proof -
  let ?x = "CreateLookupRun now j d"
  have inv: "db_inv d" and dist: "distinct (map src_ID (lookup_sources d))"
    using assms by (simp_all add: quiet_def db_inv_def)
  have inv': "db_inv (snd ?x)" by (rule CreateLookupRun_inv [OF inv])
  have created: "quiet i d' \<and> nruns i d \<le> nruns i d' \<and> (run_CaseID r = i \<longrightarrow> nruns i d < nruns i d')"
    if "run_created now j r ss d d'" "db_inv d'" for r ss d'
    using that assms by (auto simp: run_created_def quiet_def nruns_def StatusPending_def)
  from CreateLookupRun_cases [OF dist, of now j] show ?thesis
  proof
    assume "\<exists>e. fst ?x = Inl e \<and> same_tables d (snd ?x)"
    with assms quiet_same_tables [of d "snd ?x" i] show ?thesis by auto
  next
    assume "\<exists>r ss. run_created now j r ss d (snd ?x) \<and>
      (fst ?x = Inr (r, ss) \<or> (\<exists>e. fst ?x = Inl (wrap_ctx ''commit'' e)))"
    with created [OF _ inv'] show ?thesis by auto
  qed
qed

lemma start_prog_calm: "calm i b (start_prog now j c)"
  unfolding start_prog_def
proof (rule calm_call)
  fix d assume q: "quiet i d"
  note c = quiet_create [OF q, of now j]
  then show "quiet i (snd (CreateLookupRun now j d)) \<and> nruns i d \<le> nruns i (snd (CreateLookupRun now j d))" by blast
  show "calm i (b \<or> nruns i d < nruns i (snd (CreateLookupRun now j d)))
      (Return (case fst (CreateLookupRun now j d) of Inl err \<Rightarrow> Inl (wrap_ctx ''create lookup run'' err)
        | Inr (run, sources) \<Rightarrow> Inr (\<lparr>lr_Case = c, lr_Run = Some run, lr_Sources = sources\<rparr>, 202, Some (c, run))))"
    using c by (auto split: sum.splits)
qed

lemma reset_prog_calm:
  "(\<And>x. calm i b (k x)) \<Longrightarrow> calm i b (bind_prog (reset_prog is) k)"
proof (induction "is")
  case (Cons j "is")
  show ?case
    unfolding reset_prog.simps bind_assoc
    by (rule calm_read) (use Cons in \<open>auto split: option.splits\<close>)
qed simp

lemma retrigger_prog_calm: "run_CaseID r \<noteq> i \<Longrightarrow> calm i b (retrigger_prog now c r ss)"
  unfolding retrigger_prog_def Let_def
  by (auto intro!: calm_read reset_prog_calm split: sum.splits option.splits)

lemma Trigger_prog_calm: "calm i b (Trigger_prog now j)"
  unfolding Trigger_prog_def
proof (rule calm_read, simp)
  fix d x assume "quiet i d"
  show "calm i b (case x of Inl err \<Rightarrow> Return (Inl (wrap_ctx ''get case'' err))
    | Inr None \<Rightarrow> Return (Inl (ErrorString (''case '' @ j @ '' not found'')))
    | Inr (Some c) \<Rightarrow> bind_prog (call (GetLookupRunByCaseID j)) (\<lambda>x. case x of
        Inl err \<Rightarrow> Return (Inl (wrap_ctx ''get lookup run'' err))
      | Inr None \<Rightarrow> start_prog now j c
      | Inr (Some run) \<Rightarrow> bind_prog (call (GetSourcesByRunID (run_ID run))) (\<lambda>x. case x of
          Inl err \<Rightarrow> Return (Inl (wrap_ctx ''get sources'' err))
        | Inr sources \<Rightarrow>
            if run_Status run = StatusComplete \<or> run_Status run = StatusPending then
              Return (Inr (\<lparr>lr_Case = c, lr_Run = Some run, lr_Sources = sources\<rparr>, 200, None))
            else if run_Status run = StatusPartial \<or> run_Status run = StatusFailed then
              retrigger_prog now c run sources
            else start_prog now j c)))"
  proof (cases x)
    case (Inr y)
    have "calm i b (case z of Inl err \<Rightarrow> Return (Inl (wrap_ctx ''get lookup run'' err))
      | Inr None \<Rightarrow> start_prog now j c
      | Inr (Some run) \<Rightarrow> bind_prog (call (GetSourcesByRunID (run_ID run))) (\<lambda>x. case x of
          Inl err \<Rightarrow> Return (Inl (wrap_ctx ''get sources'' err))
        | Inr sources \<Rightarrow>
            if run_Status run = StatusComplete \<or> run_Status run = StatusPending then
              Return (Inr (\<lparr>lr_Case = c, lr_Run = Some run, lr_Sources = sources\<rparr>, 200, None))
            else if run_Status run = StatusPartial \<or> run_Status run = StatusFailed then
              retrigger_prog now c run sources
            else start_prog now j c))"
      if "quiet i d" "fst (GetLookupRunByCaseID j d) = z" for c d z
    proof -
      have run: "run_CaseID r = j \<and> (j = i \<longrightarrow> run_Status r \<in> {StatusPending, StatusComplete})"
        if "z = Inr (Some r)" for r
      proof -
        have "find (\<lambda>r. run_CaseID r = j) (lookup_runs d) = Some r"
          using \<open>fst (GetLookupRunByCaseID j d) = z\<close> that
          by (auto simp: GetLookupRunByCaseID_def db_query_row_def split: exec_out.splits)
        with find_SomeD [OF this] \<open>quiet i d\<close> show ?thesis by (auto simp: quiet_def)
      qed
      show ?thesis
      proof (cases z)
        case (Inr w)
        with run show ?thesis
          by (cases w) (auto intro!: calm_read start_prog_calm retrigger_prog_calm split: sum.splits)
      qed simp
    qed
    then show ?thesis using Inr by (auto intro!: calm_read split: option.splits)
  qed simp
qed

text \<open>How many lookups of the case a thread has started, at most.\<close>

primrec started :: "string \<Rightarrow> thread \<Rightarrow> nat \<Rightarrow> bool" where
  "started i (Trigger j p) n \<longleftrightarrow> calm i (0 < n) p"
| "started i (Answered j out) n \<longleftrightarrow> (launches i out \<longrightarrow> 0 < n)"
| "started i (Lookup j p) n \<longleftrightarrow> True"

lemma started_starters: "list_all2 (started i) ts ns \<Longrightarrow> length (starters i ts) \<le> sum_list ns"
proof (induction rule: list_all2_induct)
  case (Cons t ts n ns)
  then show ?case by (cases t) (auto simp: starters_def)
qed (simp add: starters_def)

lemma gw_step_started:
  assumes "gw_step l (ts, d) (ts', d')" "\<forall>k. l \<noteq> LookupStatement k" "quiet i d"
    and "list_all2 (started i) ts ns"
  shows "quiet i d' \<and> (\<exists>ns'. list_all2 (started i) ts' ns' \<and>
    sum_list ns' + nruns i d \<le> sum_list ns + nruns i d')"
  using assms(1)
proof (cases rule: gw_step_cases [consumes 1, case_names request statement answer lookup])
  case (request j now)
  have "started i (Trigger j (Trigger_prog now j)) 0" using Trigger_prog_calm by simp
  with assms(3,4) request show ?thesis
    by (intro conjI exI [of _ "ns @ [0]"]) (auto intro: list_all2_appendI)
next
  case (statement k j g p)
  have len: "length ns = length ts" using assms(4) by (simp add: list_all2_lengthD)
  have "started i (ts ! k) (ns ! k)" by (rule list_all2_nthD [OF assms(4)]) (use statement in simp)
  then have c: "calm i (0 < ns ! k) (Stmt g)" using statement by simp
  let ?n = "ns ! k + (nruns i (snd (g d)) - nruns i d)"
  have q: "quiet i d'" "nruns i d \<le> nruns i d'" "calm i (0 < ns ! k \<or> nruns i d < nruns i d') p"
    using c assms(3) statement by (auto elim!: calm_StmtE)
  then have "calm i (0 < ?n) p" using statement by (auto elim: calm_mono)
  then have "list_all2 (started i) ts' (ns[k := ?n])"
    using statement assms(4) by (auto intro!: list_all2_update)
  moreover have "sum_list (ns[k := ?n]) + nruns i d \<le> sum_list ns + nruns i d'"
    using q(2) statement len elem_le_sum_list [of k ns] by (simp add: sum_list_update)
  ultimately show ?thesis using q(1) by blast
next
  case (answer k j out new)
  have len: "length ns = length ts" using assms(4) by (simp add: list_all2_lengthD)
  have "started i (ts ! k) (ns ! k)" by (rule list_all2_nthD [OF assms(4)]) (use answer in simp)
  then have "started i (Answered j out) (ns ! k)" using answer by simp
  then have "list_all2 (started i) (ts[k := Answered j out]) (ns[k := ns ! k])"
    using answer assms(4) by (auto intro!: list_all2_update simp del: list_update_id)
  moreover have "list_all2 (started i) new (replicate (length new) 0)"
    using answer by (cases out) (auto split: option.splits)
  ultimately have "list_all2 (started i) ts' (ns @ replicate (length new) 0)"
    using answer by (simp add: list_all2_appendI)
  with assms(3) answer show ?thesis by (intro conjI exI) (auto simp: sum_list_replicate)
qed (use assms(2) in blast)

lemma gw_path_started:
  assumes "gw_path ls s s'" "\<forall>k. LookupStatement k \<notin> set ls" "quiet i (snd s)"
    and "list_all2 (started i) (fst s) ns"
  shows "quiet i (snd s') \<and> (\<exists>ns'. list_all2 (started i) (fst s') ns' \<and>
    sum_list ns' + nruns i (snd s) \<le> sum_list ns + nruns i (snd s'))"
  using assms
proof (induction rule: gw_path.induct)
  case (more ls s s' l s'')
  then obtain ns' where ns': "quiet i (snd s')" "list_all2 (started i) (fst s') ns'"
    "sum_list ns' + nruns i (snd s) \<le> sum_list ns + nruns i (snd s')"
    by auto
  obtain ts d ts' d' where s: "s' = (ts, d)" "s'' = (ts', d')" by fastforce
  have "\<forall>k. l \<noteq> LookupStatement k" using more.prems(1) by auto
  from gw_step_started [OF more.hyps(2) [unfolded s] this] ns'(1,2) obtain ns'' where
    "quiet i d'" "list_all2 (started i) ts' ns''" "sum_list ns'' + nruns i d \<le> sum_list ns' + nruns i d'"
    unfolding s fst_conv snd_conv by blast
  with ns'(3) show ?case unfolding s by auto
qed auto

section \<open>Threads that run alone for a while\<close>

lemma gw_path_Cons: "gw_step l s s' \<Longrightarrow> gw_path ls s' s'' \<Longrightarrow> gw_path (l # ls) s s''"
  using gw_path_append [of ls s' s'' "[l]" s] gw_path.more [OF gw_path.start, of l s s'] by simp

lemma call_step:
  assumes "k < length ts" "ts ! k = Trigger i (bind_prog (call f) h)"
  shows "gw_step (Statement k) (ts, d) (ts[k := Trigger i (h (fst (f d)))], snd (f d))"
  by (rule gw_step.statement [OF assms(1), where g = "map_prod (\<lambda>p. bind_prog p h) id \<circ> (map_prod Return id \<circ> f)"])
    (simp_all add: assms(2) call_def prod_eq_iff)

lemma run_alone:
  assumes "run_prog p d = (x, d')" "k < length ts" "ts ! k = Trigger i p"
  shows "\<exists>ls. gw_path ls (ts, d) (ts[k := Trigger i (Return x)], d')"
  using assms
proof (induction p arbitrary: d ts)
  case (Return y)
  then show ?case using gw_path.start by (metis list_update_id prod.inject run_prog.simps(1))
next
  case (Stmt g)
  let ?ts = "ts[k := Trigger i (fst (g d))]"
  have step: "gw_step (Statement k) (ts, d) (?ts, snd (g d))"
    by (rule gw_step.statement [OF Stmt.prems(2,3)]) simp
  have "\<exists>ls. gw_path ls (?ts, snd (g d)) (?ts[k := Trigger i (Return x)], d')"
    using Stmt.prems by (intro Stmt.IH [OF rangeI, of _ d]) (auto simp: fsts.simps prod_eq_iff split_beta)
  then show ?case using gw_path_Cons [OF step] by auto
qed

text \<open>
  A trigger up to the point where it has read a run that has to be started again: three
  statements that leave the tables alone.
\<close>

lemma reads_before_retrigger:
  assumes "healthy d" "find (\<lambda>c. c_ID c = i) (cases d) = Some c"
    and "find (\<lambda>r. run_CaseID r = i) (lookup_runs d) = Some r"
    and "run_Status r = StatusPartial \<or> run_Status r = StatusFailed"
    and "k < length ts" "ts ! k = Trigger i (Trigger_prog now i)"
  shows "gw_path [Statement k, Statement k, Statement k] (ts, d)
    (ts[k := Trigger i (retrigger_prog now c r (sort_key src_Source (sources_of (run_ID r) d)))],
     next_stmt (next_stmt (next_stmt d)))"
proof -
  have st: "run_Status r \<noteq> StatusComplete" "run_Status r \<noteq> StatusPending" using assms(4) by auto
  note s1 = call_step [OF assms(5) assms(6) [unfolded Trigger_prog_def], of d]
  let ?d1 = "next_stmt d" and ?d2 = "next_stmt (next_stmt d)"
  show ?thesis
    apply (rule gw_path_Cons [OF s1])
    apply (rule gw_path_Cons)
     apply (rule call_step)
      apply (simp add: assms(5))
     apply (simp add: assms(1,2,5) healthy_reads)
    apply (rule gw_path_Cons)
     apply (rule call_step)
      apply (simp add: assms(5))
     apply (simp add: assms(1,3,5) healthy_reads)
    apply (simp add: assms(1,4,5) st healthy_reads gw_path.start)
    done
qed

lemma trigger_step:
  assumes "k < length ts" "ts ! k = Trigger i (Trigger_prog now j)"
  shows "\<exists>t d'. gw_step (Statement k) (ts, d) (ts[k := t], d')"
  using call_step [OF assms(1) assms(2) [unfolded Trigger_prog_def]] by blast

lemma two_requests:
  "gw_path [Request, Request] ([], d) ([Trigger i (Trigger_prog now i), Trigger i (Trigger_prog now i)], d)"
proof -
  let ?t = "Trigger i (Trigger_prog now i)"
  have r: "gw_step Request ([], d) ([?t], d)" "gw_step Request ([?t], d) ([?t, ?t], d)"
    using gw_step.request [of "[]" d i now] gw_step.request [of "[?t]" d i now] by simp_all
  show ?thesis by (rule gw_path_Cons [OF r(1) gw_path_Cons [OF r(2) gw_path.start]])
qed

lemma sample_path:
  "\<exists>ts d. gw_path [Request, Request, Statement 0, Statement 1] ([], sample_db) (ts, d) \<and> length ts = 2"
proof -
  let ?t = "Trigger ''C1'' (Trigger_prog 0 ''C1'')"
  obtain t1 d1 where s0: "gw_step (Statement 0) ([?t, ?t], sample_db) ([t1, ?t], d1)"
    using trigger_step [of 0 "[?t, ?t]" "''C1''" 0 "''C1''" sample_db] by auto
  obtain t2 d2 where s1: "gw_step (Statement 1) ([t1, ?t], d1) ([t1, t2], d2)"
    using trigger_step [of 1 "[t1, ?t]" "''C1''" 0 "''C1''" d1] by auto
  have "gw_path [Statement 0, Statement 1] ([?t, ?t], sample_db) ([t1, t2], d2)"
    by (intro gw_path_Cons [OF s0] gw_path_Cons [OF s1] gw_path.start)
  from gw_path_append [OF this two_requests] show ?thesis by (intro exI [of _ "[t1, t2]"] exI [of _ d2]) simp
qed

text \<open>On a healthy database a retrigger starts a lookup, and another one after it would too.\<close>

lemma retrigger_restarts:
  assumes "healthy d" "distinct (map src_ID (lookup_sources d))" "run_CaseID r = i"
    and "s0 \<in> set (sources_of (run_ID r) d)" "src_Status s0 \<in> {''pending'', ''failed''}"
  shows "\<exists>out d' s'. retrigger now c r ss d = (out, d') \<and> launches i out \<and>
    (\<exists>p. lookup_threads i [Lookup i p] out) \<and>
    healthy d' \<and> distinct (map src_ID (lookup_sources d')) \<and>
    s' \<in> set (sources_of (run_ID r) d') \<and> src_Status s' \<in> {''pending'', ''failed''}"
proof -
  let ?r = "r\<lparr>run_Status := StatusPending\<rparr>"
  from retrigger_healthy [OF assms(1,2,4,5), of now c ss] obtain d' ss' where
    g: "retrigger now c r ss d = (Inr (\<lparr>lr_Case = c, lr_Run = Some ?r, lr_Sources = ss'\<rparr>, 202, Some (c, ?r)), d')"
      (is "_ = (?out, _)")
    and d': "same_server d d'" "lookup_sources d' = map (\<lambda>s. if src_RunID s = run_ID r \<and>
      src_Status s \<in> {''pending'', ''failed''} then reset_row s else s) (lookup_sources d)"
    by auto
  have "lookup_threads i [Lookup i (Lookup_prog (\<lambda>x. x) (map some_result) 0 ?r)] ?out"
    using valid_some_results by (auto intro!: exI [of _ "\<lambda>x. x"] exI [of _ "map some_result"] exI [of _ 0])
  moreover have "map src_ID (lookup_sources d') = map src_ID (lookup_sources d)"
    unfolding d'(2) by simp
  moreover have "reset_row s0 \<in> set (sources_of (run_ID r) d')"
    using assms(4,5) unfolding d'(2) sources_of_def by (auto simp: d'(2) image_iff intro!: bexI [of _ s0])
  ultimately show ?thesis
    using g assms(1-3) healthy_same_server [OF d'(1)]
    by (intro exI [of _ ?out] exI [of _ d'] exI [of _ "reset_row s0"]) auto
qed

section \<open>Properties\<close>



text \<open>
  Claim C2. However many requests and lookups run at the same time, in every interleaving of
  their statements and under all faults of the database, the tables stay consistent, every run
  there was at the start is still there with its case, and every answer is an error, 200, or
  202 with a lookup started.
\<close>

theorem interleavings_consistent:
  assumes "gw_path ls ([], d0) (ts, d)" and "db_inv d0"
  shows "db_inv d \<and> run_keys d0 \<subseteq> run_keys d \<and>
    (\<forall>t \<in> set ts. \<forall>out. answer_of t = Some out \<longrightarrow> answer_ok out)"
proof -
  from kept.gw_path_steps [OF assms(1), of "run_keys d0" "[]"] assms(2) obtain ns where
    inv: "db_inv d" "run_keys d0 \<subseteq> run_keys d"
    and ns: "list_all2 (steps_left (\<lambda>d. db_inv d \<and> run_keys d0 \<subseteq> run_keys d) (\<lambda>i c. True)) ts ns" by auto
  have "answer_ok out" if t: "t \<in> set ts" "answer_of t = Some out" for t out
  proof -
    obtain k where "k < length ts" "ts ! k = t" using t(1) by (auto simp: in_set_conv_nth)
    with list_all2_nthD [OF ns, of k] t(2) show ?thesis by (cases t) (auto dest: launch_ok_answer)
  qed
  with inv show ?thesis by blast
qed

theorem interleavings_consistent_witness:
  "\<exists>ts d. gw_path [Request, Request, Statement 0, Statement 1] ([], sample_db) (ts, d) \<and> length ts = 2 \<and> db_inv d"
  using sample_path interleavings_consistent [OF _ sample_db_ok(1)] by blast



text \<open>
  Once a run is partial or failed, this protection is gone: two triggers that both
  read the run before either resets it both answer 202, and two lookups of the same run are
  started.
\<close>

theorem concurrent_retriggers_both_start:
  assumes "healthy d" "distinct (map src_ID (lookup_sources d))"
    and "find (\<lambda>c. c_ID c = i) (cases d) = Some c"
    and "find (\<lambda>r. run_CaseID r = i) (lookup_runs d) = Some r"
    and "run_Status r = StatusPartial \<or> run_Status r = StatusFailed"
    and "s0 \<in> set (sources_of (run_ID r) d)" "src_Status s0 \<in> {''pending'', ''failed''}"
  shows "\<exists>ls ts d'. gw_path ls ([], d) (ts, d') \<and> length (starters i ts) = 2 \<and>
    length (filter (\<lambda>t. \<exists>p. t = Lookup i p) ts) = 2"
proof -
  let ?d3 = "next_stmt (next_stmt (next_stmt d))" and ?t = "Trigger i (Trigger_prog 0 i)"
  let ?d6 = "next_stmt (next_stmt (next_stmt ?d3))"
  let ?ss = "sort_key src_Source (sources_of (run_ID r) d)"
  let ?re = "Trigger i (retrigger_prog 0 c r ?ss)"
  have i: "run_CaseID r = i" using find_SomeD [OF assms(4)] by simp
  have r1: "gw_path [Statement 0, Statement 0, Statement 0] ([?t, ?t], d) ([?re, ?t], ?d3)"
    using reads_before_retrigger [OF assms(1,3,4,5), of 0 "[?t, ?t]" 0] by simp
  have r2: "gw_path [Statement 1, Statement 1, Statement 1] ([?re, ?t], ?d3) ([?re, ?re], ?d6)"
    using reads_before_retrigger [of ?d3 i c r 1 "[?re, ?t]" 0] assms(1,3,4,5) by simp
  from retrigger_restarts [of ?d6 r i s0 0 c ?ss] assms(1,2,6,7) i obtain o1 d1 s1 p1 where
    g1: "retrigger 0 c r ?ss ?d6 = (o1, d1)" "launches i o1" "lookup_threads i [Lookup i p1] o1" "healthy d1"
      "distinct (map src_ID (lookup_sources d1))" "s1 \<in> set (sources_of (run_ID r) d1)"
      "src_Status s1 \<in> {''pending'', ''failed''}" by fastforce
  from retrigger_restarts [OF g1(4,5) i g1(6,7), of 0 c ?ss] obtain o2 d2 p2 where
    g2: "retrigger 0 c r ?ss d1 = (o2, d2)" "launches i o2" "lookup_threads i [Lookup i p2] o2" by blast
  obtain l1 where l1: "gw_path l1 ([?re, ?re], ?d6) ([Trigger i (Return o1), ?re], d1)"
    using run_alone [of "retrigger_prog 0 c r ?ss" ?d6 o1 d1 0 "[?re, ?re]" i] g1(1) by auto
  obtain l2 where l2: "gw_path l2 ([Trigger i (Return o1), ?re], d1) ([Trigger i (Return o1), Trigger i (Return o2)], d2)"
    using run_alone [of "retrigger_prog 0 c r ?ss" d1 o2 d2 1 "[Trigger i (Return o1), ?re]" i] g2(1) by auto
  have a1: "gw_step (Answer 0) ([Trigger i (Return o1), Trigger i (Return o2)], d2)
      ([Answered i o1, Trigger i (Return o2), Lookup i p1], d2)"
    using gw_step.answer [OF _ _ g1(3), of 0 "[Trigger i (Return o1), Trigger i (Return o2)]" d2] by simp
  have a2: "gw_step (Answer 1) ([Answered i o1, Trigger i (Return o2), Lookup i p1], d2)
      ([Answered i o1, Answered i o2, Lookup i p1, Lookup i p2], d2)"
    using gw_step.answer [OF _ _ g2(3), of 1 "[Answered i o1, Trigger i (Return o2), Lookup i p1]" d2] by simp
  have answers: "gw_path [Answer 0, Answer 1] ([Trigger i (Return o1), Trigger i (Return o2)], d2)
      ([Answered i o1, Answered i o2, Lookup i p1, Lookup i p2], d2)"
    by (intro gw_path_Cons [OF a1] gw_path_Cons [OF a2] gw_path.start)
  have "gw_path (([Request, Request] @ [Statement 0, Statement 0, Statement 0] @ [Statement 1, Statement 1, Statement 1]) @
      (l1 @ l2) @ [Answer 0, Answer 1]) ([], d) ([Answered i o1, Answered i o2, Lookup i p1, Lookup i p2], d2)"
    by (intro gw_path_append [OF gw_path_append [OF answers gw_path_append [OF l2 l1]]]
        gw_path_append [OF gw_path_append [OF r2 r1] two_requests])
  moreover have "length (starters i [Answered i o1, Answered i o2, Lookup i p1, Lookup i p2]) = 2"
    using g1(2) g2(2) by (simp add: starters_def)
  ultimately show ?thesis
    by (intro exI [of _ "[Answered i o1, Answered i o2, Lookup i p1, Lookup i p2]"] exI) (auto intro: exI)
qed

theorem concurrent_retriggers_both_start_witness:
  "\<exists>ls ts d'. gw_path ls ([], sample_run_db StatusPartial) (ts, d') \<and> length (starters ''C1'' ts) = 2 \<and>
     length (filter (\<lambda>t. \<exists>p. t = Lookup ''C1'' p) ts) = 2"
  by (rule concurrent_retriggers_both_start [OF sample_run_db_ok(1,3-5), where ?s0.0 = "new_source ''s'' ''R'' SourceSCRA"])
    (simp_all add: sample_run_db_ok(7,8), simp add: sample_run_db_def sources_of_def)

text \<open>
  Claim C13. Every request is served, under any scheduler: the gateway takes at most 16 steps
  per request, whatever the interleaving and the faults of the database, and as long as a
  request is not answered or a lookup is not done, some thread can take a step.
\<close>

theorem every_request_is_served:
  assumes "gw_path ls ([], d0) (ts, d)" and "db_inv d0"
  shows "length (filter (\<lambda>l. l \<noteq> Request) ls) \<le> 16 * count_list ls Request \<and>
    ((\<forall>t \<in> set ts. finished t) \<or> (\<exists>l s. l \<noteq> Request \<and> gw_step l (ts, d) s))"
proof -
  from kept.gw_path_steps [OF assms(1), of "{}" "[]"] assms(2)
  have "length (filter (\<lambda>l. l \<noteq> Request) ls) \<le> 16 * count_list ls Request" by auto
  with unfinished_step [of _ ts d] show ?thesis by blast
qed

theorem every_request_is_served_witness:
  "\<exists>ts d. gw_path [Request, Request, Statement 0, Statement 1] ([], sample_db) (ts, d) \<and>
     ((\<forall>t \<in> set ts. finished t) \<or> (\<exists>l s. l \<noteq> Request \<and> gw_step l (ts, d) s))"
  using sample_path every_request_is_served [OF _ sample_db_ok(1)] by blast

end
