(* ===== verification/Bulk.thy ===== *)
theory Bulk
  imports Concurrency
begin

text \<open>
  \<^verbatim>\<open>BulkEnrich\<close> of \<^verbatim>\<open>backend/internal/api/handler.go\<close>: decoding the request, the pool of at
  most three workers that take the indices of the cases from a channel, and the response. The
  channel holds all indices at once, so sending never blocks and the workers can be taken to
  start after it; a worker that finds it empty ends. Each trigger runs statement by statement,
  interleaved with those of the other workers and with whatever else the gateway does to the
  database, which is the relation \<open>R\<close>.
\<close>

section \<open>Request and response\<close>

text \<open>
  The handler decodes the first value of the request body, or gets an error. An element that
  is \<^verbatim>\<open>null\<close> decodes to the empty string.
\<close>

definition bulk_field :: "string \<Rightarrow> json \<Rightarrow> string list option \<Rightarrow> string + string list option" where
  "bulk_field name j r =
     (if name = ''caseids'' then store_as (\<lambda>v. v) (dec_slice (dec_string []) j) else Inr r)"

definition bulk_request :: "string + json \<Rightarrow> api_response + string list" where
  "bulk_request body =
     (case (case body of Inl e \<Rightarrow> Inl e | Inr j \<Rightarrow> dec_struct bulk_field None j) of
        Inl e \<Rightarrow> Inl (writeJSON 400 (errorResponse ''invalid JSON body''))
      | Inr caseIDs \<Rightarrow>
          (case caseIDs of
             None \<Rightarrow> Inl (writeJSON 400 (errorResponse ''caseIds must not be empty''))
           | Some ids \<Rightarrow>
               if ids = [] then Inl (writeJSON 400 (errorResponse ''caseIds must not be empty''))
               else Inr ids))"

record caseResult =
  bc_CaseID :: string
  bc_Status :: string
  bc_Error :: string

definition no_result :: caseResult where
  "no_result = \<lparr>bc_CaseID = [], bc_Status = [], bc_Error = []\<rparr>"

definition case_result :: "string \<Rightarrow> goerr + trigger_out \<Rightarrow> caseResult" where
  "case_result caseID out =
     (let cr = \<lparr>bc_CaseID = caseID, bc_Status = [], bc_Error = []\<rparr> in
      case out of
        Inl err \<Rightarrow> cr\<lparr>bc_Status := ''error'', bc_Error := error_text err\<rparr>
      | Inr (_, code, _) \<Rightarrow>
          if code = 200 then cr\<lparr>bc_Status := ''complete''\<rparr>
          else if code = 202 then cr\<lparr>bc_Status := ''triggered''\<rparr>
          else cr)"

definition enc_caseResult :: "caseResult \<Rightarrow> json" where
  "enc_caseResult r =
     JObj ([(''caseId'', JStr (bc_CaseID r)), (''status'', JStr (bc_Status r))] @ omit_str ''error'' (bc_Error r))"

definition bulk_response :: "string list \<Rightarrow> caseResult list \<Rightarrow> api_response" where
  "bulk_response ids results = writeJSON 202
     (JObj [(''cases'', JArr (map enc_caseResult results)), (''triggered'', JInt (int (length ids)))])"

section \<open>The worker pool\<close>

type_synonym worker = "(nat \<times> (goerr + trigger_out) prog) option"

record bulk =
  jobs :: "nat list"
  workers :: "worker list"
  results :: "caseResult list"
  bulk_db :: db

definition bulk_init :: "string list \<Rightarrow> db \<Rightarrow> bulk" where
  "bulk_init ids d =
     \<lparr>jobs = [0..<length ids],
      workers = replicate (if length ids < 3 then length ids else 3) None,
      results = replicate (length ids) no_result, bulk_db = d\<rparr>"

datatype bulk_label = Take nat | Work nat | Finish nat | Others

inductive bulk_step :: "(db \<Rightarrow> db \<Rightarrow> bool) \<Rightarrow> string list \<Rightarrow> bulk_label \<Rightarrow> bulk \<Rightarrow> bulk \<Rightarrow> bool"
  for R ids where
  take: "w < length (workers b) \<Longrightarrow> workers b ! w = None \<Longrightarrow> jobs b = i # is \<Longrightarrow>
    bulk_step R ids (Take w) b
      (b\<lparr>jobs := is, workers := (workers b)[w := Some (i, Trigger_prog now (ids ! i))]\<rparr>)"
| work: "w < length (workers b) \<Longrightarrow> workers b ! w = Some (i, Stmt g) \<Longrightarrow> g (bulk_db b) = (p, d') \<Longrightarrow>
    bulk_step R ids (Work w) b (b\<lparr>workers := (workers b)[w := Some (i, p)], bulk_db := d'\<rparr>)"
| finish: "w < length (workers b) \<Longrightarrow> workers b ! w = Some (i, Return out) \<Longrightarrow>
    bulk_step R ids (Finish w) b
      (b\<lparr>workers := (workers b)[w := None], results := (results b)[i := case_result (ids ! i) out]\<rparr>)"
| others: "R (bulk_db b) d' \<Longrightarrow> bulk_step R ids Others b (b\<lparr>bulk_db := d'\<rparr>)"

inductive bulk_path :: "(db \<Rightarrow> db \<Rightarrow> bool) \<Rightarrow> string list \<Rightarrow> bulk_label list \<Rightarrow> bulk \<Rightarrow> bulk \<Rightarrow> bool"
  for R ids where
  start: "bulk_path R ids [] b b"
| more: "bulk_path R ids ls b b' \<Longrightarrow> bulk_step R ids l b' b'' \<Longrightarrow> bulk_path R ids (ls @ [l]) b b''"

text \<open>\<^verbatim>\<open>wg.Wait()\<close> returns when the channel is drained and every worker has ended.\<close>

definition bulk_done :: "bulk \<Rightarrow> bool" where
  "bulk_done b \<longleftrightarrow> jobs b = [] \<and> list_all (\<lambda>w. w = None) (workers b)"

lemma bulk_request_refused:
  assumes "bulk_request body = Inl r"
  shows "api_code r = 400"
proof (cases "case body of Inl e \<Rightarrow> Inl e | Inr j \<Rightarrow> dec_struct bulk_field None j")
  case (Inl e)
  with assms show ?thesis by (simp add: bulk_request_def) auto
next
  case (Inr c)
  with assms show ?thesis by (cases c) (auto simp: bulk_request_def split: if_splits)
qed

section \<open>Every job is done\<close>

definition keeps_tables :: "(db \<Rightarrow> db \<Rightarrow> bool) \<Rightarrow> bool" where
  "keeps_tables R \<longleftrightarrow> (\<forall>d d'. R d d' \<longrightarrow> db_inv d \<longrightarrow> db_inv d')"

primrec worker_left :: "worker \<Rightarrow> nat \<Rightarrow> bool" where
  "worker_left None n \<longleftrightarrow> n = 0"
| "worker_left (Some x) n \<longleftrightarrow> (\<exists>m. obeys db_inv answer_ok m (snd x) \<and> n = m + 1)"

definition filled :: "string list \<Rightarrow> bulk \<Rightarrow> nat \<Rightarrow> bool" where
  "filled ids b i \<longleftrightarrow> (\<exists>out. answer_ok out \<and> results b ! i = case_result (ids ! i) out)"

definition busy_with :: "nat \<Rightarrow> worker list \<Rightarrow> bool" where
  "busy_with i ws \<longleftrightarrow> (\<exists>w \<in> set ws. \<exists>p. w = Some (i, p))"

definition bulk_inv :: "string list \<Rightarrow> bulk \<Rightarrow> nat list \<Rightarrow> bool" where
  "bulk_inv ids b ns \<longleftrightarrow> db_inv (bulk_db b) \<and> length (results b) = length ids \<and>
     list_all2 worker_left (workers b) ns \<and>
     (\<forall>i < length ids. i \<in> set (jobs b) \<or> busy_with i (workers b) \<or> filled ids b i)"

definition bulk_left :: "bulk \<Rightarrow> nat list \<Rightarrow> nat" where
  "bulk_left b ns = 11 * length (jobs b) + sum_list ns"

lemma Trigger_prog_consistent: "obeys db_inv answer_ok 9 (Trigger_prog now i)"
  using obeys_weaken [OF kept.Trigger_prog_obeys [of "{}" i now] launch_ok_answer] by simp

lemma busy_update:
  assumes "w < length ws"
  shows "busy_with i (ws[w := Some (i, p)])"
    and "busy_with j ws \<Longrightarrow> ws ! w = None \<or> (\<exists>q. ws ! w = Some (i, q)) \<and> j \<noteq> i \<Longrightarrow> busy_with j (ws[w := x])"
    and "busy_with j ws \<Longrightarrow> ws ! w = Some (i, q) \<Longrightarrow> busy_with j (ws[w := Some (i, p)])"
proof -
  show new: "busy_with i (ws[w := Some (i, p)])"
    using assms set_update_memI [OF assms, of "Some (i, p)"] by (auto simp: busy_with_def)
  show old: "busy_with j (ws[w := x])"
    if j: "busy_with j ws" "ws ! w = None \<or> (\<exists>q. ws ! w = Some (i, q)) \<and> j \<noteq> i" for j i x
  proof -
    obtain v p where v: "v < length ws" "ws ! v = Some (j, p)"
      using j(1) by (auto simp: busy_with_def in_set_conv_nth)
    then have "v \<noteq> w" using j(2) by auto
    then have "Some (j, p) \<in> set (ws[w := x])" using v by (metis in_set_conv_nth length_list_update nth_list_update_neq)
    then show ?thesis by (auto simp: busy_with_def)
  qed
  show "busy_with j ws \<Longrightarrow> ws ! w = Some (i, q) \<Longrightarrow> busy_with j (ws[w := Some (i, p)])"
    using new old [of j i] by (cases "j = i") auto
qed

lemma bulk_inv_length: "bulk_inv ids b ns \<Longrightarrow> length ns = length (workers b)"
  using list_all2_lengthD [of worker_left "workers b" ns] by (simp add: bulk_inv_def)

lemma bulk_inv_worker: "bulk_inv ids b ns \<Longrightarrow> w < length (workers b) \<Longrightarrow> worker_left (workers b ! w) (ns ! w)"
  by (simp add: bulk_inv_def list_all2_nthD)

lemma sum_update_less: "k < length ns \<Longrightarrow> m < ns ! k + c \<Longrightarrow> sum_list (ns[k := m]) < sum_list (ns :: nat list) + c"
  using elem_le_sum_list [of k ns] by (simp add: sum_list_update)

lemma bulk_step_inv:
  assumes "bulk_step R ids l b b'" "bulk_inv ids b ns" "keeps_tables R"
  shows "\<exists>ns'. bulk_inv ids b' ns' \<and>
    (if l = Others then bulk_left b' ns' = bulk_left b ns else bulk_left b' ns' < bulk_left b ns)"
proof -
  note len = bulk_inv_length [OF assms(2)]
  have inv: "db_inv (bulk_db b)" "length (results b) = length ids" "list_all2 worker_left (workers b) ns"
    and jobs: "\<And>j. j < length ids \<Longrightarrow> j \<in> set (jobs b) \<or> busy_with j (workers b) \<or> filled ids b j"
    using assms(2) by (simp_all add: bulk_inv_def)
  from assms(1) show ?thesis
  proof cases
    case (take w i "is" now)
    let ?ws = "(workers b)[w := Some (i, Trigger_prog now (ids ! i))]"
    have zero: "ns ! w = 0" using bulk_inv_worker [OF assms(2), of w] take by simp
    have "worker_left (Some (i, Trigger_prog now (ids ! i))) 10" using Trigger_prog_consistent by auto
    then have ws: "list_all2 worker_left ?ws (ns[w := 10])" using take inv(3) by (intro list_all2_update)
    have "j \<in> set is \<or> busy_with j ?ws \<or> filled ids b j" if "j < length ids" for j
      using jobs [OF that] take busy_update(1) [of w "workers b"] busy_update(2) [of w "workers b"] by auto
    then have "bulk_inv ids b' (ns[w := 10])" using inv ws take by (simp add: bulk_inv_def filled_def)
    moreover have "bulk_left b' (ns[w := 10]) < bulk_left b ns"
      using take len zero sum_update_less [of w ns 10 11] by (simp add: bulk_left_def)
    ultimately show ?thesis using take by auto
  next
    case (work w i g p d')
    obtain m where m: "obeys db_inv answer_ok m (Stmt g)" "ns ! w = m + 1"
      using bulk_inv_worker [OF assms(2), of w] work by auto
    obtain m' where m': "m = Suc m'" "db_inv (snd (g (bulk_db b)))" "obeys db_inv answer_ok m' (fst (g (bulk_db b)))"
      using m(1) inv(1) by (auto elim!: obeys_StmtE)
    let ?ws = "(workers b)[w := Some (i, p)]"
    have "worker_left (Some (i, p)) (m' + 1)" using m'(3) work by auto
    then have ws: "list_all2 worker_left ?ws (ns[w := m' + 1])" using work inv(3) by (intro list_all2_update)
    have "j \<in> set (jobs b) \<or> busy_with j ?ws \<or> filled ids b j" if "j < length ids" for j
      using jobs [OF that] work busy_update(3) [of w "workers b"] by auto
    then have "bulk_inv ids b' (ns[w := m' + 1])" using inv ws work m'(2) by (simp add: bulk_inv_def filled_def)
    moreover have "bulk_left b' (ns[w := m' + 1]) < bulk_left b ns"
      using work len m(2) m'(1) sum_update_less [of w ns "m' + 1" 0] by (simp add: bulk_left_def)
    ultimately show ?thesis using work by auto
  next
    case (finish w i out)
    have out: "answer_ok out" "0 < ns ! w" using bulk_inv_worker [OF assms(2), of w] finish by auto
    let ?ws = "(workers b)[w := None]"
    have ws: "list_all2 worker_left ?ws (ns[w := 0])" using finish inv(3) by (intro list_all2_update) simp_all
    have "j \<in> set (jobs b) \<or> busy_with j ?ws \<or> filled ids b' j" if "j < length ids" for j
    proof (cases "j = i")
      case True
      with finish out(1) that inv(2) show ?thesis by (auto simp: filled_def)
    next
      case False
      with jobs [OF that] finish busy_update(2) [of w "workers b" j i None] show ?thesis by (auto simp: filled_def)
    qed
    then have "bulk_inv ids b' (ns[w := 0])" using inv ws finish by (simp add: bulk_inv_def)
    moreover have "bulk_left b' (ns[w := 0]) < bulk_left b ns"
      using finish len out(2) sum_update_less [of w ns 0 0] by (simp add: bulk_left_def)
    ultimately show ?thesis using finish by auto
  next
    case (others d')
    then have "bulk_inv ids b' ns" using assms(2,3) by (auto simp: bulk_inv_def filled_def keeps_tables_def)
    with others show ?thesis by (auto simp: bulk_left_def)
  qed
qed

lemma bulk_init_inv:
  assumes "db_inv d"
  shows "bulk_inv ids (bulk_init ids d) (replicate (length (workers (bulk_init ids d))) 0)"
    and "bulk_left (bulk_init ids d) (replicate (length (workers (bulk_init ids d))) 0) = 11 * length ids"
  using assms by (auto simp: bulk_inv_def bulk_init_def bulk_left_def list_all2_conv_all_nth sum_list_replicate)

lemma bulk_path_inv:
  assumes "bulk_path R ids ls b b'" "bulk_inv ids b ns" "keeps_tables R"
  shows "\<exists>ns'. bulk_inv ids b' ns' \<and>
    length (filter (\<lambda>l. l \<noteq> Others) ls) + bulk_left b' ns' \<le> bulk_left b ns"
  using assms
proof (induction rule: bulk_path.induct)
  case (more ls b b' l b'')
  from more.IH [OF more.prems] obtain ns' where ns': "bulk_inv ids b' ns'"
    "length (filter (\<lambda>l. l \<noteq> Others) ls) + bulk_left b' ns' \<le> bulk_left b ns" by blast
  from bulk_step_inv [OF more.hyps(2) ns'(1) more.prems(2)] obtain ns'' where ns'': "bulk_inv ids b'' ns''"
    "if l = Others then bulk_left b'' ns'' = bulk_left b' ns' else bulk_left b'' ns'' < bulk_left b' ns'" by blast
  have "length (filter (\<lambda>l. l \<noteq> Others) (ls @ [l])) + bulk_left b'' ns'' \<le> bulk_left b ns"
    using ns'(2) ns''(2) by (cases "l = Others") simp_all
  with ns''(1) show ?case by blast
qed auto

lemma bulk_workers:
  assumes "bulk_path R ids ls b b'"
  shows "length (workers b') = length (workers b)"
  using assms by (induction rule: bulk_path.induct) (auto elim!: bulk_step.cases)

lemma bulk_progress:
  assumes "\<not> bulk_done b" "0 < length (workers b) \<or> jobs b = []"
  shows "\<exists>l b'. l \<noteq> Others \<and> bulk_step R ids l b b'"
proof (cases "list_all (\<lambda>w. w = None) (workers b)")
  case True
  with assms obtain i "is" where "jobs b = i # is" "0 < length (workers b)"
    by (cases "jobs b") (auto simp: bulk_done_def)
  with True bulk_step.take [of 0 b i "is" R ids undefined] show ?thesis by (auto simp: list_all_length)
next
  case False
  then obtain w x where w: "w < length (workers b)" "workers b ! w = Some x" by (auto simp: list_all_length)
  obtain i p where x: "x = (i, p)" by fastforce
  show ?thesis
  proof (cases p)
    case (Return out)
    with w x bulk_step.finish [of w b i out R ids] show ?thesis by auto
  next
    case (Stmt g)
    with w x bulk_step.work [of w b i g "fst (g (bulk_db b))" "snd (g (bulk_db b))" R ids] show ?thesis by auto
  qed
qed

lemma filled_result:
  assumes "filled ids b i"
  shows "bc_CaseID (results b ! i) = ids ! i \<and> bc_Status (results b ! i) \<in> {''complete'', ''triggered'', ''error''} \<and>
    (bc_Status (results b ! i) \<noteq> ''error'' \<longrightarrow> bc_Error (results b ! i) = [])"
proof -
  obtain out where out: "answer_ok out" "results b ! i = case_result (ids ! i) out"
    using assms by (auto simp: filled_def)
  show ?thesis
  proof (cases out)
    case (Inr x)
    then show ?thesis using out by (cases x) (auto simp: case_result_def)
  qed (use out in \<open>simp add: case_result_def\<close>)
qed

definition no_others :: "db \<Rightarrow> db \<Rightarrow> bool" where
  "no_others d d' \<longleftrightarrow> False"

lemma bulk_path_Cons: "bulk_path R ids ls b' b'' \<Longrightarrow> bulk_step R ids l b b' \<Longrightarrow> bulk_path R ids (l # ls) b b''"
proof (induction rule: bulk_path.induct)
  case (start b')
  then show ?case using bulk_path.more [OF bulk_path.start, of R ids l b b'] by simp
next
  case (more ls b1 b2 l' b3)
  then show ?case using bulk_path.more [of R ids "l # ls" b b2 l' b3] by simp
qed

lemma bulk_reaches_done:
  assumes "bulk_inv ids b ns" "0 < length (workers b) \<or> jobs b = []"
  shows "\<exists>ls b'. bulk_path no_others ids ls b b' \<and> bulk_done b'"
  using assms
proof (induction "bulk_left b ns" arbitrary: b ns rule: less_induct)
  case less
  show ?case
  proof (cases "bulk_done b")
    case True
    then show ?thesis using bulk_path.start by blast
  next
    case False
    with bulk_progress less.prems(2) obtain l b' where l: "l \<noteq> Others" "bulk_step no_others ids l b b'" by blast
    from bulk_step_inv [OF l(2) less.prems(1)] l(1) obtain ns' where
      ns': "bulk_inv ids b' ns'" "bulk_left b' ns' < bulk_left b ns"
      by (auto simp: no_others_def keeps_tables_def)
    have "0 < length (workers b') \<or> jobs b' = []"
      using l(2) less.prems(2) by (auto elim!: bulk_step.cases)
    from less.hyps [OF ns'(2,1) this] bulk_path_Cons [OF _ l(2)] show ?thesis by blast
  qed
qed

text \<open>What a whole request does: its answer, and the database when it is sent.\<close>

inductive BulkEnrich :: "(db \<Rightarrow> db \<Rightarrow> bool) \<Rightarrow> string + json \<Rightarrow> db \<Rightarrow> api_response \<Rightarrow> db \<Rightarrow> bool" for R where
  refused: "bulk_request body = Inl resp \<Longrightarrow> BulkEnrich R body d resp d"
| enriched: "bulk_request body = Inr ids \<Longrightarrow> bulk_path R ids ls (bulk_init ids d) b \<Longrightarrow> bulk_done b \<Longrightarrow>
    BulkEnrich R body d (bulk_response ids (results b)) (bulk_db b)"

text \<open>Other requests that trigger lookups meanwhile.\<close>

definition other_triggers :: "db \<Rightarrow> db \<Rightarrow> bool" where
  "other_triggers d d' \<longleftrightarrow> (\<exists>now i. d' = snd (TriggerLookup now i d))"

lemma other_triggers_keep: "keeps_tables other_triggers"
  using TriggerLookup_ok by (auto simp: keeps_tables_def other_triggers_def trigger_ok_def)

lemma bulk_example: "\<exists>resp d'. BulkEnrich other_triggers (Inr (JObj [(''caseIds'', JArr [JStr ''C1'', JStr ''C2''])])) sample_db resp d'"
proof -
  have req: "bulk_request (Inr (JObj [(''caseIds'', JArr [JStr ''C1'', JStr ''C2''])])) = Inr [''C1'', ''C2'']"
    by code_simp
  have mono: "bulk_path no_others ids ls b b' \<Longrightarrow> bulk_path other_triggers ids ls b b'" for ids ls b b'
    by (induction rule: bulk_path.induct)
      (auto intro!: bulk_path.intros elim!: bulk_step.cases intro: bulk_step.intros simp: no_others_def)
  obtain ls b where "bulk_path no_others [''C1'', ''C2''] ls (bulk_init [''C1'', ''C2''] sample_db) b" "bulk_done b"
    using bulk_reaches_done [OF bulk_init_inv(1) [OF sample_db_ok(1)], of "[''C1'', ''C2'']"]
    by (auto simp: bulk_init_def)
  with BulkEnrich.enriched [OF req mono] show ?thesis by blast
qed

section \<open>Properties\<close>

text \<open>
  Claim C34. A bulk request comes to an end, whatever the other requests and lookups do in
  between, as long as they keep the tables consistent: its workers take at most 11 steps per
  case, and while it is not finished one of them can take a step.
\<close>

theorem bulk_terminates:
  assumes "bulk_path R ids ls (bulk_init ids d) b" and "db_inv d"
    and "keeps_tables R"
  shows "length (filter (\<lambda>l. l \<noteq> Others) ls) \<le> 11 * length ids \<and>
    (bulk_done b \<or> (\<exists>l b'. l \<noteq> Others \<and> bulk_step R ids l b b'))"
proof -
  from bulk_path_inv [OF assms(1) bulk_init_inv(1) [OF assms(2)] assms(3)] bulk_init_inv(2) [OF assms(2), of ids]
  obtain ns where ns: "bulk_inv ids b ns" "length (filter (\<lambda>l. l \<noteq> Others) ls) + bulk_left b ns \<le> 11 * length ids"
    by auto
  have "0 < length (workers b) \<or> jobs b = []"
  proof (cases "ids = []")
    case True
    with ns(2) show ?thesis by (simp add: bulk_left_def)
  next
    case False
    then show ?thesis using bulk_workers [OF assms(1)] by (simp add: bulk_init_def)
  qed
  with ns(2) bulk_progress [of b R ids] show ?thesis by (cases "bulk_done b") auto
qed

theorem bulk_terminates_witness:
  "\<exists>b. bulk_path other_triggers [''C1''] [Take 0, Others] (bulk_init [''C1''] sample_db) b \<and>
     (bulk_done b \<or> (\<exists>l b'. l \<noteq> Others \<and> bulk_step other_triggers [''C1''] l b b'))"
proof -
  let ?b = "bulk_init [''C1''] sample_db"
  let ?b1 = "?b\<lparr>jobs := [], workers := [Some (0, Trigger_prog 0 ''C1'')]\<rparr>"
  let ?b2 = "?b1\<lparr>bulk_db := snd (TriggerLookup 5 ''C1'' (bulk_db ?b1))\<rparr>"
  have s1: "bulk_step other_triggers [''C1''] (Take 0) ?b ?b1"
    using bulk_step.take [of 0 ?b 0 "[]" other_triggers "[''C1'']" 0] by (simp add: bulk_init_def)
  have s2: "bulk_step other_triggers [''C1''] Others ?b1 ?b2"
    by (rule bulk_step.others) (auto simp only: other_triggers_def)
  note p = bulk_path_Cons [OF bulk_path_Cons [OF bulk_path.start s2] s1]
  from p conjunct2 [OF bulk_terminates [OF p sample_db_ok(1) other_triggers_keep]] show ?thesis
    by (intro exI conjI)
qed

text \<open>
  Claim C21. The answer to a bulk request: 400 if the body cannot be decoded or names no case,
  otherwise 202 with one result per case, in the order of the request, each with the ID of its
  case and one of the statuses complete, triggered and error. The documented status pending
  never occurs: a case whose lookup is in progress is reported as complete.
\<close>

theorem bulk_answers:
  assumes "BulkEnrich R body d resp d'" and "db_inv d" and "keeps_tables R"
  shows "db_inv d' \<and>
    (case bulk_request body of
       Inl r \<Rightarrow> resp = r \<and> api_code r = 400
     | Inr ids \<Rightarrow> \<exists>rs. resp = bulk_response ids rs \<and> api_code resp = 202 \<and> map bc_CaseID rs = ids \<and>
         (\<forall>r \<in> set rs. bc_Status r \<in> {''complete'', ''triggered'', ''error''} \<and>
            (bc_Status r \<noteq> ''error'' \<longrightarrow> bc_Error r = [])))"
  using assms(1)
proof cases
  case refused
  with assms(2) bulk_request_refused [OF refused(2)] show ?thesis by simp
next
  case (enriched ids ls b)
  from bulk_path_inv [OF enriched(4) bulk_init_inv(1) [OF assms(2)] assms(3)] obtain ns where
    ns: "bulk_inv ids b ns" by blast
  have len: "length (results b) = length ids" using ns by (simp add: bulk_inv_def)
  have "filled ids b i" if "i < length ids" for i
    using ns enriched(5) that by (fastforce simp: bulk_inv_def bulk_done_def list_all_iff busy_with_def)
  note res = filled_result [OF this]
  have "map bc_CaseID (results b) = ids" by (rule nth_equalityI) (use len res in simp_all)
  moreover have "\<forall>r \<in> set (results b). bc_Status r \<in> {''complete'', ''triggered'', ''error''} \<and>
      (bc_Status r \<noteq> ''error'' \<longrightarrow> bc_Error r = [])"
    using res len unfolding all_set_conv_all_nth by simp
  moreover have "api_code (bulk_response ids (results b)) = 202" by (simp add: bulk_response_def)
  moreover have "db_inv (bulk_db b)" using ns by (simp add: bulk_inv_def)
  ultimately show ?thesis
    unfolding enriched(1,2,3) sum.case by (intro conjI exI [of _ "results b"]) auto
qed

theorem bulk_answers_witness:
  "\<exists>resp d'. BulkEnrich other_triggers (Inr (JObj [(''caseIds'', JArr [JStr ''C1'', JStr ''C2''])])) sample_db resp d' \<and>
     api_code resp \<in> {202, 400}"
proof -
  obtain resp d' where
    b: "BulkEnrich other_triggers (Inr (JObj [(''caseIds'', JArr [JStr ''C1'', JStr ''C2''])])) sample_db resp d'"
    using bulk_example by blast
  from bulk_answers [OF b sample_db_ok(1) other_triggers_keep] b show ?thesis by (auto split: sum.splits)
qed

end
