(* ===== verification/Migrations.thy ===== *)
theory Migrations
  imports Store
begin

text \<open>
  \<^verbatim>\<open>backend/internal/store/db.go\<close>: applying the migration files that are not yet recorded in
  the table \<^verbatim>\<open>schema_version\<close>. What a file does to the rest of the database is up to
  PostgreSQL and is the parameter \<open>sql\<close>; the directory and its files are the parameters
  \<open>entries\<close> and \<open>read\<close>. Statements meet the same fates as in the store. Once a statement of a
  transaction has failed, PostgreSQL refuses every further one until the rollback.
\<close>

section \<open>State\<close>

record MigrationRecord =
  mr_Filename :: string
  mr_Status :: string
  mr_ErrorMessage :: "string option"

text \<open>The table does not exist before the first run; its rows are in the order of their IDs.\<close>

record 's mdb =
  schema_version :: "MigrationRecord list option"
  schema :: 's
  m_exec :: "nat \<Rightarrow> exec_out"
  m_rows :: "nat \<Rightarrow> rows_out"
  m_stmts :: nat

definition m_next :: "'s mdb \<Rightarrow> 's mdb" where
  "m_next d = d\<lparr>m_stmts := m_stmts d + 1\<rparr>"

definition records :: "'s mdb \<Rightarrow> MigrationRecord list" where
  "records d = (case schema_version d of None \<Rightarrow> [] | Some rs \<Rightarrow> rs)"

definition m_do :: "('s mdb \<Rightarrow> 's mdb) \<Rightarrow> 's mdb \<Rightarrow> goerr option \<times> 's mdb" where
  "m_do f d =
     (case m_exec d (m_stmts d) of
        ExecOk \<Rightarrow> (None, f (m_next d))
      | ExecFails e \<Rightarrow> (Some e, m_next d)
      | AckLost e \<Rightarrow> (Some e, f (m_next d)))"

section \<open>Statements\<close>

definition create_schema_version :: "'s mdb \<Rightarrow> 's mdb" where
  "create_schema_version d =
     (case schema_version d of None \<Rightarrow> d\<lparr>schema_version := Some []\<rparr> | Some rs \<Rightarrow> d)"

text \<open>\<^verbatim>\<open>INSERT ... VALUES ($1, 'success') ON CONFLICT (filename) DO UPDATE ...\<close>\<close>

definition upsert_success :: "string \<Rightarrow> MigrationRecord list \<Rightarrow> MigrationRecord list" where
  "upsert_success fn rs =
     (if fn \<in> set (map mr_Filename rs)
      then update_where (\<lambda>r. mr_Filename r = fn) (\<lambda>r. r\<lparr>mr_Status := ''success'', mr_ErrorMessage := None\<rparr>) rs
      else rs @ [\<lparr>mr_Filename = fn, mr_Status = ''success'', mr_ErrorMessage = None\<rparr>])"

definition record_success :: "string \<Rightarrow> 's mdb \<Rightarrow> 's mdb" where
  "record_success fn d = d\<lparr>schema_version := Some (upsert_success fn (records d))\<rparr>"

text \<open>The end of a transaction that began in \<open>d0\<close> and is undone.\<close>

definition m_rollback :: "'s mdb \<Rightarrow> 's mdb \<Rightarrow> 's mdb" where
  "m_rollback d0 d = d\<lparr>schema_version := schema_version d0, schema := schema d0\<rparr>"

section \<open>Running the migrations\<close>

text \<open>
  One file. When its SQL fails, the code tries to record the failure inside the same
  transaction: PostgreSQL refuses the statement, and the rollback that follows would undo it
  anyway, so these two statements change nothing.
\<close>

definition run_migration ::
  "(string \<Rightarrow> 's \<Rightarrow> goerr + 's) \<Rightarrow> string \<Rightarrow> string \<Rightarrow> 's mdb \<Rightarrow> goerr option \<times> 's mdb"
where
  "run_migration sql fn content d =
     (case m_do id d of
        (Some e, d0) \<Rightarrow> (Some (wrap_ctx (''begin tx for '' @ fn) e), d0)
      | (None, d0) \<Rightarrow>
          (let res = (case m_exec d0 (m_stmts d0) of
                        ExecOk \<Rightarrow> sql content (schema d0)
                      | ExecFails e \<Rightarrow> Inl e
                      | AckLost e \<Rightarrow> Inl e) in
           case res of
             Inl e \<Rightarrow> (Some (ErrorString (''migration '' @ fn @ '' failed: '' @ error_text e)),
                       m_rollback d0 (m_next (m_next (m_next d0))))
           | Inr s \<Rightarrow>
               (case m_do (record_success fn) ((m_next d0)\<lparr>schema := s\<rparr>) of
                  (Some e, d1) \<Rightarrow> (Some (wrap_ctx (''record migration '' @ fn) e), m_rollback d0 (m_next d1))
                | (None, d1) \<Rightarrow>
                    (case m_exec d1 (m_stmts d1) of
                       ExecOk \<Rightarrow> (None, m_next d1)
                     | ExecFails e \<Rightarrow> (Some (wrap_ctx (''commit migration '' @ fn) e), m_rollback d0 (m_next d1))
                     | AckLost e \<Rightarrow> (Some (wrap_ctx (''commit migration '' @ fn) e), m_next d1)))))"

primrec run_files ::
  "(string \<Rightarrow> goerr + string) \<Rightarrow> (string \<Rightarrow> 's \<Rightarrow> goerr + 's) \<Rightarrow> string list \<Rightarrow> string list \<Rightarrow> 's mdb \<Rightarrow>
     goerr option \<times> 's mdb"
where
  "run_files read sql applied [] d = (None, d)"
| "run_files read sql applied (fn # fns) d =
     (if fn \<in> set applied then run_files read sql applied fns d
      else
        (case read fn of
           Inl e \<Rightarrow> (Some (wrap_ctx (''read migration '' @ fn) e), d)
         | Inr content \<Rightarrow>
             (case run_migration sql fn content d of
                (Some e, d1) \<Rightarrow> (Some e, d1)
              | (None, d1) \<Rightarrow> run_files read sql applied fns d1)))"

definition has_suffix :: "string \<Rightarrow> string \<Rightarrow> bool" where
  "has_suffix s suf \<longleftrightarrow> length suf \<le> length s \<and> drop (length s - length suf) s = suf"

text \<open>The sorted names of the entries that are files and end in \<^verbatim>\<open>.sql\<close>.\<close>

definition migration_files :: "(string \<times> bool) list \<Rightarrow> string list" where
  "migration_files es = sort (map fst (filter (\<lambda>e. \<not> snd e \<and> has_suffix (fst e) ''.sql'') es))"

definition previously_failed :: "int \<Rightarrow> goerr" where
  "previously_failed n = ErrorString
     (itoa n @ '' previously failed migration(s) '' @ [CHR 0xE2, CHR 0x80, CHR 0x94] @ '' fix and retry manually'')"

definition RunMigrations ::
  "string \<Rightarrow> goerr + (string \<times> bool) list \<Rightarrow> (string \<Rightarrow> goerr + string) \<Rightarrow>
     (string \<Rightarrow> 's \<Rightarrow> goerr + 's) \<Rightarrow> 's mdb \<Rightarrow> goerr option \<times> 's mdb"
where
  "RunMigrations dir entries read sql d =
     (case m_do create_schema_version d of
        (Some e, d1) \<Rightarrow> (Some (wrap_ctx ''create schema_version'' e), d1)
      | (None, d1) \<Rightarrow>
          (case m_do id d1 of
             (Some e, d2) \<Rightarrow> (Some (wrap_ctx ''check failed migrations'' e), d2)
           | (None, d2) \<Rightarrow>
               (let failedCount = length (filter (\<lambda>r. mr_Status r = ''failed'') (records d2)) in
                if 0 < failedCount then (Some (previously_failed (int failedCount)), m_next d2)
                else
                  (let rows = map mr_Filename (filter (\<lambda>r. mr_Status r = ''success'') (records d2));
                       d3 = m_next d2;
                       listed =
                         (case m_rows d2 (m_stmts d2) of
                            RowsOk \<Rightarrow> Inr rows
                          | QueryFails e \<Rightarrow> Inl (wrap_ctx ''list applied migrations'' e)
                          | ScanFails n e \<Rightarrow> if n < length rows then Inl e else Inr rows
                          | RowsCut n \<Rightarrow> Inr (take n rows)) in
                   case listed of
                     Inl e \<Rightarrow> (Some e, d3)
                   | Inr applied \<Rightarrow>
                       (case entries of
                          Inl e \<Rightarrow> (Some (wrap_ctx (''read migrations dir '' @ dir) e), d3)
                        | Inr es \<Rightarrow>
                            (let files = migration_files es in
                             if files = [] then
                               (Some (ErrorString (''no .sql files found in '' @ dir)), d3)
                             else run_files read sql applied files d3))))))"

definition GetMigrationStatus :: "'s mdb \<Rightarrow> (goerr + MigrationRecord list) \<times> 's mdb" where
  "GetMigrationStatus d =
     ((case m_rows d (m_stmts d) of
         RowsOk \<Rightarrow> Inr (records d)
       | QueryFails e \<Rightarrow> Inl e
       | ScanFails n e \<Rightarrow> if n < length (records d) then Inl e else Inr (records d)
       | RowsCut n \<Rightarrow> Inr (take n (records d))), m_next d)"

section \<open>Replaying the records\<close>

text \<open>The database the files give when they are run one after the other.\<close>

primrec replay ::
  "(string \<Rightarrow> goerr + string) \<Rightarrow> (string \<Rightarrow> 's \<Rightarrow> goerr + 's) \<Rightarrow> string list \<Rightarrow> 's \<Rightarrow> 's option" where
  "replay read sql [] s = Some s"
| "replay read sql (fn # fns) s =
     (case read fn of
        Inl e \<Rightarrow> None
      | Inr content \<Rightarrow> (case sql content s of Inl e \<Rightarrow> None | Inr s' \<Rightarrow> replay read sql fns s'))"

lemma replay_append:
  "replay read sql (fs @ gs) s = (case replay read sql fs s of None \<Rightarrow> None | Some s' \<Rightarrow> replay read sql gs s')"
  by (induction fs arbitrary: s) (auto split: sum.splits)

text \<open>
  The invariant of the runner: the database is what the recorded files give, in the order of
  the records, which all say success.
\<close>

definition tracked ::
  "(string \<Rightarrow> goerr + string) \<Rightarrow> (string \<Rightarrow> 's \<Rightarrow> goerr + 's) \<Rightarrow> 's \<Rightarrow> 's mdb \<Rightarrow> bool"
where
  "tracked read sql s0 d \<longleftrightarrow>
     distinct (map mr_Filename (records d)) \<and> (\<forall>r \<in> set (records d). mr_Status r = ''success'') \<and>
     replay read sql (map mr_Filename (records d)) s0 = Some (schema d)"

lemma records_simps [simp]:
  "records (m_next d) = records d" "schema (m_next d) = schema d"
  "m_exec (m_next d) = m_exec d" "m_rows (m_next d) = m_rows d" "m_stmts (m_next d) = m_stmts d + 1"
  "records (create_schema_version d) = records d" "schema (create_schema_version d) = schema d"
  "m_exec (create_schema_version d) = m_exec d" "m_rows (create_schema_version d) = m_rows d"
  "records (d\<lparr>schema := s\<rparr>) = records d"
  "records (record_success fn d) = upsert_success fn (records d)" "schema (record_success fn d) = schema d"
  "m_exec (record_success fn d) = m_exec d" "m_rows (record_success fn d) = m_rows d"
  "records (m_rollback d0 d) = records d0" "schema (m_rollback d0 d) = schema d0"
  "m_exec (m_rollback d0 d) = m_exec d" "m_rows (m_rollback d0 d) = m_rows d"
  "m_stmts (m_rollback d0 d) = m_stmts d" "m_stmts (record_success fn d) = m_stmts d"
  by (simp_all add: m_next_def records_def create_schema_version_def record_success_def m_rollback_def
      split: option.splits)

definition same_schema :: "'s mdb \<Rightarrow> 's mdb \<Rightarrow> bool" where
  "same_schema d d' \<longleftrightarrow> records d' = records d \<and> schema d' = schema d"

text \<open>The state with one more file run and recorded.\<close>

definition migrated :: "(string \<Rightarrow> 's \<Rightarrow> goerr + 's) \<Rightarrow> string \<Rightarrow> string \<Rightarrow> 's mdb \<Rightarrow> 's mdb \<Rightarrow> bool" where
  "migrated sql fn content d d' \<longleftrightarrow> sql content (schema d) = Inr (schema d') \<and>
     records d' = upsert_success fn (records d)"

lemma m_do_cases:
  obtains (ok) "m_do f d = (None, f (m_next d))" "m_exec d (m_stmts d) = ExecOk"
    | (lost) e where "m_do f d = (Some e, f (m_next d))"
    | (fails) e where "m_do f d = (Some e, m_next d)"
  by (cases "m_exec d (m_stmts d)") (auto simp: m_do_def)

lemma run_migration_cases:
  assumes "run_migration sql fn content d = (res, d')"
  shows "(res \<noteq> None \<and> same_schema d d') \<or> migrated sql fn content d d'"
    and "m_exec d' = m_exec d" "m_rows d' = m_rows d"
  using assms
  by (auto simp: run_migration_def m_do_def Let_def same_schema_def migrated_def
      split: exec_out.splits sum.splits)

lemma run_migration_None: "run_migration sql fn content d = (None, d') \<Longrightarrow> migrated sql fn content d d'"
  using run_migration_cases(1) by blast

lemma migrated_tracked:
  assumes "migrated sql fn content d d'" "tracked read sql s0 d" "fn \<notin> set (map mr_Filename (records d))"
    and "read fn = Inr content"
  shows "tracked read sql s0 d'" "map mr_Filename (records d') = map mr_Filename (records d) @ [fn]"
  using assms by (auto simp: migrated_def tracked_def upsert_success_def replay_append)

lemma same_schema_tracked: "same_schema d d' \<Longrightarrow> tracked read sql s0 d' = tracked read sql s0 d"
  by (simp add: same_schema_def tracked_def)

lemma run_files_tracked:
  assumes "run_files read sql applied fns d = (res, d')" "tracked read sql s0 d"
    and "distinct fns" "\<And>fn. fn \<in> set fns \<Longrightarrow> fn \<in> set (map mr_Filename (records d)) \<Longrightarrow> fn \<in> set applied"
  shows "tracked read sql s0 d' \<and>
    (res = None \<longrightarrow> map mr_Filename (records d') =
       map mr_Filename (records d) @ filter (\<lambda>fn. fn \<notin> set applied) fns)"
  using assms
proof (induction fns arbitrary: d)
  case (Cons fn fns)
  show ?case
  proof (cases "fn \<in> set applied")
    case True
    with Cons show ?thesis by auto
  next
    case False
    show ?thesis
    proof (cases "read fn")
      case (Inl e)
      with False Cons.prems show ?thesis by auto
    next
      case (Inr content)
      obtain r1 d1 where r: "run_migration sql fn content d = (r1, d1)" by fastforce
      have new: "fn \<notin> set (map mr_Filename (records d))" using Cons.prems(4) [of fn] False by auto
      show ?thesis
      proof (cases r1)
        case (Some e)
        with False Inr r Cons.prems(1) have "d' = d1" "res = Some e" by auto
        moreover have "tracked read sql s0 d1"
          using run_migration_cases(1) [OF r] migrated_tracked(1) [OF _ Cons.prems(2) new Inr]
            same_schema_tracked [of d d1] Cons.prems(2) by auto
        ultimately show ?thesis by simp
      next
        case None
        note m = migrated_tracked [OF run_migration_None [OF r [unfolded None]] Cons.prems(2) new Inr]
        have "run_files read sql applied fns d1 = (res, d')" using False Inr r None Cons.prems(1) by simp
        from Cons.IH [OF this m(1)] Cons.prems(3,4) m(2) False show ?thesis by auto
      qed
    qed
  qed
qed simp

lemma migration_files_distinct: "distinct (map fst es) \<Longrightarrow> distinct (migration_files es)"
  by (simp add: migration_files_def distinct_map_filter)

text \<open>What the runner does before the first file, when nothing has failed before.\<close>

lemma RunMigrations_start:
  assumes "RunMigrations dir entries read sql d = (res, d')" "\<forall>r \<in> set (records d). mr_Status r = ''success''"
    and "\<And>n k. m_rows d n \<noteq> RowsCut k"
  shows "(res \<noteq> None \<and> same_schema d d') \<or>
    (\<exists>es d3. entries = Inr es \<and> migration_files es \<noteq> [] \<and> same_schema d d3 \<and>
       run_files read sql (map mr_Filename (records d)) (migration_files es) d3 = (res, d'))"
proof -
  let ?d1 = "create_schema_version (m_next d)"
  have no_failed: "filter (\<lambda>r. mr_Status r = ''failed'') (records d) = []"
    and all: "filter (\<lambda>r. mr_Status r = ''success'') (records d) = records d"
    using assms(2) by (auto simp: filter_empty_conv)
  show ?thesis
  proof (cases "m_exec d (m_stmts d) = ExecOk \<and> m_exec d (m_stmts ?d1) = ExecOk")
    case False
    with assms(1) show ?thesis
      by (auto simp: RunMigrations_def m_do_def same_schema_def split: exec_out.splits)
  next
    case True
    let ?d2 = "m_next ?d1"
    have r: "RunMigrations dir entries read sql d =
      (case (case m_rows d (m_stmts ?d2) of
               RowsOk \<Rightarrow> Inr (map mr_Filename (records d))
             | QueryFails e \<Rightarrow> Inl (wrap_ctx ''list applied migrations'' e)
             | ScanFails n e \<Rightarrow>
                 if n < length (map mr_Filename (records d)) then Inl e else Inr (map mr_Filename (records d))
             | RowsCut n \<Rightarrow> Inr (take n (map mr_Filename (records d)))) of
         Inl e \<Rightarrow> (Some e, m_next ?d2)
       | Inr applied \<Rightarrow>
           (case entries of
              Inl e \<Rightarrow> (Some (wrap_ctx (''read migrations dir '' @ dir) e), m_next ?d2)
            | Inr es \<Rightarrow>
                (let files = migration_files es in
                 if files = [] then (Some (ErrorString (''no .sql files found in '' @ dir)), m_next ?d2)
                 else run_files read sql applied files (m_next ?d2))))"
      using True unfolding RunMigrations_def Let_def
      by (cases "m_rows d (m_stmts ?d2)"; cases entries) (simp_all add: m_do_def no_failed all)
    have "same_schema d (m_next ?d2)" by (simp add: same_schema_def)
    with assms(1) [unfolded r] assms(3) show ?thesis
      by (auto simp: Let_def split: rows_out.splits sum.splits if_splits)
  qed
qed

section \<open>A database that answers every statement\<close>

definition answers :: "'s mdb \<Rightarrow> bool" where
  "answers d \<longleftrightarrow> (\<forall>n. m_exec d n = ExecOk) \<and> (\<forall>n. m_rows d n = RowsOk)"

lemma answers_simps [simp]:
  "answers (m_next d) = answers d" "answers (create_schema_version d) = answers d"
  by (simp_all add: answers_def)

lemma RunMigrations_answers:
  assumes "answers d" "\<forall>r \<in> set (records d). mr_Status r = ''success''"
  shows "RunMigrations dir entries read sql d =
    (let d3 = m_next (m_next (create_schema_version (m_next d))) in
     case entries of
       Inl e \<Rightarrow> (Some (wrap_ctx (''read migrations dir '' @ dir) e), d3)
     | Inr es \<Rightarrow>
         if migration_files es = [] then (Some (ErrorString (''no .sql files found in '' @ dir)), d3)
         else run_files read sql (map mr_Filename (records d)) (migration_files es) d3)"
proof -
  have "filter (\<lambda>r. mr_Status r = ''failed'') (records d) = []"
    and "filter (\<lambda>r. mr_Status r = ''success'') (records d) = records d"
    using assms(2) by (auto simp: filter_empty_conv)
  with assms(1) show ?thesis
    by (cases entries) (simp_all add: RunMigrations_def m_do_def Let_def answers_def)
qed

lemma run_migration_answers:
  assumes "answers d"
  shows "(case sql content (schema d) of
      Inl e \<Rightarrow> fst (run_migration sql fn content d) =
          Some (ErrorString (''migration '' @ fn @ '' failed: '' @ error_text e)) \<and>
        same_schema d (snd (run_migration sql fn content d))
    | Inr s \<Rightarrow> fst (run_migration sql fn content d) = None) \<and> answers (snd (run_migration sql fn content d))"
  using assms
  by (cases "sql content (schema d)") (simp_all add: run_migration_def m_do_def answers_def same_schema_def)

text \<open>Running the same files again, with the records the first run has left, ends the same way.\<close>

lemma run_files_again:
  assumes "run_files read sql applied fns d = (Some err, d')" "answers d" "distinct fns"
    and "\<And>fn. fn \<in> set fns \<Longrightarrow> fn \<in> set applied \<longleftrightarrow> fn \<in> set (map mr_Filename (records d))"
  shows "answers d' \<and> set (map mr_Filename (records d)) \<subseteq> set (map mr_Filename (records d')) \<and>
    (\<forall>d2. same_schema d' d2 \<longrightarrow> answers d2 \<longrightarrow>
       (\<exists>d3. run_files read sql (map mr_Filename (records d')) fns d2 = (Some err, d3) \<and> same_schema d' d3))"
  using assms
proof (induction fns arbitrary: d)
  case (Cons fn fns)
  show ?case
  proof (cases "fn \<in> set applied")
    case True
    with Cons.prems(1) have "run_files read sql applied fns d = (Some err, d')" by simp
    from Cons.IH [OF this Cons.prems(2)] Cons.prems(3,4) True show ?thesis by auto
  next
    case False
    have new: "fn \<notin> mr_Filename ` set (records d)" using False Cons.prems(4) [of fn] by simp
    show ?thesis
    proof (cases "read fn")
      case (Inl e)
      with False new Cons.prems(1,2) show ?thesis by auto
    next
      case (Inr content)
      obtain r1 d1 where r: "run_migration sql fn content d = (r1, d1)" by fastforce
      note one = run_migration_answers [OF Cons.prems(2), where sql = sql and content = content and fn = fn]
      show ?thesis
      proof (cases "sql content (schema d)")
        case (Inl e)
        let ?err = "ErrorString (''migration '' @ fn @ '' failed: '' @ error_text e)"
        have d': "d' = d1" "err = ?err" "same_schema d d'" "answers d'"
          using one r Inl Cons.prems(1) False Inr by auto
        have "\<exists>d3. run_files read sql (map mr_Filename (records d')) (fn # fns) d2 = (Some err, d3) \<and> same_schema d' d3"
          if "same_schema d' d2" "answers d2" for d2
        proof -
          have "schema d2 = schema d" "mr_Filename ` set (records d') = mr_Filename ` set (records d)"
            using that(1) d'(3) by (simp_all add: same_schema_def)
          with run_migration_answers [OF that(2), where sql = sql and content = content and fn = fn] Inl Inr new d'(2) that(1)
          show ?thesis by (cases "run_migration sql fn content d2") (auto simp: same_schema_def)
        qed
        with d' show ?thesis by (auto simp: same_schema_def)
      next
        case (Inr s)
        note content = \<open>read fn = Inr content\<close>
        have d1: "r1 = None" "answers d1" using one r Inr by auto
        have files: "mr_Filename ` set (records d1) = insert fn (mr_Filename ` set (records d))"
          using run_migration_None [OF r [unfolded d1(1)]] new by (auto simp: migrated_def upsert_success_def)
        have "run_files read sql applied fns d1 = (Some err, d')"
          using Cons.prems(1) False content r d1(1) by simp
        from Cons.IH [OF this d1(2)] Cons.prems(3,4) files show ?thesis by auto
      qed
    qed
  qed
qed simp

section \<open>A sample directory\<close>

text \<open>Two migration files, the second of which has a syntax error.\<close>

definition sample_entries :: "(string \<times> bool) list" where
  "sample_entries = [(''002_b.sql'', False), (''001_a.sql'', False), (''old'', True), (''notes.txt'', False)]"

definition sample_sql :: "string \<Rightarrow> string list \<Rightarrow> goerr + string list" where
  "sample_sql content s = (if content = ''002_b.sql'' then Inl (ErrorString ''syntax error'') else Inr (s @ [content]))"

definition fresh_mdb :: "'s \<Rightarrow> 's mdb" where
  "fresh_mdb s = \<lparr>schema_version = None, schema = s, m_exec = (\<lambda>_. ExecOk), m_rows = (\<lambda>_. RowsOk), m_stmts = 0\<rparr>"

lemma fresh_mdb_simps [simp]:
  "records (fresh_mdb s) = []" "schema (fresh_mdb s) = s" "m_exec (fresh_mdb s) = (\<lambda>_. ExecOk)"
  "m_rows (fresh_mdb s) = (\<lambda>_. RowsOk)" "tracked read sql s (fresh_mdb s)"
  by (simp_all add: fresh_mdb_def records_def tracked_def)

lemma sample_run: "fst (RunMigrations ''m'' (Inr sample_entries) Inr sample_sql (fresh_mdb [])) =
    Some (ErrorString ''migration 002_b.sql failed: syntax error'')"
  by code_simp

section \<open>Properties\<close>

text \<open>
  Claim C25. Running the migrations keeps the records true to the database, whatever statements
  fail or lose their acknowledgement: the database is what the recorded files give, each run
  once and in the order of the records. If the runner reports no error, every migration file
  is recorded, and the new ones were applied in the order of their names. A list of applied
  migrations that is cut short, which the code cannot notice, is excluded.
\<close>

theorem RunMigrations_tracks:
  assumes "RunMigrations dir entries read sql d = (res, d')" and "tracked read sql s0 d"
    and "\<And>n k. m_rows d n \<noteq> RowsCut k"
    and "\<And>es. entries = Inr es \<Longrightarrow> distinct (map fst es)"
  shows "tracked read sql s0 d' \<and>
    (res = None \<longrightarrow> (\<exists>es. entries = Inr es \<and> migration_files es \<noteq> [] \<and>
       map mr_Filename (records d') = map mr_Filename (records d) @
         filter (\<lambda>fn. fn \<notin> set (map mr_Filename (records d))) (migration_files es)))"
proof -
  have succ: "\<forall>r \<in> set (records d). mr_Status r = ''success''" using assms(2) by (simp add: tracked_def)
  from RunMigrations_start [OF assms(1) succ assms(3)] show ?thesis
  proof
    assume "res \<noteq> None \<and> same_schema d d'"
    with assms(2) same_schema_tracked [of d d'] show ?thesis by auto
  next
    assume "\<exists>es d3. entries = Inr es \<and> migration_files es \<noteq> [] \<and> same_schema d d3 \<and>
      run_files read sql (map mr_Filename (records d)) (migration_files es) d3 = (res, d')"
    then obtain es d3 where es: "entries = Inr es" "migration_files es \<noteq> []" "same_schema d d3"
      "run_files read sql (map mr_Filename (records d)) (migration_files es) d3 = (res, d')" by blast
    have "tracked read sql s0 d3" using same_schema_tracked [OF es(3)] assms(2) by simp
    from run_files_tracked [OF es(4) this migration_files_distinct [OF assms(4) [OF es(1)]]] es(1-3)
    show ?thesis by (auto simp: same_schema_def)
  qed
qed

theorem RunMigrations_tracks_witness:
  "tracked Inr sample_sql [] (snd (RunMigrations ''m'' (Inr sample_entries) Inr sample_sql (fresh_mdb [])))"
proof -
  obtain res d' where r: "RunMigrations ''m'' (Inr sample_entries) Inr sample_sql (fresh_mdb []) = (res, d')" by fastforce
  have "distinct (map fst sample_entries)" by (simp add: sample_entries_def)
  with RunMigrations_tracks [OF r, of "[]"] show ?thesis by (simp add: r)
qed

text \<open>
  A migration that fails leaves no trace: on a database that answers every
  statement, a run that reports an error leaves no record that says failed, although the code
  means to write one, and the next run is not stopped by it as documented: it executes the
  same file again, reports the same error and changes nothing.
\<close>

theorem failed_migration_leaves_no_trace:
  assumes "RunMigrations dir entries read sql d = (Some err, d')" and "tracked read sql s0 d"
    and "answers d" and "\<And>es. entries = Inr es \<Longrightarrow> distinct (map fst es)"
  shows "filter (\<lambda>r. mr_Status r = ''failed'') (records d') = [] \<and>
    (\<exists>d''. RunMigrations dir entries read sql d' = (Some err, d'') \<and> same_schema d' d'')"
proof -
  let ?d3 = "\<lambda>d. m_next (m_next (create_schema_version (m_next d)))"
  have succ: "\<forall>r \<in> set (records d). mr_Status r = ''success''" using assms(2) by (simp add: tracked_def)
  have tr: "tracked read sql s0 (?d3 d)" using assms(2) by (simp add: tracked_def)
  have first: "RunMigrations dir entries read sql d = (Some err, d') \<Longrightarrow> same_schema d d' \<Longrightarrow> answers d' \<Longrightarrow>
      \<exists>d''. RunMigrations dir entries read sql d' = (Some err, d'') \<and> same_schema d' d''"
    if "entries = Inl e \<or> (\<exists>es. entries = Inr es \<and> migration_files es = [])" for e
    using that succ RunMigrations_answers [OF assms(3) succ] RunMigrations_answers [of d']
    by (auto simp: same_schema_def Let_def)
  show ?thesis
  proof (cases "\<exists>es. entries = Inr es \<and> migration_files es \<noteq> []")
    case False
    then obtain e where e: "entries = Inl e \<or> (\<exists>es. entries = Inr es \<and> migration_files es = [])"
      by (cases entries) auto
    have d': "same_schema d d'" "answers d'"
      using e assms(1,3) RunMigrations_answers [OF assms(3) succ]
      by (auto simp: Let_def same_schema_def)
    with first [OF e assms(1)] succ show ?thesis by (auto simp: same_schema_def filter_empty_conv)
  next
    case True
    then obtain es where es: "entries = Inr es" "migration_files es \<noteq> []" by blast
    have run: "run_files read sql (map mr_Filename (records d)) (migration_files es) (?d3 d) = (Some err, d')"
      using assms(1) RunMigrations_answers [OF assms(3) succ] es by (simp add: Let_def)
    note dist = migration_files_distinct [OF assms(4) [OF es(1)]]
    have succ': "\<forall>r \<in> set (records d'). mr_Status r = ''success''"
      using run_files_tracked [OF run tr dist] by (simp add: tracked_def)
    note again = run_files_again [OF run _ dist]
    have a: "answers d'" using again assms(3) by simp
    have "same_schema d' (?d3 d')" by (simp add: same_schema_def)
    with again a assms(3) obtain d'' where
      "run_files read sql (map mr_Filename (records d')) (migration_files es) (?d3 d') = (Some err, d'')" "same_schema d' d''"
      by auto
    with RunMigrations_answers [OF a succ'] es succ' show ?thesis by (auto simp: Let_def filter_empty_conv)
  qed
qed

theorem failed_migration_leaves_no_trace_witness:
  "\<exists>err d' d''. RunMigrations ''m'' (Inr sample_entries) Inr sample_sql (fresh_mdb []) = (Some err, d') \<and>
     RunMigrations ''m'' (Inr sample_entries) Inr sample_sql d' = (Some err, d'')"
proof -
  obtain err d' where r: "RunMigrations ''m'' (Inr sample_entries) Inr sample_sql (fresh_mdb []) = (Some err, d')"
    using sample_run by (metis prod.collapse)
  have "answers (fresh_mdb ([] :: string list))" by (simp add: answers_def)
  moreover have "distinct (map fst sample_entries)" by (simp add: sample_entries_def)
  ultimately have "\<exists>d''. RunMigrations ''m'' (Inr sample_entries) Inr sample_sql d' = (Some err, d'')"
    using failed_migration_leaves_no_trace [OF r, of "[]"] by auto
  with r show ?thesis by blast
qed

end
