(* ===== verification/Seed.thy ===== *)
theory Seed
  imports Json Store
begin

text \<open>
  \<^verbatim>\<open>backend/seed/seed.go\<close>: filling the table of cases from a JSON file. The file is a
  parameter. The inserts go to the server as one batch, which PostgreSQL runs as an implicit
  transaction that commits at the end of the batch; the code reads the result of each insert,
  but drops the error of \<^verbatim>\<open>results.Close()\<close>, which is where a failed commit would show.
\<close>

section \<open>Decoding the file\<close>

definition borrower_field :: "string \<Rightarrow> json \<Rightarrow> borrower \<Rightarrow> string + borrower" where
  "borrower_field k j r =
     (if k = ''firstname'' then store_as (\<lambda>s. r\<lparr>FirstName := s\<rparr>) (dec_string (FirstName r) j)
      else if k = ''lastname'' then store_as (\<lambda>s. r\<lparr>LastName := s\<rparr>) (dec_string (LastName r) j)
      else if k = ''ssnlast4'' then store_as (\<lambda>s. r\<lparr>SSNLast4 := s\<rparr>) (dec_string (SSNLast4 r) j)
      else if k = ''dob'' then store_as (\<lambda>s. r\<lparr>DOB := s\<rparr>) (dec_string (DOB r) j)
      else Inr r)"

definition address_field :: "string \<Rightarrow> json \<Rightarrow> property \<Rightarrow> string + property" where
  "address_field k j r =
     (if k = ''address'' then store_as (\<lambda>s. r\<lparr>Address := s\<rparr>) (dec_string (Address r) j)
      else if k = ''county'' then store_as (\<lambda>s. r\<lparr>County := s\<rparr>) (dec_string (County r) j)
      else if k = ''state'' then store_as (\<lambda>s. r\<lparr>State := s\<rparr>) (dec_string (State r) j)
      else if k = ''parcelid'' then store_as (\<lambda>s. r\<lparr>ParcelID := s\<rparr>) (dec_string (ParcelID r) j)
      else Inr r)"

definition loan_field :: "string \<Rightarrow> json \<Rightarrow> loan \<Rightarrow> string + loan" where
  "loan_field k j r =
     (if k = ''number'' then store_as (\<lambda>s. r\<lparr>LoanNumber := s\<rparr>) (dec_string (LoanNumber r) j)
      else if k = ''servicer'' then store_as (\<lambda>s. r\<lparr>Servicer := s\<rparr>) (dec_string (Servicer r) j)
      else if k = ''originalamount'' then
        store_as (\<lambda>x. r\<lparr>OriginalAmount := x\<rparr>) (dec_float (OriginalAmount r) j)
      else Inr r)"

definition case_field :: "string \<Rightarrow> json \<Rightarrow> case_json \<Rightarrow> string + case_json" where
  "case_field k j r =
     (if k = ''id'' then store_as (\<lambda>s. r\<lparr>cj_ID := s\<rparr>) (dec_string (cj_ID r) j)
      else if k = ''casenumber'' then store_as (\<lambda>s. r\<lparr>cj_CaseNumber := s\<rparr>) (dec_string (cj_CaseNumber r) j)
      else if k = ''borrower'' then
        store_as (\<lambda>b. r\<lparr>cj_Borrower := b\<rparr>) (dec_struct borrower_field (cj_Borrower r) j)
      else if k = ''property'' then
        store_as (\<lambda>p. r\<lparr>cj_Property := p\<rparr>) (dec_struct address_field (cj_Property r) j)
      else if k = ''loan'' then store_as (\<lambda>l. r\<lparr>cj_Loan := l\<rparr>) (dec_struct loan_field (cj_Loan r) j)
      else if k = ''currentstage'' then
        store_as (\<lambda>s. r\<lparr>cj_CurrentStage := s\<rparr>) (dec_string (cj_CurrentStage r) j)
      else if k = ''courtcasenumber'' then
        store_as (\<lambda>p. r\<lparr>cj_CourtCaseNumber := p\<rparr>) (dec_string_ptr j)
      else Inr r)"

definition zero_case :: case_json where
  "zero_case = \<lparr>cj_ID = [], cj_CaseNumber = [],
     cj_Borrower = \<lparr>FirstName = [], LastName = [], SSNLast4 = [], DOB = []\<rparr>,
     cj_Property = \<lparr>Address = [], County = [], State = [], ParcelID = []\<rparr>,
     cj_Loan = \<lparr>LoanNumber = [], Servicer = [], OriginalAmount = 0\<rparr>,
     cj_CurrentStage = [], cj_CourtCaseNumber = None\<rparr>"

definition dec_cases :: "json \<Rightarrow> string + case_json list option" where
  "dec_cases = dec_slice (dec_struct case_field zero_case)"

section \<open>Inserting\<close>

text \<open>The columns of the insert.\<close>

definition row_of_case :: "case_json \<Rightarrow> case_row" where
  "row_of_case c =
     \<lparr>c_ID = cj_ID c, c_CaseNumber = cj_CaseNumber c,
      c_FirstName = FirstName (cj_Borrower c), c_LastName = LastName (cj_Borrower c),
      c_SSNLast4 = SSNLast4 (cj_Borrower c), c_DOB = DOB (cj_Borrower c),
      c_Address = Address (cj_Property c), c_County = County (cj_Property c),
      c_State = State (cj_Property c), c_ParcelID = ParcelID (cj_Property c),
      c_LoanNumber = LoanNumber (cj_Loan c), c_Servicer = Servicer (cj_Loan c),
      c_OriginalAmount = OriginalAmount (cj_Loan c), c_CurrentStage = cj_CurrentStage c,
      c_CourtCaseNumber = cj_CourtCaseNumber c\<rparr>"

definition insert_case :: "case_row \<Rightarrow> db \<Rightarrow> goerr option \<times> db" where
  "insert_case r d =
     (case exec_fate d (nstmts d) of
        ExecOk \<Rightarrow>
          if c_ID r \<in> set (map c_ID (cases d)) then (Some (constraint_error ''cases_pkey''), next_stmt d)
          else (None, (next_stmt d)\<lparr>cases := cases d @ [r]\<rparr>)
      | ExecFails e \<Rightarrow> (Some e, next_stmt d)
      | AckLost e \<Rightarrow> (Some e, next_stmt d))"

primrec insert_batch :: "case_json list \<Rightarrow> db \<Rightarrow> goerr option \<times> db" where
  "insert_batch [] d = (None, d)"
| "insert_batch (c # cs) d =
     (case insert_case (row_of_case c) d of
        (Some e, d1) \<Rightarrow> (Some (wrap_ctx (''insert case '' @ cj_ID c) e), d1)
      | (None, d1) \<Rightarrow> insert_batch cs d1)"

definition undo_cases :: "db \<Rightarrow> db \<Rightarrow> db" where
  "undo_cases d0 d = d\<lparr>cases := cases d0\<rparr>"

definition Cases :: "string \<Rightarrow> goerr + body \<Rightarrow> db \<Rightarrow> goerr option \<times> db" where
  "Cases filePath file d =
     (case db_exec id d of
        (Some e, d1) \<Rightarrow> (Some (wrap_ctx ''check cases count'' e), d1)
      | (None, d1) \<Rightarrow>
          if 0 < length (cases d) then (None, d1)
          else
            (case file of
               Inl e \<Rightarrow> (Some (wrap_ctx (''read cases file '' @ filePath) e), d1)
             | Inr data \<Rightarrow>
                 (case Unmarshal dec_cases data of
                    Inl e \<Rightarrow> (Some (wrap_ctx ''parse cases json'' e), d1)
                  | Inr decoded \<Rightarrow>
                      (let jsonCases = (case decoded of None \<Rightarrow> [] | Some cs \<Rightarrow> cs) in
                       case insert_batch jsonCases d1 of
                         (Some e, d2) \<Rightarrow> (Some e, undo_cases d1 d2)
                       | (None, d2) \<Rightarrow>
                           (case exec_fate d2 (nstmts d2) of
                              ExecOk \<Rightarrow> (None, next_stmt d2)
                            | ExecFails e \<Rightarrow> (None, undo_cases d1 (next_stmt d2))
                            | AckLost e \<Rightarrow> (None, next_stmt d2))))))"

section \<open>What a batch does\<close>

definition same_but_cases :: "db \<Rightarrow> db \<Rightarrow> bool" where
  "same_but_cases d d' \<longleftrightarrow> lookup_runs d' = lookup_runs d \<and> lookup_sources d' = lookup_sources d \<and>
     exec_fate d' = exec_fate d \<and> rows_fate d' = rows_fate d \<and> uuids d' = uuids d"

lemma insert_batch_frame: "same_but_cases d (snd (insert_batch cs d))"
proof (induction cs arbitrary: d)
  case (Cons c cs)
  obtain r d1 where i: "insert_case (row_of_case c) d = (r, d1)" by fastforce
  then have "same_but_cases d d1"
    by (auto simp: insert_case_def same_but_cases_def split: exec_out.splits if_splits)
  with Cons.IH [of d1] i show ?case by (auto simp: same_but_cases_def split: option.splits)
qed (simp add: same_but_cases_def)

lemma insert_batch_None:
  "insert_batch cs d = (None, d') \<Longrightarrow> distinct (map c_ID (cases d)) \<Longrightarrow>
     cases d' = cases d @ map row_of_case cs \<and> distinct (map c_ID (cases d'))"
proof (induction cs arbitrary: d)
  case (Cons c cs)
  from Cons.prems(1) obtain d1 where i: "insert_case (row_of_case c) d = (None, d1)" "insert_batch cs d1 = (None, d')"
    by (auto split: prod.splits option.splits)
  then have d1: "cases d1 = cases d @ [row_of_case c]" "c_ID (row_of_case c) \<notin> set (map c_ID (cases d))"
    by (auto simp: insert_case_def split: exec_out.splits if_splits)
  then have "distinct (map c_ID (cases d1))" using Cons.prems(2) by simp
  note IH = Cons.IH [OF i(2) this]
  then have "cases d' = cases d @ map row_of_case (c # cs)" using d1(1) by simp
  with IH show ?case by blast
qed simp

lemma undo_cases_simps [simp]:
  "cases (undo_cases d0 d) = cases d0" "lookup_runs (undo_cases d0 d) = lookup_runs d"
  "lookup_sources (undo_cases d0 d) = lookup_sources d"
  by (simp_all add: undo_cases_def)

lemma Cases_cases:
  assumes "Cases path file d = (res, d')" "distinct (map c_ID (cases d))"
  shows "lookup_runs d' = lookup_runs d \<and> lookup_sources d' = lookup_sources d \<and>
    (cases d' = cases d \<or>
     (cases d = [] \<and> res = None \<and> distinct (map c_ID (cases d')) \<and>
      (\<exists>data cs. file = Inr data \<and> Unmarshal dec_cases data = Inr (Some cs) \<and> cases d' = map row_of_case cs)))"
proof -
  obtain b d1 where b: "db_exec id d = (b, d1)" by fastforce
  have d1: "cases d1 = cases d" "lookup_runs d1 = lookup_runs d" "lookup_sources d1 = lookup_sources d"
    using b by (auto simp: db_exec_def split: exec_out.splits)
  show ?thesis
  proof (cases "\<exists>data decoded. b = None \<and> cases d = [] \<and> file = Inr data \<and> Unmarshal dec_cases data = Inr decoded")
    case False
    with assms(1) b d1 show ?thesis
      by (auto simp: Cases_def split: option.splits if_splits sum.splits)
  next
    case True
    then obtain data decoded where t: "b = None" "cases d = []" "file = Inr data" "Unmarshal dec_cases data = Inr decoded"
      by blast
    let ?cs = "case decoded of None \<Rightarrow> [] | Some cs \<Rightarrow> cs"
    obtain r d2 where i: "insert_batch ?cs d1 = (r, d2)" by fastforce
    have frame: "lookup_runs d2 = lookup_runs d" "lookup_sources d2 = lookup_sources d"
      using insert_batch_frame [of d1 ?cs] i d1 by (simp_all add: same_but_cases_def)
    show ?thesis
    proof (cases r)
      case (Some e)
      with assms(1) b t i frame d1 show ?thesis by (auto simp: Cases_def)
    next
      case None
      with insert_batch_None [of ?cs d1 d2] i d1 t(2) have "cases d2 = map row_of_case ?cs" "distinct (map c_ID (cases d2))"
        by auto
      with assms(1) b t i None frame d1 show ?thesis
        by (cases decoded) (auto simp: Cases_def split: exec_out.splits)
    qed
  qed
qed

lemma Cases_seeded: "cases d \<noteq> [] \<Longrightarrow> cases (snd (Cases path file d)) = cases d"
  by (auto simp: Cases_def db_exec_def split: exec_out.splits)

lemma Cases_inv:
  assumes "Cases path file d = (res, d')" "db_inv d"
  shows "db_inv d'"
proof -
  have "distinct (map c_ID (cases d))" using assms(2) by (simp add: db_inv_def)
  note c = Cases_cases [OF assms(1) this]
  show ?thesis
  proof (cases "cases d' = cases d")
    case True
    with c assms(2) show ?thesis by (simp add: db_inv_def sources_of_def)
  next
    case False
    with c have "cases d = []" "distinct (map c_ID (cases d'))" by auto
    moreover from this(1) assms(2) have "lookup_runs d = []" by (auto simp: db_inv_def)
    moreover from this assms(2) have "lookup_sources d = []" by (auto simp: db_inv_def)
    ultimately show ?thesis using c by (simp add: db_inv_def)
  qed
qed

section \<open>A sample file\<close>

definition sample_file :: "json \<Rightarrow> goerr + body" where
  "sample_file j = Inr \<lparr>body_text = [], body_json = Inr j, body_xml = Inl ''EOF''\<rparr>"

definition sample_cases :: json where
  "sample_cases = JArr
     [JObj [(''id'', JStr ''C1''), (''borrower'', JObj [(''lastName'', JStr ''Lee''), (''age'', JInt 40)]),
            (''loan'', JObj [(''originalAmount'', JInt 385000)]), (''courtCaseNumber'', JNull)],
      JObj [(''ID'', JStr ''C2''), (''courtCaseNumber'', JStr ''CC2'')]]"

definition unseeded_db :: db where
  "unseeded_db = sample_db\<lparr>cases := []\<rparr>"

lemma sample_seed:
  "map c_ID (cases (snd (Cases ''f'' (sample_file sample_cases) unseeded_db))) = [''C1'', ''C2'']"
  by code_simp

section \<open>Properties\<close>

text \<open>
  Claim C33. Seeding is all or nothing and happens once, whatever statements fail: afterwards
  the table of cases is as before, or it was empty and holds exactly the decoded cases of the
  file, in order; a table that has cases is never touched again; and the invariant of the
  tables holds. Nothing is promised about the error, since a failed commit is not reported.
\<close>

theorem seed_all_or_nothing:
  assumes "Cases path file d = (res, d')" and "db_inv d"
  shows "db_inv d' \<and>
    (cases d' = cases d \<or>
     (cases d = [] \<and> res = None \<and>
      (\<exists>data cs. file = Inr data \<and> Unmarshal dec_cases data = Inr (Some cs) \<and> cases d' = map row_of_case cs))) \<and>
    (cases d' \<noteq> [] \<longrightarrow> cases (snd (Cases path2 file2 d')) = cases d')"
proof -
  have "distinct (map c_ID (cases d))" using assms(2) by (simp add: db_inv_def)
  from Cases_cases [OF assms(1) this] Cases_inv [OF assms] Cases_seeded show ?thesis by blast
qed

theorem seed_all_or_nothing_witness:
  "db_inv (snd (Cases ''f'' (sample_file sample_cases) unseeded_db)) \<and>
   cases (snd (Cases ''g'' (Inl ErrTimeout) (snd (Cases ''f'' (sample_file sample_cases) unseeded_db)))) =
     cases (snd (Cases ''f'' (sample_file sample_cases) unseeded_db))"
proof -
  obtain res d' where r: "Cases ''f'' (sample_file sample_cases) unseeded_db = (res, d')" by fastforce
  have "db_inv unseeded_db" by (simp add: unseeded_db_def sample_db_def db_inv_def)
  moreover have "cases d' \<noteq> []" using sample_seed by (auto simp: r)
  ultimately show ?thesis using seed_all_or_nothing [OF r] by (simp add: r)
qed

text \<open>
  A failed commit is not reported: when everything goes well except that the
  implicit transaction of the batch fails to commit, seeding returns no error and the table
  stays empty.
\<close>

theorem seed_hides_failed_commit:
  assumes "cases d = []" and "file = Inr data" and "Unmarshal dec_cases data = Inr (Some cs)"
    and "distinct (map cj_ID cs)"
    and "\<And>n. n \<noteq> nstmts d + 1 + length cs \<Longrightarrow> exec_fate d n = ExecOk"
    and "exec_fate d (nstmts d + 1 + length cs) = ExecFails e"
  shows "fst (Cases path file d) = None \<and> cases (snd (Cases path file d)) = []"
proof -
  have batch: "insert_batch xs b = (None, b\<lparr>nstmts := nstmts b + length xs, cases := cases b @ map row_of_case xs\<rparr>)"
    if "distinct (map c_ID (cases b) @ map cj_ID xs)" "\<And>n. n < nstmts b + length xs \<Longrightarrow> nstmts b \<le> n \<Longrightarrow> exec_fate b n = ExecOk"
    for xs b
    using that
  proof (induction xs arbitrary: b)
    case (Cons x xs)
    have "exec_fate b (nstmts b) = ExecOk" "cj_ID x \<notin> set (map c_ID (cases b))"
      using Cons.prems(1) Cons.prems(2) [of "nstmts b"] by auto
    then have "insert_case (row_of_case x) b = (None, (next_stmt b)\<lparr>cases := cases b @ [row_of_case x]\<rparr>)"
      by (simp add: insert_case_def row_of_case_def)
    with Cons.IH [of "(next_stmt b)\<lparr>cases := cases b @ [row_of_case x]\<rparr>"] Cons.prems show ?case
      by (simp add: next_stmt_def row_of_case_def)
  qed simp
  have "insert_batch cs (next_stmt d) =
      (None, (next_stmt d)\<lparr>nstmts := nstmts d + 1 + length cs, cases := map row_of_case cs\<rparr>)"
    using batch [of "next_stmt d" cs] assms(1,4,5) by (simp add: next_stmt_def)
  with assms show ?thesis by (simp add: Cases_def db_exec_def)
qed

theorem seed_hides_failed_commit_witness:
  "fst (Cases ''f'' (sample_file (JArr [])) (unseeded_db\<lparr>exec_fate := (\<lambda>n. if n = 1 then ExecFails ErrTimeout else ExecOk)\<rparr>)) = None"
proof -
  have "Unmarshal dec_cases \<lparr>body_text = [], body_json = Inr (JArr []), body_xml = Inl ''EOF''\<rparr> = Inr (Some [])"
    by (simp add: Unmarshal_def dec_cases_def dec_slice_def)
  from seed_hides_failed_commit [OF _ _ this,
      of "unseeded_db\<lparr>exec_fate := (\<lambda>n. if n = 1 then ExecFails ErrTimeout else ExecOk)\<rparr>" _ ErrTimeout "''f''"]
  show ?thesis by (simp add: sample_file_def unseeded_db_def sample_db_def)
qed

end
