(* ===== verification/Logger.thy ===== *)
theory Logger
  imports GoErrors
begin

text \<open>
  \<^verbatim>\<open>backend/internal/logger/logger.go\<close>: three loggers, each writing a record to its file and
  to the console. Of \<^verbatim>\<open>log/slog\<close> the model has what the code uses: a handler drops records
  below its level and otherwise writes one line to its sink, a logger asks \<^verbatim>\<open>Enabled\<close> before
  \<^verbatim>\<open>Handle\<close> and ignores the error. A sink is named by its path; whether opening a file or
  writing to a sink fails is up to the environment.
\<close>

section \<open>Levels\<close>

datatype Level = LevelDebug | LevelInfo | LevelWarn | LevelError

text \<open>The numbers \<^verbatim>\<open>slog\<close> gives them.\<close>

primrec level_int :: "Level \<Rightarrow> int" where
  "level_int LevelDebug = - 4"
| "level_int LevelInfo = 0"
| "level_int LevelWarn = 4"
| "level_int LevelError = 8"

lemma level_int_inject [simp]: "level_int a = level_int b \<longleftrightarrow> a = b"
  by (cases a; cases b) simp_all

instantiation Level :: linorder
begin

definition less_eq_Level :: "Level \<Rightarrow> Level \<Rightarrow> bool" where
  "less_eq_Level a b \<longleftrightarrow> level_int a \<le> level_int b"

definition less_Level :: "Level \<Rightarrow> Level \<Rightarrow> bool" where
  "less_Level a b \<longleftrightarrow> level_int a < level_int b"

instance
  by standard (auto simp: less_eq_Level_def less_Level_def)

end

lemma level_order [simp]:
  "LevelDebug < LevelInfo" "LevelInfo < LevelWarn" "LevelWarn < LevelError" "a \<le> LevelError"
  by (cases a; simp add: less_Level_def less_eq_Level_def)+

section \<open>Sinks and handlers\<close>

record log_record =
  rec_level :: Level
  rec_msg :: string

type_synonym attr = "string \<times> string"

record log_line =
  ln_record :: log_record
  ln_attrs :: "attr list"
  ln_groups :: "string list"

record sinks =
  sink_lines :: "string \<Rightarrow> log_line list"
  sink_error :: "string \<Rightarrow> goerr option"
  open_error :: "string \<Rightarrow> goerr option"
  dir_error :: "goerr option"
  open_files :: "string list"

record slog_handler =
  h_level :: Level
  h_sink :: string
  h_attrs :: "attr list"
  h_groups :: "string list"

definition h_Enabled :: "slog_handler \<Rightarrow> Level \<Rightarrow> bool" where
  "h_Enabled h level \<longleftrightarrow> h_level h \<le> level"

definition h_Handle :: "slog_handler \<Rightarrow> log_record \<Rightarrow> sinks \<Rightarrow> goerr option \<times> sinks" where
  "h_Handle h r w =
     (case sink_error w (h_sink h) of
        Some e \<Rightarrow> (Some e, w)
      | None \<Rightarrow>
          (None, w\<lparr>sink_lines := (sink_lines w)
             (h_sink h := sink_lines w (h_sink h) @
               [\<lparr>ln_record = r, ln_attrs = h_attrs h, ln_groups = h_groups h\<rparr>])\<rparr>))"

section \<open>The tee handler\<close>

record teeHandler =
  fileHandler :: slog_handler
  consoleHandler :: slog_handler

definition tee_Enabled :: "teeHandler \<Rightarrow> Level \<Rightarrow> bool" where
  "tee_Enabled t level \<longleftrightarrow> h_Enabled (fileHandler t) level \<or> h_Enabled (consoleHandler t) level"

definition tee_Handle :: "teeHandler \<Rightarrow> log_record \<Rightarrow> sinks \<Rightarrow> goerr option \<times> sinks" where
  "tee_Handle t r w =
     (case (if h_Enabled (fileHandler t) (rec_level r) then h_Handle (fileHandler t) r w else (None, w)) of
        (Some err, w1) \<Rightarrow> (Some err, w1)
      | (None, w1) \<Rightarrow>
          (case (if h_Enabled (consoleHandler t) (rec_level r) then h_Handle (consoleHandler t) r w1 else (None, w1)) of
             (Some err, w2) \<Rightarrow> (Some err, w2)
           | (None, w2) \<Rightarrow> (None, w2)))"

definition tee_WithAttrs :: "attr list \<Rightarrow> teeHandler \<Rightarrow> teeHandler" where
  "tee_WithAttrs attrs t =
     \<lparr>fileHandler = (fileHandler t)\<lparr>h_attrs := h_attrs (fileHandler t) @ attrs\<rparr>,
      consoleHandler = (consoleHandler t)\<lparr>h_attrs := h_attrs (consoleHandler t) @ attrs\<rparr>\<rparr>"

definition tee_WithGroup :: "string \<Rightarrow> teeHandler \<Rightarrow> teeHandler" where
  "tee_WithGroup name t =
     \<lparr>fileHandler = (fileHandler t)\<lparr>h_groups := h_groups (fileHandler t) @ [name]\<rparr>,
      consoleHandler = (consoleHandler t)\<lparr>h_groups := h_groups (consoleHandler t) @ [name]\<rparr>\<rparr>"

text \<open>\<^verbatim>\<open>Logger.Info\<close>, \<^verbatim>\<open>Warn\<close>, \<^verbatim>\<open>Error\<close> of a logger with this handler.\<close>

definition log_to :: "teeHandler \<Rightarrow> log_record \<Rightarrow> sinks \<Rightarrow> sinks" where
  "log_to t r w = (if tee_Enabled t (rec_level r) then snd (tee_Handle t r w) else w)"

section \<open>The three loggers\<close>

record Loggers =
  App :: teeHandler
  Server :: teeHandler
  Error :: teeHandler
  log_files :: "string list"

definition newLogger :: "string \<Rightarrow> string \<Rightarrow> string \<Rightarrow> Level \<Rightarrow> teeHandler" where
  "newLogger file console component level =
     tee_WithAttrs [(''component'', component)]
       \<lparr>fileHandler = \<lparr>h_level = level, h_sink = file, h_attrs = [], h_groups = []\<rparr>,
        consoleHandler = \<lparr>h_level = level, h_sink = console, h_attrs = [], h_groups = []\<rparr>\<rparr>"

text \<open>\<^verbatim>\<open>filepath.Join\<close> of a clean directory and a name.\<close>

definition log_path :: "string \<Rightarrow> string \<Rightarrow> string" where
  "log_path dir name = (if dir = [] then name else trim_right_slash dir @ ''/'' @ name)"

definition open_log :: "string \<Rightarrow> string \<Rightarrow> sinks \<Rightarrow> (goerr + string) \<times> sinks" where
  "open_log dir name w =
     (let p = log_path dir name in
      case open_error w p of
        Some e \<Rightarrow> (Inl e, w)
      | None \<Rightarrow> (Inr p, w\<lparr>open_files := open_files w @ [p]\<rparr>))"

definition close_file :: "string \<Rightarrow> sinks \<Rightarrow> sinks" where
  "close_file p w = w\<lparr>open_files := remove1 p (open_files w)\<rparr>"

definition Init :: "string \<Rightarrow> sinks \<Rightarrow> (goerr + Loggers) \<times> sinks" where
  "Init logDir w =
     (case dir_error w of
        Some e \<Rightarrow> (Inl (wrap_ctx (''create log dir '' @ logDir) e), w)
      | None \<Rightarrow>
          (case open_log logDir ''app.log'' w of
             (Inl e, w1) \<Rightarrow> (Inl (wrap_ctx ''open app.log'' e), w1)
           | (Inr appFile, w1) \<Rightarrow>
               (case open_log logDir ''server.log'' w1 of
                  (Inl e, w2) \<Rightarrow> (Inl (wrap_ctx ''open server.log'' e), close_file appFile w2)
                | (Inr serverFile, w2) \<Rightarrow>
                    (case open_log logDir ''error.log'' w2 of
                       (Inl e, w3) \<Rightarrow>
                         (Inl (wrap_ctx ''open error.log'' e), close_file serverFile (close_file appFile w3))
                     | (Inr errorFile, w3) \<Rightarrow>
                         (Inr \<lparr>App = newLogger appFile ''/dev/stdout'' ''app'' LevelInfo,
                               Server = newLogger serverFile ''/dev/stdout'' ''server'' LevelInfo,
                               Error = newLogger errorFile ''/dev/stderr'' ''error'' LevelError,
                               log_files = [appFile, serverFile, errorFile]\<rparr>, w3)))))"

definition Close :: "Loggers \<Rightarrow> sinks \<Rightarrow> Loggers \<times> sinks" where
  "Close l w = (l\<lparr>log_files := []\<rparr>, fold close_file (log_files l) w)"

section \<open>What reaches the sinks\<close>

lemma newLogger_simps [simp]:
  "h_level (fileHandler (newLogger f c n l)) = l" "h_level (consoleHandler (newLogger f c n l)) = l"
  "h_sink (fileHandler (newLogger f c n l)) = f" "h_sink (consoleHandler (newLogger f c n l)) = c"
  by (simp_all add: newLogger_def tee_WithAttrs_def)

lemma remove1_last: "p \<notin> set xs \<Longrightarrow> remove1 p (xs @ [p]) = xs"
  by (simp add: remove1_append)

lemma open_log_Inl: "open_log dir name w = (Inl e, w') \<Longrightarrow> w' = w"
  by (auto simp: open_log_def Let_def split: option.splits)

lemma open_log_Inr:
  "open_log dir name w = (Inr p, w') \<Longrightarrow> p = log_path dir name \<and> open_error w p = None \<and>
     w' = w\<lparr>open_files := open_files w @ [p]\<rparr>"
  by (auto simp: open_log_def Let_def split: option.splits)

lemma log_path_inject: "log_path dir a = log_path dir b \<longleftrightarrow> a = b"
  by (simp add: log_path_def)

definition files_open :: "string list \<Rightarrow> sinks \<Rightarrow> sinks \<Rightarrow> bool" where
  "files_open ps w w' \<longleftrightarrow> w' = w\<lparr>open_files := open_files w @ ps\<rparr>"

lemma Init_cases:
  assumes "Init dir w = (res, w')" "\<And>n. log_path dir n \<notin> set (open_files w)"
  shows "(\<exists>e. res = Inl e \<and> w' = w) \<or>
    (\<exists>l. res = Inr l \<and> log_files l = [log_path dir ''app.log'', log_path dir ''server.log'', log_path dir ''error.log''] \<and>
       w' = w\<lparr>open_files := open_files w @ log_files l\<rparr>)"
proof -
  let ?a = "log_path dir ''app.log''" and ?s = "log_path dir ''server.log''" and ?e = "log_path dir ''error.log''"
  have ne: "?a \<noteq> ?s" "?a \<noteq> ?e" "?s \<noteq> ?e" by (simp_all add: log_path_inject)
  let ?ok = "\<lambda>p. open_error w p = None"
  consider (dir) e where "dir_error w = Some e" | (app) e where "dir_error w = None" "open_error w ?a = Some e"
    | (server) e where "dir_error w = None" "?ok ?a" "open_error w ?s = Some e"
    | (error) e where "dir_error w = None" "?ok ?a" "?ok ?s" "open_error w ?e = Some e"
    | (ok) "dir_error w = None" "?ok ?a" "?ok ?s" "?ok ?e"
    by (meson not_Some_eq)
  then show ?thesis
    using assms(1) assms(2) ne
    by cases (auto simp: Init_def open_log_def Let_def close_file_def remove1_append)
qed

lemma log_to_newLogger:
  "log_to (newLogger f c n lv) r v =
    (if rec_level r < lv then v
     else if sink_error v f \<noteq> None then v
     else snd (h_Handle (consoleHandler (newLogger f c n lv)) r (snd (h_Handle (fileHandler (newLogger f c n lv)) r v))))"
  by (cases "rec_level r < lv"; cases "sink_error v f"; cases "sink_error v c")
    (simp_all add: log_to_def tee_Enabled_def tee_Handle_def h_Enabled_def h_Handle_def not_le not_less)

lemma Init_loggers:
  assumes "fst (Init dir w) = Inr l"
  shows "App l = newLogger (log_path dir ''app.log'') ''/dev/stdout'' ''app'' LevelInfo"
    "Server l = newLogger (log_path dir ''server.log'') ''/dev/stdout'' ''server'' LevelInfo"
    "Error l = newLogger (log_path dir ''error.log'') ''/dev/stderr'' ''error'' LevelError"
  using assms by (auto simp: Init_def open_log_def Let_def split: option.splits)

section \<open>Properties\<close>

text \<open>
  The error logger has the level of errors, so the warnings the gateway sends to it,
  which are the ones about open circuit breakers, are written nowhere. A record at or above
  its level goes to the file and then, unless writing to the file fails, to the console.
\<close>

theorem error_logger_drops_warnings:
  assumes "fst (Init dir w) = Inr l"
  shows "log_to (Error l) r v =
    (if rec_level r < LevelError then v
     else if sink_error v (log_path dir ''error.log'') \<noteq> None then v
     else snd (h_Handle (consoleHandler (Error l)) r (snd (h_Handle (fileHandler (Error l)) r v))))"
  unfolding Init_loggers(3) [OF assms] by (rule log_to_newLogger)

definition sample_sinks :: sinks where
  "sample_sinks = \<lparr>sink_lines = (\<lambda>_. []), sink_error = (\<lambda>_. None), open_error = (\<lambda>_. None),
     dir_error = None, open_files = []\<rparr>"

theorem error_logger_drops_warnings_witness:
  "\<exists>l. fst (Init ''logs'' sample_sinks) = Inr l \<and>
     log_to (Error l) \<lparr>rec_level = LevelWarn, rec_msg = ''circuit breaker open''\<rparr> sample_sinks = sample_sinks"
proof -
  obtain l where l: "fst (Init ''logs'' sample_sinks) = Inr l"
    by (simp add: Init_def sample_sinks_def open_log_def Let_def)
  from error_logger_drops_warnings [OF l, of "\<lparr>rec_level = LevelWarn, rec_msg = ''circuit breaker open''\<rparr>" sample_sinks] l
  show ?thesis by auto
qed

text \<open>
  Log files do not leak: when initialisation fails, the files that were open before
  are open again and no others; when it succeeds, closing the loggers closes the three files,
  and closing them again changes nothing.
\<close>

theorem log_files_do_not_leak:
  assumes "Init dir w = (res, w')" and "\<And>n. log_path dir n \<notin> set (open_files w)"
  shows "case res of
      Inl e \<Rightarrow> open_files w' = open_files w
    | Inr l \<Rightarrow> length (open_files w') = length (open_files w) + 3 \<and>
        open_files (snd (Close l w')) = open_files w \<and>
        snd (Close (fst (Close l w')) (snd (Close l w'))) = snd (Close l w')"
  using Init_cases [OF assms] assms(2)
  by (auto simp: Close_def close_file_def remove1_append log_path_inject)

theorem log_files_do_not_leak_witness:
  "open_files (snd (Init ''logs'' (sample_sinks\<lparr>open_error := (\<lambda>p. if p = ''logs/error.log'' then Some ErrTimeout else None)\<rparr>))) = []"
proof -
  let ?w = "sample_sinks\<lparr>open_error := (\<lambda>p. if p = ''logs/error.log'' then Some ErrTimeout else None)\<rparr>"
  obtain res w' where i: "Init ''logs'' ?w = (res, w')" by fastforce
  from log_files_do_not_leak [OF i] show ?thesis
    by (cases res) (use i in \<open>auto simp: sample_sinks_def Init_def open_log_def log_path_def Let_def trim_right_slash_def\<close>)
qed

end
