(* ===== verification/ServerMain.thy ===== *)
theory ServerMain
  imports Bulk Migrations Seed Logger
begin

text \<open>
  \<^verbatim>\<open>backend/cmd/server/main.go\<close>: the start of the server, from the environment to the
  handlers, and the routes of \<^verbatim>\<open>RegisterRoutes\<close>. Connecting to the database, the files and
  the effect of a migration are parameters. Serving itself is the business of the theories of
  the handlers, the end of the process that of \<open>Lifecycle\<close>.
\<close>

section \<open>Configuration\<close>

text \<open>\<^verbatim>\<open>os.Getenv\<close> gives the empty string for a variable that is not set.\<close>

type_synonym environment = "string \<Rightarrow> string"

definition envOr :: "environment \<Rightarrow> string \<Rightarrow> string \<Rightarrow> string" where
  "envOr env key fallback = (if env key \<noteq> [] then env key else fallback)"

definition dbURL :: "environment \<Rightarrow> string" where
  "dbURL env = ''postgres://'' @ envOr env ''DB_USER'' ''gateway'' @ '':'' @
     envOr env ''DB_PASSWORD'' ''gateway'' @ ''@'' @ envOr env ''DB_HOST'' ''localhost'' @ '':'' @
     envOr env ''DB_PORT'' ''5432'' @ ''/'' @ envOr env ''DB_NAME'' ''integration_gateway''"

section \<open>Wiring\<close>

record server =
  srv_Addr :: string
  srv_ReadTimeout :: duration
  srv_WriteTimeout :: duration
  srv_Orchestrator :: Orchestrator
  srv_Logs :: Loggers

text \<open>The breakers the handler reports are those of the orchestrator.\<close>

definition srv_breakers :: "server \<Rightarrow> CircuitBreaker list" where
  "srv_breakers s =
     [propertyCB (srv_Orchestrator s), courtCB (srv_Orchestrator s), scraCB (srv_Orchestrator s)]"

definition new_server :: "environment \<Rightarrow> Loggers \<Rightarrow> db \<Rightarrow> RateLimiter \<Rightarrow> server" where
  "new_server env logs d limiter =
     \<lparr>srv_Addr = '':'' @ envOr env ''PORT'' ''8080'',
      srv_ReadTimeout = 10 * Second, srv_WriteTimeout = 10 * Second,
      srv_Orchestrator = NewOrchestrator d
        (NewPropertyClient (envOr env ''MOCK_PROPERTY_URL'' ''http://localhost:9001''))
        (NewCourtClient (envOr env ''MOCK_COURT_URL'' ''http://localhost:9002''))
        (NewSCRAClient (envOr env ''MOCK_SCRA_URL'' ''http://localhost:9003''))
        (NewCircuitBreaker ''property_records'' 5 (30 * Second))
        (NewCircuitBreaker ''court_records'' 5 (30 * Second))
        (NewCircuitBreaker ''scra'' 5 (30 * Second)) limiter,
      srv_Logs = logs\<rparr>"

section \<open>Starting\<close>

text \<open>The part of the outside world the start depends on.\<close>

record outside =
  ou_env :: environment
  ou_connect :: "string \<Rightarrow> goerr option"
  ou_ping :: "goerr option"
  ou_ReadDir :: "string \<Rightarrow> goerr + (string \<times> bool) list"
  ou_ReadFile :: "string \<Rightarrow> goerr + string"
  ou_cases_file :: "string \<Rightarrow> goerr + body"
  ou_sql :: "string \<Rightarrow> db \<Rightarrow> goerr + db"
  ou_now :: time

datatype boot = Exit int | Panic | Serving server

definition main_start :: "outside \<Rightarrow> sinks \<Rightarrow> db mdb \<Rightarrow> boot \<times> sinks \<times> db mdb" where
  "main_start ou w m =
     (let env = ou_env ou in
      case Init (envOr env ''LOG_DIR'' ''logs'') w of
        (Inl err, w1) \<Rightarrow> (Exit 1, w1, m)
      | (Inr logs, w1) \<Rightarrow>
          (case ou_connect ou (dbURL env) of
             Some err \<Rightarrow> (Exit 1, w1, m)
           | None \<Rightarrow>
               (case ou_ping ou of
                  Some err \<Rightarrow> (Exit 1, w1, m)
                | None \<Rightarrow>
                    (let migrationsDir = envOr env ''MIGRATIONS_DIR'' ''migrations'' in
                     case RunMigrations migrationsDir (ou_ReadDir ou migrationsDir)
                            (\<lambda>fn. ou_ReadFile ou (log_path migrationsDir fn)) (ou_sql ou) m of
                       (Some err, m1) \<Rightarrow> (Exit 1, w1, m1)
                     | (None, m1) \<Rightarrow>
                         (let casesFile = envOr env ''CASES_FILE'' ''seed/cases.json'' in
                          case Cases casesFile (ou_cases_file ou casesFile) (schema m1) of
                            (Some err, d1) \<Rightarrow> (Exit 1, w1, m1\<lparr>schema := d1\<rparr>)
                          | (None, d1) \<Rightarrow>
                              (case NewRateLimiter 2 (ou_now ou) of
                                 None \<Rightarrow> (Panic, w1, m1\<lparr>schema := d1\<rparr>)
                               | Some limiter \<Rightarrow>
                                   (Serving (new_server env logs d1 limiter), w1, m1\<lparr>schema := d1\<rparr>)))))))"

section \<open>Routes\<close>

datatype endpoint =
  EpLookupCase string | EpBulkEnrich | EpGetLookupStatus string | EpListCases | EpHealth

text \<open>
  The patterns of \<^verbatim>\<open>RegisterRoutes\<close>, on the method and the segments of a clean path; the
  wildcard stands for one segment that is not empty. No request matches two patterns.
\<close>

definition route :: "string \<Rightarrow> string list \<Rightarrow> endpoint option" where
  "route meth path =
     (case path of
        [a, b] \<Rightarrow>
          if a = ''api'' \<and> b = ''cases'' \<and> meth = ''GET'' then Some EpListCases
          else if a = ''api'' \<and> b = ''health'' \<and> meth = ''GET'' then Some EpHealth
          else None
      | [a, b, c] \<Rightarrow>
          if a = ''api'' \<and> b = ''enrich'' \<and> c = ''bulk'' \<and> meth = ''POST'' then Some EpBulkEnrich else None
      | [a, b, i, c] \<Rightarrow>
          if a = ''api'' \<and> b = ''cases'' \<and> i \<noteq> [] \<and> c = ''enrich'' \<and> meth = ''POST'' then Some (EpLookupCase i)
          else if a = ''api'' \<and> b = ''cases'' \<and> i \<noteq> [] \<and> c = ''enrichment'' \<and> meth = ''GET''
            then Some (EpGetLookupStatus i)
          else None
      | _ \<Rightarrow> None)"

section \<open>What holds when the server serves\<close>

lemma court_limiter_exists: "\<exists>rl. NewRateLimiter 2 now = Some rl"
  by (simp add: NewRateLimiter_def Let_def trunc_def Second_def Millisecond_def)

text \<open>A property of the database that the migration files keep.\<close>

lemma run_files_schema:
  assumes "run_files read sql applied fns d = (res, d')" "P (schema d)"
    and "\<And>content s s'. sql content s = Inr s' \<Longrightarrow> P s \<Longrightarrow> P s'"
  shows "P (schema d')"
  using assms(1,2)
proof (induction fns arbitrary: d)
  case (Cons fn fns)
  show ?case
  proof (cases "fn \<in> set applied \<or> (\<exists>e. read fn = Inl e)")
    case True
    with Cons show ?thesis by (cases "fn \<in> set applied") auto
  next
    case False
    then obtain content where c: "fn \<notin> set applied" "read fn = Inr content" by (cases "read fn") auto
    obtain r1 d1 where r: "run_migration sql fn content d = (r1, d1)" by fastforce
    from run_migration_cases(1) [OF r] Cons.prems(2) assms(3) have "P (schema d1)"
      by (auto simp: same_schema_def migrated_def)
    with Cons.IH [of d1] Cons.prems(1) c r show ?thesis by (auto split: option.splits)
  qed
qed simp

lemma RunMigrations_schema:
  assumes "RunMigrations dir entries read sql d = (res, d')" "P (schema d)"
    and "\<And>content s s'. sql content s = Inr s' \<Longrightarrow> P s \<Longrightarrow> P s'"
  shows "P (schema d')"
proof -
  have keep: "schema d1 = schema d" if "m_do create_schema_version d = (r, d1)" for r d1
    using that by (auto simp: m_do_def split: exec_out.splits)
  have keep2: "schema d2 = schema d1" if "m_do id d1 = (r, d2)" for r and d1 d2 :: "'a mdb"
    using that by (auto simp: m_do_def split: exec_out.splits)
  have files: "P (schema d')" if "run_files read sql applied fns (m_next d2) = (res, d')" "schema d2 = schema d"
    for applied fns d2
    using run_files_schema [OF that(1), of P] that(2) assms(2,3) by simp
  obtain r1 d1 where r1: "m_do create_schema_version d = (r1, d1)" by fastforce
  obtain r2 d2 where r2: "m_do id d1 = (r2, d2)" by fastforce
  have s: "schema d1 = schema d" "schema d2 = schema d" using keep [OF r1] keep2 [OF r2] by simp_all
  show ?thesis
  proof (cases "r1 = None \<and> r2 = None \<and> filter (\<lambda>r. mr_Status r = ''failed'') (records d2) = []")
    case False
    with assms(1,2) r1 r2 s show ?thesis
      by (auto simp: RunMigrations_def Let_def split: option.splits)
  next
    case True
    with assms(1,2) r1 r2 s show ?thesis
      by (auto simp: RunMigrations_def Let_def intro: files
          split: sum.splits rows_out.splits if_splits)
  qed
qed

lemma breaker_fresh [simp]:
  "cb_state (NewCircuitBreaker n m c) = CBClosed" "failures (NewCircuitBreaker n m c) = 0"
  "maxFailures (NewCircuitBreaker n m c) = m" "cooldown (NewCircuitBreaker n m c) = c"
  "cb_name (NewCircuitBreaker n m c) = n"
  by (simp_all add: NewCircuitBreaker_def)

section \<open>Properties\<close>


definition sample_outside :: outside where
  "sample_outside =
     \<lparr>ou_env = (\<lambda>_. []), ou_connect = (\<lambda>_. None), ou_ping = None,
      ou_ReadDir = (\<lambda>_. Inr [(''001_schema_version.sql'', False)]), ou_ReadFile = Inr,
      ou_cases_file = (\<lambda>_. sample_file sample_cases), ou_sql = (\<lambda>_. Inr), ou_now = 0\<rparr>"

lemma sample_start:
  "case fst (main_start sample_outside sample_sinks (fresh_mdb unseeded_db)) of
     Exit n \<Rightarrow> False | Panic \<Rightarrow> False | Serving s \<Rightarrow> True"
  by code_simp


end
