(* ===== verification/Lifecycle.thy ===== *)
theory Lifecycle
  imports ServerMain
begin

text \<open>
  The end of \<^verbatim>\<open>main\<close> in \<^verbatim>\<open>backend/cmd/server/main.go\<close>: the server goroutine, the signal, and
  \<^verbatim>\<open>Shutdown\<close> with its deadline of five seconds, over the interleaved requests and lookups of
  \<open>Concurrency\<close>; and what a server that is started again finds in the database. Of
  \<^verbatim>\<open>http.Server.Shutdown\<close> the model uses what its documentation says: no new request is taken,
  it returns when every request is answered or its context is over, and it knows nothing of
  goroutines that handlers started.
\<close>

section \<open>The process\<close>

text \<open>
  \<open>Up\<close>: main waits for \<^verbatim>\<open>ctx.Done()\<close>. \<open>Stopping dl\<close>: main is in \<^verbatim>\<open>Shutdown\<close>, whose context
  ends at \<open>dl\<close>. \<open>Down c\<close>: the process is over, with exit code \<open>c\<close>, and no thread lives.
\<close>

datatype phase = Up | Stopping time | Down int

type_synonym process = "phase \<times> time \<times> gateway"

datatype event = Work label | Elapse | Signal | ListenFails | ShutdownReturns

definition shutdown_wait :: duration where
  "shutdown_wait = 5 * Second"

text \<open>What \<^verbatim>\<open>Shutdown\<close> waits for; a lookup is no request.\<close>

primrec served :: "thread \<Rightarrow> bool" where
  "served (Trigger i p) = False"
| "served (Answered i out) = True"
| "served (Lookup i p) = True"

fun takes_work :: "phase \<Rightarrow> label \<Rightarrow> bool" where
  "takes_work Up l = True"
| "takes_work (Stopping dl) l = (l \<noteq> Request)"
| "takes_work (Down c) l = False"

fun time_may_reach :: "phase \<Rightarrow> time \<Rightarrow> bool" where
  "time_may_reach (Stopping dl) t = (t \<le> dl)"
| "time_may_reach ph t = True"

text \<open>
  Time passes as it likes while the server is up; \<^verbatim>\<open>Shutdown\<close> returns at its deadline at the
  latest. The signal is registered until main returns, so a second one changes nothing. An
  error of \<^verbatim>\<open>ListenAndServe\<close> ends the process at once; after \<^verbatim>\<open>Shutdown\<close> was called it is
  \<^verbatim>\<open>ErrServerClosed\<close>, which does not.
\<close>

inductive sv_step :: "event \<Rightarrow> process \<Rightarrow> process \<Rightarrow> bool" where
  work: "takes_work ph l \<Longrightarrow> gw_step l g g' \<Longrightarrow> sv_step (Work l) (ph, t, g) (ph, t, g')"
| elapse: "t \<le> t' \<Longrightarrow> time_may_reach ph t' \<Longrightarrow> \<forall>c. ph \<noteq> Down c \<Longrightarrow> sv_step Elapse (ph, t, g) (ph, t', g)"
| signalled: "sv_step Signal (Up, t, g) (Stopping (t + shutdown_wait), t, g)"
| signalled_again: "sv_step Signal (Stopping dl, t, g) (Stopping dl, t, g)"
| listen_fails: "sv_step ListenFails (Up, t, g) (Down 1, t, g)"
| returns: "(\<forall>th \<in> set (fst g). served th) \<or> dl \<le> t \<Longrightarrow>
    sv_step ShutdownReturns (Stopping dl, t, g) (Down 0, t, g)"

inductive_cases sv_step_cases: "sv_step e (ph, t, g) p'"
inductive_simps sv_step_Down [simp]: "sv_step e (Down c, t, g) p'"

inductive sv_path :: "event list \<Rightarrow> process \<Rightarrow> process \<Rightarrow> bool" where
  start: "sv_path [] p p"
| more: "sv_path es p p' \<Longrightarrow> sv_step e p' p'' \<Longrightarrow> sv_path (es @ [e]) p p''"

text \<open>The process after the start of \<^verbatim>\<open>main\<close>; a panic of the Go runtime exits with 2.\<close>

fun process_of :: "boot \<Rightarrow> time \<Rightarrow> db \<Rightarrow> process" where
  "process_of (Exit c) t d = (Down c, t, [], d)"
| "process_of Panic t d = (Down 2, t, [], d)"
| "process_of (Serving s) t d = (Up, t, [], store (srv_Orchestrator s))"

section \<open>A process is a gateway with an end\<close>

text \<open>The steps of the gateway in a sequence of events.\<close>

fun works :: "event list \<Rightarrow> label list" where
  "works [] = []"
| "works (Work l # es) = l # works es"
| "works (e # es) = works es"

lemma works_append [simp]: "works (es @ es') = works es @ works es'"
  by (induction es rule: works.induct) simp_all

lemma sv_path_gateway: "sv_path es p p' \<Longrightarrow> gw_path (works es) (snd (snd p)) (snd (snd p'))"
proof (induction rule: sv_path.induct)
  case (more es p p' e p'')
  from more.hyps(2) more.IH show ?case
    by (cases rule: sv_step.cases) (auto intro: gw_path.more)
qed (simp add: gw_path.start)

lemma sv_path_append: "sv_path es' p' p'' \<Longrightarrow> sv_path es p p' \<Longrightarrow> sv_path (es @ es') p p''"
proof (induction rule: sv_path.induct)
  case (more es' p' p'' e p3)
  then show ?case using sv_path.more [of "es @ es'" p p'' e p3] by simp
qed simp

lemma sv_path_one: "sv_step e p p' \<Longrightarrow> sv_path [e] p p'"
  using sv_path.more [OF sv_path.start] by fastforce

text \<open>Every path of the gateway is one of the server, as long as no signal comes.\<close>

lemma gateway_serves: "gw_path ls g g' \<Longrightarrow> sv_path (map Work ls) (Up, t, g) (Up, t, g')"
proof (induction rule: gw_path.induct)
  case (more ls g g' l g'')
  from sv_step.work [OF _ more.hyps(2), of Up t] more.IH show ?case by (auto intro: sv_path.more)
qed (simp add: sv_path.start)

text \<open>Once the signal has come.\<close>

lemma stopping_path:
  assumes "sv_path es p p'" "fst p = Stopping dl" "fst (snd p) \<le> dl"
  shows "fst (snd p) \<le> fst (snd p') \<and> fst (snd p') \<le> dl \<and> Request \<notin> set (works es) \<and>
    (fst p' = Stopping dl \<or>
     fst p' = Down 0 \<and> ((\<forall>th \<in> set (fst (snd (snd p'))). served th) \<or> fst (snd p') = dl))"
  using assms
proof (induction rule: sv_path.induct)
  case (more es p p' e p'')
  then have IH: "fst (snd p) \<le> fst (snd p')" "fst (snd p') \<le> dl" "Request \<notin> set (works es)"
    "fst p' = Stopping dl \<or>
     fst p' = Down 0 \<and> ((\<forall>th \<in> set (fst (snd (snd p'))). served th) \<or> fst (snd p') = dl)" by auto
  from more.hyps(2) IH show ?case by (cases rule: sv_step.cases) auto
qed auto

lemma up_path:
  "sv_path es p p' \<Longrightarrow> fst p' = Up \<Longrightarrow> fst p = Up \<and> Signal \<notin> set es"
proof (induction rule: sv_path.induct)
  case (more es p p' e p'')
  from more.hyps(2) more.prems more.IH show ?case by (cases rule: sv_step.cases) auto
qed simp

lemma count_works [simp]: "Request \<notin> set ls \<Longrightarrow> filter (\<lambda>l. l \<noteq> Request) ls = ls"
  by (metis (mono_tags, lifting) filter_True)

section \<open>What a stopped lookup leaves behind\<close>

definition left_pending :: "string \<Rightarrow> string \<Rightarrow> db \<Rightarrow> bool" where
  "left_pending rid i d \<longleftrightarrow>
     (\<exists>r \<in> set (lookup_runs d). run_ID r = rid \<and> run_CaseID r = i \<and> run_Status r = StatusPending)"

lemma left_pending_simps [simp]:
  "left_pending rid i (next_stmt d) = left_pending rid i d"
  "left_pending rid i (update_source j g d) = left_pending rid i d"
  by (simp_all add: left_pending_def)

lemma left_pending_update:
  assumes "j \<noteq> rid \<or> (\<forall>r. run_ID (f r) = run_ID r \<and> run_CaseID (f r) = run_CaseID r \<and> run_Status (f r) = StatusPending)"
  shows "left_pending rid i d \<Longrightarrow> left_pending rid i (update_run j f d)"
  using assms unfolding left_pending_def by (auto simp: set_update_where)

lemma left_pending_exec:
  "left_pending rid i d \<Longrightarrow> left_pending rid i (f (next_stmt d)) \<Longrightarrow> left_pending rid i (snd (db_exec f d))"
  by (cases rule: db_exec_cases [of f d]) auto

lemma left_pending_subset:
  "left_pending rid i d \<Longrightarrow> set (lookup_runs d) \<subseteq> set (lookup_runs d') \<Longrightarrow> left_pending rid i d'"
  by (auto simp: left_pending_def)

lemma left_pending_apart:
  assumes "db_inv d" "left_pending rid i d" "r \<in> set (lookup_runs d)" "run_Status r \<noteq> StatusPending"
  shows "run_ID r \<noteq> rid \<and> run_CaseID r \<noteq> i"
proof -
  obtain q where q: "q \<in> set (lookup_runs d)" "run_ID q = rid" "run_CaseID q = i" "run_Status q = StatusPending"
    using assms(2) by (auto simp: left_pending_def)
  have "inj_on run_ID (set (lookup_runs d))" "inj_on run_CaseID (set (lookup_runs d))"
    using assms(1) by (simp_all add: db_inv_def distinct_map)
  with q assms(3,4) show ?thesis by (metis inj_onD)
qed

lemma left_pending_create:
  assumes "db_inv d" "left_pending rid i d"
  shows "left_pending rid i (snd (CreateLookupRun now c d))"
proof (rule left_pending_subset [OF assms(2)])
  have "distinct (map src_ID (lookup_sources d))" using assms(1) by (simp add: db_inv_def)
  from CreateLookupRun_cases [OF this, of now c]
  show "set (lookup_runs d) \<subseteq> set (lookup_runs (snd (CreateLookupRun now c d)))"
    by (elim disjE exE conjE) (simp_all add: same_tables_def run_created_def subset_insertI)
qed

text \<open>No statement of any thread touches such a run: it is neither partial nor failed, nor new.\<close>

interpretation stranded: statement_invariant "\<lambda>d. db_inv d \<and> left_pending rid i d"
    "\<lambda>j c. j \<noteq> rid \<and> c \<noteq> i" for rid i
proof unfold_locales
  show "same_tables d d' \<Longrightarrow> (db_inv d' \<and> left_pending rid i d') = (db_inv d \<and> left_pending rid i d)" for d d'
    by (simp add: db_inv_same_tables) (simp add: same_tables_def left_pending_def)
  show "length (sources_of j d) \<le> 3" if "db_inv d \<and> left_pending rid i d" for d j
    using kept.three [of d "{}" j] that by simp
  show "db_inv (snd (CreateLookupRun now c d)) \<and> left_pending rid i (snd (CreateLookupRun now c d))"
    if "db_inv d \<and> left_pending rid i d" for d now c
    using that by (simp add: CreateLookupRun_inv left_pending_create)
  show "run_CaseID r = c \<and> run_ID r \<noteq> rid \<and> c \<noteq> i"
    if "db_inv d \<and> left_pending rid i d" "fst (CreateLookupRun now c d) = Inr (r, ss)" for d now c r ss
    using that CreateLookupRun_Inr [of d now c r ss] by (auto simp: run_created_def left_pending_def)
  show "run_ID r \<noteq> rid \<and> run_CaseID r \<noteq> i"
    if "db_inv d \<and> left_pending rid i d" "r \<in> set (lookup_runs d)" "run_Status r \<in> {StatusPartial, StatusFailed}" for d r
    using that left_pending_apart [of d rid i r] by (auto simp: StatusPending_def StatusPartial_def StatusFailed_def)
  show "db_inv (snd (CompleteRun now j st d)) \<and> left_pending rid i (snd (CompleteRun now j st d))"
    if "db_inv d \<and> left_pending rid i d" "j \<noteq> rid \<and> c \<noteq> i" "st \<in> run_statuses" for d j c now st
    using that by (auto simp: CompleteRun_inv)
      (auto simp: CompleteRun_def intro!: left_pending_exec left_pending_update)
  show "db_inv (snd (ResetRunToPending j d)) \<and> left_pending rid i (snd (ResetRunToPending j d))"
    if "db_inv d \<and> left_pending rid i d" "j \<noteq> rid \<and> c \<noteq> i" for d j c
    using that by (auto simp: ResetRunToPending_inv)
      (auto simp: ResetRunToPending_def intro!: left_pending_exec left_pending_update)
qed (auto simp: SetSourceResult_inv db_inv_exec db_inv_update_source SetSourceResult_def intro!: left_pending_exec)

lemma launch_apart:
  assumes "launch_ok (\<lambda>j c. j \<noteq> rid \<and> c \<noteq> i) i (Inr (res, code, l))"
  shows "l = None \<and> code = 200"
  using assms by (cases l) auto

text \<open>A run that is pending when the server starts stays pending as long as it lives.\<close>

lemma stranded_run:
  assumes "sv_path es (Up, t0, [], d0) (ph, t, ts, d)" "db_inv d0" "left_pending rid i d0"
  shows "db_inv d \<and> left_pending rid i d \<and>
    (\<forall>res code l. Answered i (Inr (res, code, l)) \<in> set ts \<longrightarrow> l = None \<and> code = 200)"
proof -
  have "gw_path (works es) ([], d0) (ts, d)" using sv_path_gateway [OF assms(1)] by simp
  from stranded.gw_path_steps [OF this, of rid i "[]"] assms(2,3) obtain ns where
    inv: "db_inv d" "left_pending rid i d"
    and ns: "list_all2 (steps_left (\<lambda>d. db_inv d \<and> left_pending rid i d) (\<lambda>j c. j \<noteq> rid \<and> c \<noteq> i)) ts ns" by auto
  have "l = None \<and> code = 200" if t: "Answered i (Inr (res, code, l)) \<in> set ts" for res code l
  proof -
    obtain k where "k < length ts" "ts ! k = Answered i (Inr (res, code, l))" using t by (auto simp: in_set_conv_nth)
    with list_all2_nthD [OF ns, of k] launch_apart show ?thesis by simp
  qed
  with inv show ?thesis by blast
qed

text \<open>The start of the server, with migrations that keep the rows there are.\<close>

lemma main_start_keeps:
  assumes "main_start ou w m = (b, w', m')" "db_inv (schema m)" "left_pending rid i (schema m)"
    and sql: "\<And>content s s'. ou_sql ou content s = Inr s' \<Longrightarrow> db_inv s \<Longrightarrow>
      db_inv s' \<and> set (lookup_runs s) \<subseteq> set (lookup_runs s')"
  shows "db_inv (schema m') \<and> left_pending rid i (schema m') \<and>
    (\<forall>s. b = Serving s \<longrightarrow> store (srv_Orchestrator s) = schema m')"
proof -
  let ?env = "ou_env ou" and ?P = "\<lambda>d. db_inv d \<and> left_pending rid i d"
  let ?dir = "envOr ?env ''MIGRATIONS_DIR'' ''migrations''" and ?file = "envOr ?env ''CASES_FILE'' ''seed/cases.json''"
  obtain r1 w1 where i: "Init (envOr ?env ''LOG_DIR'' ''logs'') w = (r1, w1)" by fastforce
  obtain r2 m1 where mi: "RunMigrations ?dir (ou_ReadDir ou ?dir) (\<lambda>fn. ou_ReadFile ou (log_path ?dir fn)) (ou_sql ou) m = (r2, m1)"
    by fastforce
  obtain r3 d1 where se: "Cases ?file (ou_cases_file ou ?file) (schema m1) = (r3, d1)" by fastforce
  obtain rl where rl: "NewRateLimiter 2 (ou_now ou) = Some rl" using court_limiter_exists by blast
  have keep: "?P s'" if "ou_sql ou content s = Inr s'" "?P s" for content s s'
    using sql [OF that(1)] that(2) left_pending_subset [of rid i s s'] by blast
  have inv: "?P (schema m1)"
    by (rule RunMigrations_schema [where P = ?P, OF mi]) (use assms(2,3) keep in auto)
  have "lookup_runs d1 = lookup_runs (schema m1)"
    using Cases_cases [OF se] inv by (simp add: db_inv_def)
  then have inv': "?P d1" using inv Cases_inv [OF se] by (simp add: left_pending_def)
  show ?thesis
    using assms(1-3) i mi se inv inv' rl
    by (auto simp: main_start_def Let_def new_server_def NewOrchestrator_def split: sum.splits option.splits)
qed

section \<open>A sample process\<close>

text \<open>One request, answered, and the lookup it starts is still there when the signal comes.\<close>

lemma served_request:
  "\<exists>ls out new d'. TriggerLookup now i d = (out, d') \<and> gw_path (Request # ls) ([], d) (Answered i out # new, d')"
proof -
  obtain out d' where t: "TriggerLookup now i d = (out, d')" by fastforce
  obtain ls where ls: "gw_path ls ([Trigger i (Trigger_prog now i)], d) ([Trigger i (Return out)], d')"
    using run_alone [of "Trigger_prog now i" d out d' 0 "[Trigger i (Trigger_prog now i)]" i] t
    by (auto simp: run_Trigger_prog)
  obtain new where "lookup_threads i new out" using lookup_threads_exist by blast
  from gw_step.answer [of 0 "[Trigger i (Return out)]" i out new d', OF _ _ this]
  have "gw_step (Answer 0) ([Trigger i (Return out)], d') (Answered i out # new, d')" by simp
  with ls have "gw_path (ls @ [Answer 0]) ([Trigger i (Trigger_prog now i)], d) (Answered i out # new, d')"
    by (rule gw_path.more)
  from gw_path_Cons [OF gw_step.request [of "[]" d i now, unfolded append_Nil] this] t show ?thesis by blast
qed

lemma signal_and_deadline:
  "sv_path [Signal] (Up, t, g) (Stopping (t + shutdown_wait), t, g)"
  "sv_path [Elapse, ShutdownReturns] (Stopping (t + shutdown_wait), t, g) (Down 0, t + shutdown_wait, g)"
proof -
  have "0 \<le> shutdown_wait" by (simp add: shutdown_wait_def Second_def Millisecond_def)
  then have "sv_step Elapse (Stopping (t + shutdown_wait), t, g) (Stopping (t + shutdown_wait), t + shutdown_wait, g)"
    by (intro sv_step.elapse) auto
  from sv_path.more [OF sv_path_one [OF this] sv_step.returns]
  show "sv_path [Elapse, ShutdownReturns] (Stopping (t + shutdown_wait), t, g) (Down 0, t + shutdown_wait, g)" by simp
qed (rule sv_path_one [OF sv_step.signalled])

text \<open>The next server starts on what the first trigger of a case left in the tables.\<close>

definition left_db :: db where
  "left_db = snd (TriggerLookup 5 ''C1'' sample_db)"

lemma left_db_run:
  "\<exists>r \<in> set (lookup_runs left_db). run_CaseID r = ''C1'' \<and> run_Status r = StatusPending"
  unfolding left_db_def by code_simp

lemma restart:
  "case fst (main_start sample_outside sample_sinks (fresh_mdb left_db)) of
     Exit n \<Rightarrow> False | Panic \<Rightarrow> False | Serving s \<Rightarrow> True"
  by code_simp

section \<open>Properties\<close>



text \<open>
  Claim C9. A lookup that the end of the process cut off never resumes: if a run is pending
  when the server goes down, for whatever reason, then in the next server, whatever it is asked
  and in every interleaving and under all faults of the database, that run stays pending, no
  request for its case is answered 202 or starts a lookup, and the status endpoint says
  \<^verbatim>\<open>pending\<close>. The migrations are assumed to keep the rows there are.
\<close>

theorem interrupted_lookup_stays_pending:
  assumes "sv_path es (Up, t0, [], d0) (Down e, t, ts, d)" "db_inv d0"
    and "r \<in> set (lookup_runs d)" "run_Status r = StatusPending"
    and "main_start ou w m = (b, w', m')" "schema m = d"
    and sql: "\<And>content s s'. ou_sql ou content s = Inr s' \<Longrightarrow> db_inv s \<Longrightarrow>
      db_inv s' \<and> set (lookup_runs s) \<subseteq> set (lookup_runs s')"
    and "sv_path es' (process_of b t' (schema m')) (ph, u, ts', d')"
  shows "left_pending (run_ID r) (run_CaseID r) d' \<and>
    (\<forall>res code l. Answered (run_CaseID r) (Inr (res, code, l)) \<in> set ts' \<longrightarrow> l = None \<and> code = 200) \<and>
    (healthy d' \<longrightarrow> run_CaseID r \<noteq> [] \<longrightarrow>
     (\<exists>resp d''. GetLookupStatus tz (run_CaseID r) d' = (writeJSON 200 (enc_statusResponse resp), d'') \<and>
        st_RunID resp = run_ID r \<and> st_Status resp = StatusPending))"
proof -
  let ?i = "run_CaseID r" and ?id = "run_ID r"
  have "gw_path (works es) ([], d0) (ts, d)" using sv_path_gateway [OF assms(1)] by simp
  from kept.gw_path_steps [OF this, of "{}" "[]"] assms(2) have "db_inv d" by auto
  moreover have "left_pending ?id ?i d" using assms(3,4) by (auto simp: left_pending_def)
  ultimately have m': "db_inv (schema m')" "left_pending ?id ?i (schema m')"
    "\<forall>s. b = Serving s \<longrightarrow> store (srv_Orchestrator s) = schema m'"
    using main_start_keeps [OF assms(5)] assms(6) sql by auto
  have dead: "p' = (Down c, v, [], dd)" if "sv_path es p p'" "p = (Down c, v, [], dd)" for es p p' c v dd
    using that by (induction rule: sv_path.induct) auto
  have after: "db_inv d' \<and> left_pending ?id ?i d' \<and>
    (\<forall>res code l. Answered ?i (Inr (res, code, l)) \<in> set ts' \<longrightarrow> l = None \<and> code = 200)"
  proof (cases b)
    case (Serving s)
    then have "sv_path es' (Up, t', [], schema m') (ph, u, ts', d')" using assms(8) m'(3) by simp
    from stranded_run [OF this m'(1,2)] show ?thesis .
  next
    case (Exit c)
    with dead [OF assms(8)] m'(1,2) show ?thesis by simp
  next
    case Panic
    with dead [OF assms(8)] m'(1,2) show ?thesis by simp
  qed
  have "\<exists>resp d''. GetLookupStatus tz ?i d' = (writeJSON 200 (enc_statusResponse resp), d'') \<and>
        st_RunID resp = ?id \<and> st_Status resp = StatusPending" if h: "healthy d'" "?i \<noteq> []"
  proof -
    from after obtain q where q: "q \<in> set (lookup_runs d')" "run_ID q = ?id" "run_CaseID q = ?i" "run_Status q = StatusPending"
      by (auto simp: left_pending_def)
    have "run_CaseID q \<in> set (map c_ID (cases d'))" using after q(1) by (simp add: db_inv_def)
    then have inv: "distinct (map run_CaseID (lookup_runs d'))" "?i \<in> set (map c_ID (cases d'))" "db_inv d'"
      using after q(3) by (simp_all add: db_inv_def)
    have "find (\<lambda>c. c_ID c = ?i) (cases d') \<noteq> None" using inv(2) by (auto simp: find_None_iff)
    then obtain c where c: "find (\<lambda>c. c_ID c = ?i) (cases d') = Some c" by blast
    have "find (\<lambda>r. run_CaseID r = ?i) (lookup_runs d') = Some q"
      using find_distinct [OF inv(1) q(1)] q(3) by simp
    from status_reported [OF h(1) inv(3) h(2) c this, of tz] q show ?thesis by metis
  qed
  with after show ?thesis by blast
qed

theorem interrupted_lookup_stays_pending_witness:
  "\<exists>es ts rid s w' m' es' ts' d' out.
     sv_path es (Up, 0, [], sample_db) (Down 0, shutdown_wait, ts, left_db) \<and>
     main_start sample_outside sample_sinks (fresh_mdb left_db) = (Serving s, w', m') \<and>
     sv_path es' (process_of (Serving s) 0 (schema m')) (Up, 0, ts', d') \<and>
     Answered ''C1'' out \<in> set ts' \<and> left_pending rid ''C1'' d' \<and>
     (\<forall>res code l. out = Inr (res, code, l) \<longrightarrow> l = None \<and> code = 200)"
proof -
  obtain ls out new where "gw_path (Request # ls) ([], sample_db) (Answered ''C1'' out # new, left_db)" (is "gw_path _ _ ?g")
    using served_request [of 5 "''C1''" sample_db] by (auto simp: left_db_def)
  from gateway_serves [OF this, of 0]
  have "sv_path (map Work (Request # ls) @ [Signal] @ [Elapse, ShutdownReturns]) (Up, 0, [], sample_db) (Down 0, 0 + shutdown_wait, ?g)"
    by (intro sv_path_append [OF sv_path_append [OF signal_and_deadline(2) signal_and_deadline(1)]])
  then obtain es where p: "sv_path es (Up, 0, [], sample_db) (Down 0, shutdown_wait, Answered ''C1'' out # new, left_db)"
    by auto
  obtain r where r: "r \<in> set (lookup_runs left_db)" "run_CaseID r = ''C1''" "run_Status r = StatusPending"
    using left_db_run by blast
  obtain b w' m' where m: "main_start sample_outside sample_sinks (fresh_mdb left_db) = (b, w', m')" by (metis prod_cases3)
  then obtain s where b: "b = Serving s" using restart by (cases b) auto
  obtain ls' out' new' d' where "gw_path (Request # ls') ([], store (srv_Orchestrator s)) (Answered ''C1'' out' # new', d')"
    using served_request [of 5 "''C1''" "store (srv_Orchestrator s)"] by blast
  from gateway_serves [OF this, of 0]
  have q: "sv_path (map Work (Request # ls')) (process_of b 0 (schema m')) (Up, 0, Answered ''C1'' out' # new', d')"
    by (simp add: b)
  have sql: "ou_sql sample_outside content x = Inr x' \<Longrightarrow> db_inv x \<Longrightarrow>
      db_inv x' \<and> set (lookup_runs x) \<subseteq> set (lookup_runs x')" for content x x'
    by (simp add: sample_outside_def)
  have sch: "schema (fresh_mdb left_db) = left_db" by (simp add: fresh_mdb_def)
  from interrupted_lookup_stays_pending [OF p sample_db_ok(1) r(1,3) m sch sql q] r(2)
  have "left_pending (run_ID r) ''C1'' d'"
    "\<forall>res code l. out' = Inr (res, code, l) \<longrightarrow> l = None \<and> code = 200" by auto
  moreover have "Answered ''C1'' out' \<in> set (Answered ''C1'' out' # new')" by simp
  ultimately show ?thesis
    using p m [unfolded b] q [unfolded b] by (intro exI conjI) assumption+
qed

end
