(* ===== verification/Sharing.thy ===== *)
theory Sharing
  imports SourceProcess
begin

text \<open>
  The circuit breakers and the limiter are shared by all lookup goroutines. Their methods are
  atomic (a mutex, a channel), but between the calls of one goroutine come those of others.
  Here any number of goroutines use one breaker, or one limiter, in any order.
\<close>

section \<open>One breaker, many callers\<close>

text \<open>
  The callers that were let through and have not reported yet, by number. A caller may also give
  up without a report: the SCRA processor does when its polls time out, the court processor when
  the limiter returns an error. The health endpoint observes.
\<close>

datatype breaker_act =
    Enter nat time | Refused time | Succeed nat | Fail nat time | Abandon nat | Observe time

inductive breaker_step ::
  "CircuitBreaker \<times> nat set \<Rightarrow> breaker_act \<Rightarrow> CircuitBreaker \<times> nat set \<Rightarrow> bool"
where
  enter: "i \<notin> F \<Longrightarrow> Allow t b = (True, b') \<Longrightarrow> breaker_step (b, F) (Enter i t) (b', insert i F)"
| refused: "Allow t b = (False, b') \<Longrightarrow> breaker_step (b, F) (Refused t) (b', F)"
| succeed: "i \<in> F \<Longrightarrow> breaker_step (b, F) (Succeed i) (RecordSuccess b, F - {i})"
| fail: "i \<in> F \<Longrightarrow> breaker_step (b, F) (Fail i t) (RecordFailure t b, F - {i})"
| abandon: "i \<in> F \<Longrightarrow> breaker_step (b, F) (Abandon i) (b, F - {i})"
| observe: "breaker_step (b, F) (Observe t) (snd (CB_State t b), F)"

inductive breaker_run ::
  "CircuitBreaker \<times> nat set \<Rightarrow> breaker_act list \<Rightarrow> CircuitBreaker \<times> nat set \<Rightarrow> bool"
where
  stop: "breaker_run s [] s"
| step: "breaker_step s a s1 \<Longrightarrow> breaker_run s1 as s2 \<Longrightarrow> breaker_run s (a # as) s2"

inductive_cases breaker_run_NilE: "breaker_run s [] s'"
inductive_cases breaker_run_ConsE: "breaker_run s (a # as) s'"

lemma breaker_run_append:
  "breaker_run s as s1 \<Longrightarrow> breaker_run s1 bs s2 \<Longrightarrow> breaker_run s (as @ bs) s2"
  by (induction rule: breaker_run.induct) (auto intro: breaker_run.step)

text \<open>Actions of callers that always report, and of nobody else.\<close>

definition reporting :: "breaker_act \<Rightarrow> bool" where
  "reporting a \<longleftrightarrow> (case a of Abandon i \<Rightarrow> False | Observe t \<Rightarrow> False | _ \<Rightarrow> True)"

lemma reporting_simps [simp]:
  "reporting (Enter i t)" "reporting (Refused t)" "reporting (Succeed i)" "reporting (Fail i t)"
  "\<not> reporting (Abandon i)" "\<not> reporting (Observe t)"
  by (simp_all add: reporting_def)

text \<open>
  While every caller reports, a half-open breaker has its probe under way; when nobody is under
  way it is closed or open, and lets the next caller in at once or after its cooldown.
\<close>

definition probe_inv :: "CircuitBreaker \<times> nat set \<Rightarrow> bool" where
  "probe_inv s \<longleftrightarrow> (cb_state (fst s) = CBHalfOpen \<longrightarrow> snd s \<noteq> {})"

lemma probe_inv_step:
  assumes "breaker_step s a s'" "reporting a" "probe_inv s"
  shows "probe_inv s'"
  using assms
proof (cases rule: breaker_step.cases)
  case (refused t b b' F)
  with assms(3) show ?thesis by (auto simp: probe_inv_def Allow_def split: CBState.splits if_splits)
next
  case (succeed i F b)
  then show ?thesis by (simp add: probe_inv_def RecordSuccess_def)
next
  case (fail i F b t)
  then show ?thesis by (auto simp: probe_inv_def RecordFailure_def Let_def split: CBState.splits)
qed (auto simp: probe_inv_def)

lemma probe_inv_run:
  "breaker_run s as s' \<Longrightarrow> list_all reporting as \<Longrightarrow> probe_inv s \<Longrightarrow> probe_inv s'"
  by (induction rule: breaker_run.induct) (auto intro: probe_inv_step)

lemma not_half_open_grants:
  assumes "cb_state b \<noteq> CBHalfOpen" "openedAt b + cooldown b \<le> t"
  shows "fst (Allow t b)"
  using assms by (cases "cb_state b") (auto simp: Allow_def)

text \<open>Callers under way can report in any order; afterwards none is under way.\<close>

lemma all_report:
  assumes "distinct is" "set is = F"
  shows "\<exists>b'. breaker_run (b, F) (map Succeed is) (b', {})"
  using assms
proof (induction "is" arbitrary: b F)
  case Nil
  then show ?case by (auto intro: breaker_run.stop)
next
  case (Cons i "is")
  then have "breaker_step (b, F) (Succeed i) (RecordSuccess b, set is)"
    using breaker_step.succeed [of i F b] by (auto simp: insert_Diff_if)
  moreover obtain b' where "breaker_run (RecordSuccess b, set is) (map Succeed is) (b', {})"
    using Cons.IH [of "set is" "RecordSuccess b"] Cons.prems by auto
  ultimately show ?case by (auto intro: breaker_run.step)
qed

section \<open>What the processors do to their breaker\<close>

text \<open>
  The calls of one processor on its breaker, alone: it is refused, or enters and reports, or
  enters and gives up. The property processor never gives up, whatever the service does; the
  court processor does not while the limiter runs and the context lasts; the SCRA processor
  can.
\<close>

lemma one_caller:
  assumes "Allow t b = (allowed, cb)"
    and "if allowed then b' = RecordSuccess cb \<or> b' = RecordFailure u cb else b' = cb"
  shows "\<exists>as. list_all reporting as \<and> breaker_run (b, {}) as (b', {})"
proof (cases allowed)
  case False
  with assms have "breaker_run (b, {}) [Refused t] (b', {})"
    by (auto intro!: breaker_run.intros breaker_step.intros)
  then show ?thesis by (intro exI [of _ "[Refused t]"]) simp
next
  case True
  with assms(1) have e: "breaker_step (b, {}) (Enter 0 t) (cb, {0})"
    using breaker_step.enter [of 0 "{}"] by simp
  have s: "breaker_step (cb, {0}) (Succeed 0) (RecordSuccess cb, {})"
    "breaker_step (cb, {0}) (Fail 0 u) (RecordFailure u cb, {})"
    using breaker_step.succeed [of 0 "{0}" cb] breaker_step.fail [of 0 "{0}" cb u] by simp_all
  from True assms(2) consider "b' = RecordSuccess cb" | "b' = RecordFailure u cb" by auto
  then show ?thesis
  proof cases
    case 1
    with breaker_run.step [OF e breaker_run.step [OF s(1) breaker_run.stop]] show ?thesis
      by (intro exI [of _ "[Enter 0 t, Succeed 0]"]) simp
  next
    case 2
    with breaker_run.step [OF e breaker_run.step [OF s(2) breaker_run.stop]] show ?thesis
      by (intro exI [of _ "[Enter 0 t, Fail 0 u]"]) simp
  qed
qed

lemma processProperty_reports:
  assumes "processProperty ctx c src o0 w = Finished o1 w1"
  shows "\<exists>as. list_all reporting as \<and> breaker_run (propertyCB o0, {}) as (propertyCB o1, {})"
proof -
  obtain allowed cb where a: "Allow (clock w) (propertyCB o0) = (allowed, cb)" by fastforce
  obtain err n rec w2 where r: "retry_call ctx DefaultRetryConfig
      (Fetch (propertyClient o0) (c_State c) (c_County c) (c_ParcelID c)) w = ((err, n, rec), w2)"
    by (metis prod.collapse)
  show ?thesis
    by (rule one_caller [OF a, of _ "clock w2"])
      (use assms r in \<open>auto simp: processProperty_def a Let_def set_result_Finished split: option.splits if_splits\<close>)
qed

lemma processCourt_reports:
  assumes "processCourt Background c src o0 w = Finished o1 w1" "rl_live (courtLimiter o0)"
  shows "\<exists>as. list_all reporting as \<and> breaker_run (courtCB o0, {}) as (courtCB o1, {})"
proof -
  obtain allowed cb where a: "Allow (clock w) (courtCB o0) = (allowed, cb)" by fastforce
  obtain t rl where g: "Wait (fst (flip_coin w)) Background (clock w) (courtLimiter o0) = (Granted t, rl)"
    using rls.wait_granted [OF assms(2)] by metis
  obtain coin w2 where f: "flip_coin w = (coin, w2)" by fastforce
  obtain err n rec w3 where r: "retry_call Background DefaultRetryConfig
      (Search (courtClient o0) (the (c_CourtCaseNumber c))) (w2\<lparr>clock := t\<rparr>) = ((err, n, rec), w3)"
    by (metis prod.collapse)
  have g: "Wait coin Background (clock w) (courtLimiter o0) = (Granted t, rl)" using g f by simp
  have "clock w2 = clock w" using flip_coin_facts [of w] f by simp
  then show ?thesis
    by (intro one_caller [OF a, of _ "clock w3"])
      (use assms(1) f g r in \<open>auto simp: processCourt_def a Let_def set_result_Finished split: option.splits if_splits\<close>)
qed

text \<open>SCRA: it may also enter and give up.\<close>

lemma processSCRA_calls:
  assumes "processSCRA ctx c src o0 w = Finished o1 w1"
  shows "\<exists>as. list_all (\<lambda>a. \<forall>t. a \<noteq> Observe t) as \<and> breaker_run (scraCB o0, {}) as (scraCB o1, {})"
proof -
  have weaken: "list_all (\<lambda>a. \<forall>t. a \<noteq> Observe t) as" if "list_all reporting as" for as
    using that by (induction as) (auto simp: reporting_def)
  obtain allowed cb where a: "Allow (clock w) (scraCB o0) = (allowed, cb)" by fastforce
  have alt: "(if allowed then scraCB o1 = RecordSuccess cb \<or> (\<exists>u. scraCB o1 = RecordFailure u cb) else scraCB o1 = cb) \<or>
      allowed \<and> scraCB o1 = cb"
    using assms
    by (auto simp: processSCRA_def a Let_def scra_report_def set_result_Finished
        split: option.splits if_splits prod.splits poll_end.splits)
  show ?thesis
  proof (cases "allowed \<and> scraCB o1 = cb")
    case True
    then have "breaker_run (scraCB o0, {}) [Enter 0 (clock w), Abandon 0] (scraCB o1, {})"
      using a breaker_step.enter [of 0 "{}" "clock w" "scraCB o0" cb] breaker_step.abandon [of 0 "{0}" cb]
      by (auto intro!: breaker_run.intros)
    then show ?thesis by (intro exI [of _ "[Enter 0 (clock w), Abandon 0]"]) simp
  next
    case False
    with alt obtain u where "if allowed then scraCB o1 = RecordSuccess cb \<or> scraCB o1 = RecordFailure u cb
        else scraCB o1 = cb" by (auto split: if_splits)
    from one_caller [OF a this] weaken show ?thesis by blast
  qed
qed

section \<open>One limiter, many waiters\<close>

text \<open>
  The goroutines that wait on the channel of tokens, the bucket, the present, and the grants so
  far with their times. The ticker fires at its times and not later; between two ticks
  goroutines arrive, take a token when there is one, or give up, in any order.
\<close>

record limiter_state =
  ls_rl :: RateLimiter
  ls_now :: time
  ls_waiting :: "nat set"
  ls_grants :: "(time \<times> nat) list"

inductive limiter_step :: "limiter_state \<Rightarrow> limiter_state \<Rightarrow> bool" where
  tick: "limiter_step s (s\<lparr>ls_rl := refill_tick (ls_rl s), ls_now := rl_next_tick (ls_rl s)\<rparr>)"
| pass: "ls_now s \<le> t \<Longrightarrow> t < rl_next_tick (ls_rl s) \<Longrightarrow> limiter_step s (s\<lparr>ls_now := t\<rparr>)"
| arrive: "i \<notin> ls_waiting s \<Longrightarrow> limiter_step s (s\<lparr>ls_waiting := insert i (ls_waiting s)\<rparr>)"
| give_up: "i \<in> ls_waiting s \<Longrightarrow> limiter_step s (s\<lparr>ls_waiting := ls_waiting s - {i}\<rparr>)"
| grant: "i \<in> ls_waiting s \<Longrightarrow> 0 < rl_tokens (ls_rl s) \<Longrightarrow>
    limiter_step s (s\<lparr>ls_rl := take_token (ls_rl s), ls_waiting := ls_waiting s - {i},
      ls_grants := ls_grants s @ [(ls_now s, i)]\<rparr>)"

inductive limiter_run :: "limiter_state \<Rightarrow> limiter_state \<Rightarrow> bool" where
  start: "limiter_run s s"
| more: "limiter_run s s1 \<Longrightarrow> limiter_step s1 s2 \<Longrightarrow> limiter_run s s2"

definition limiter_start :: "RateLimiter \<Rightarrow> time \<Rightarrow> limiter_state" where
  "limiter_start rl now = \<lparr>ls_rl = refill now rl, ls_now = now, ls_waiting = {}, ls_grants = []\<rparr>"

text \<open>
  The grant \<open>n\<close> places before the last, and what the bucket holds, lie \<open>n\<close> intervals and one
  per token before the next tick.
\<close>

definition spaced :: "limiter_state \<Rightarrow> bool" where
  "spaced s \<longleftrightarrow> rl_live (ls_rl s) \<and>
     ls_now s < rl_next_tick (ls_rl s) \<and>
     (\<forall>n < length (ls_grants s).
        fst (rev (ls_grants s) ! n) + (int n + int (rl_tokens (ls_rl s))) * rl_interval (ls_rl s)
          < rl_next_tick (ls_rl s)) \<and>
     (ls_grants s \<noteq> [] \<and> 0 < rl_tokens (ls_rl s) \<longrightarrow> rl_next_tick (ls_rl s) \<le> ls_now s + rl_interval (ls_rl s)) \<and>
     (\<forall>i n. i + n + 1 < length (ls_grants s) \<longrightarrow>
        fst (ls_grants s ! i) + int n * rl_interval (ls_rl s) < fst (ls_grants s ! (i + n + 1)))"

lemma spaced_start: "rl_live rl \<Longrightarrow> spaced (limiter_start rl now)"
  using refill_facts [of rl now] rl_live_refill [of rl now]
  by (simp add: spaced_def limiter_start_def rl_live_def)

lemma spaced_grant:
  assumes s: "spaced s" and tok: "0 < rl_tokens (ls_rl s)"
  shows "spaced (s\<lparr>ls_rl := take_token (ls_rl s), ls_waiting := W, ls_grants := ls_grants s @ [(ls_now s, i)]\<rparr>)"
proof -
  let ?iv = "rl_interval (ls_rl s)" and ?g = "ls_grants s" and ?nt = "rl_next_tick (ls_rl s)"
  let ?g' = "?g @ [(ls_now s, i)]"
  have inv: "rl_live (ls_rl s)" "ls_now s < ?nt" "rl_tokens (ls_rl s) = 1" "0 < ?iv"
    using s tok by (auto simp: spaced_def rl_live_def rl_inv_def)
  have near: "?nt \<le> ls_now s + ?iv" if "?g \<noteq> []" using s tok that by (simp add: spaced_def)
  have bk: "fst (rev ?g ! n) + (int n + 1) * ?iv < ?nt" if "n < length ?g" for n
    using s that inv(3) by (simp add: spaced_def)
  have b': "fst (rev ?g' ! n) + int n * ?iv < ?nt" if n: "n < length ?g'" for n
  proof (cases n)
    case (Suc m)
    with n bk [of m] show ?thesis by (simp add: algebra_simps)
  qed (use inv in simp)
  have "fst (?g' ! j) + int n * ?iv < fst (?g' ! (j + n + 1))" if j: "j + n + 1 < length ?g'" for j n
  proof (cases "j + n + 1 < length ?g")
    case True
    then have "fst (?g ! j) + int n * ?iv < fst (?g ! (j + n + 1))" using s by (simp add: spaced_def)
    with True show ?thesis by (simp add: nth_append)
  next
    case False
    with j have len: "j + n + 1 = length ?g" by simp
    then have "n < length ?g" "?g \<noteq> []" "j < length ?g" by auto
    have "rev ?g ! n = ?g ! j" using len \<open>n < length ?g\<close> by (simp add: rev_nth) (metis add_diff_cancel_right' Suc_eq_plus1 add.commute diff_diff_left)
    with bk [OF \<open>n < length ?g\<close>] near [OF \<open>?g \<noteq> []\<close>] have "fst (?g ! j) + int n * ?iv < ls_now s"
      by (simp add: algebra_simps)
    with len \<open>j < length ?g\<close> show ?thesis by (simp add: nth_append)
  qed
  with inv b' show ?thesis
    by (simp add: spaced_def rl_live_def rl_inv_def)
qed

lemma spaced_tick:
  assumes "spaced s"
  shows "spaced (s\<lparr>ls_rl := refill_tick (ls_rl s), ls_now := rl_next_tick (ls_rl s)\<rparr>)"
proof -
  let ?iv = "rl_interval (ls_rl s)" and ?nt = "rl_next_tick (ls_rl s)" and ?rl = "refill_tick (ls_rl s)"
  have live: "rl_live ?rl" "0 < ?iv"
    using assms by (auto simp: spaced_def rl_live_def rl_inv_def refill_tick_def)
  have tok: "rl_tokens ?rl \<le> rl_tokens (ls_rl s) + 1" by (simp add: refill_tick_def)
  have "fst (rev (ls_grants s) ! n) + (int n + int (rl_tokens ?rl)) * ?iv < ?nt + ?iv"
    if "n < length (ls_grants s)" for n
  proof -
    have "fst (rev (ls_grants s) ! n) + (int n + int (rl_tokens (ls_rl s))) * ?iv < ?nt"
      using assms that by (simp add: spaced_def)
    moreover have "(int n + int (rl_tokens ?rl)) * ?iv \<le> (int n + int (rl_tokens (ls_rl s)) + 1) * ?iv"
      using tok live(2) by (intro mult_right_mono) auto
    ultimately show ?thesis by (simp add: algebra_simps)
  qed
  with assms live show ?thesis by (simp add: spaced_def)
qed

lemma spaced_step:
  assumes "limiter_step s s'" "spaced s"
  shows "spaced s'"
  using assms
proof (cases rule: limiter_step.cases)
  case tick
  with assms(2) spaced_tick show ?thesis by simp
next
  case (grant i)
  with assms(2) spaced_grant show ?thesis by simp
qed (auto simp: spaced_def)

lemma spaced_run: "limiter_run s s' \<Longrightarrow> spaced s \<Longrightarrow> spaced s'"
  by (induction rule: limiter_run.induct) (auto intro: spaced_step)

lemma limiter_run_interval: "limiter_run s s' \<Longrightarrow> rl_interval (ls_rl s') = rl_interval (ls_rl s)"
  by (induction rule: limiter_run.induct) (auto elim!: limiter_step.cases)

lemma limiter_start_interval: "rl_live rl \<Longrightarrow> rl_interval (ls_rl (limiter_start rl now)) = rl_interval rl"
  using refill_facts [of rl now] by (simp add: limiter_start_def rl_live_def)

text \<open>Spaced values, counted in a window.\<close>

lemma spaced_window:
  fixes f :: "nat \<Rightarrow> int"
  assumes sp: "\<And>i n. i + n + 1 < m \<Longrightarrow> f i + int n * d < f (i + n + 1)" and d: "0 < d" "0 \<le> L"
  shows "int (card {k. k < m \<and> t0 \<le> f k \<and> f k \<le> t0 + L}) \<le> L div d + 2"
proof (cases "{k. k < m \<and> t0 \<le> f k \<and> f k \<le> t0 + L} = {}")
  case True
  with d show ?thesis unfolding True by (simp add: pos_imp_zdiv_nonneg_iff)
next
  case False
  let ?S = "{k. k < m \<and> t0 \<le> f k \<and> f k \<le> t0 + L}"
  have fin: "finite ?S" by simp
  define i j where "i = Min ?S" and "j = Max ?S"
  have ij: "i \<in> ?S" "j \<in> ?S" unfolding i_def j_def by (rule Min_in [OF fin False], rule Max_in [OF fin False])
  then have "i \<le> j" unfolding i_def using Min_le [OF fin] by blast
  have "?S \<subseteq> {i..j}" unfolding i_def j_def using Min_le [OF fin] Max_ge [OF fin] by auto
  then have card: "card ?S \<le> Suc j - i" by (metis card_atLeastAtMost card_mono finite_atLeastAtMost)
  have L0: "0 \<le> L div d" using d by (simp add: pos_imp_zdiv_nonneg_iff)
  show ?thesis
  proof (cases "i = j")
    case True
    with card L0 show ?thesis by simp
  next
    case ne: False
    with \<open>i \<le> j\<close> obtain n where n: "j = i + n + 1" by (metis Suc_eq_plus1 add_Suc_right le_neq_implies_less less_imp_Suc_add)
    with sp [of i n] ij have "int n * d < f j - f i" by simp
    with ij have "int n * d \<le> L" by simp
    then have "int n \<le> L div d" using d(1) by (metis nonzero_mult_div_cancel_right order_less_irrefl zdiv_mono1)
    with card n show ?thesis by simp
  qed
qed

section \<open>Properties\<close>

text \<open>
  Claim C23. Callers that always report, any number of them in any order, cannot wedge a breaker:
  whenever it is half-open its probe is under way; those under way can always report; and once
  none is, the breaker lets the next caller in as soon as the cooldown is over. By
  \<open>processProperty_reports\<close> and \<open>processCourt_reports\<close> the property and court processors are
  such callers; the SCRA processor and the health endpoint are not.
\<close>

theorem reporting_callers_never_wedge:
  assumes "cb_state b0 \<noteq> CBHalfOpen" "breaker_run (b0, {}) as (b, F)" "list_all reporting as"
  shows "(cb_state b = CBHalfOpen \<longrightarrow> F \<noteq> {}) \<and>
    (\<exists>bs b'. list_all reporting bs \<and> breaker_run (b, F) bs (b', {})) \<and>
    (\<forall>bs b' t. list_all reporting bs \<and> breaker_run (b, F) bs (b', {}) \<and> openedAt b' + cooldown b' \<le> t \<longrightarrow>
       fst (Allow t b'))"
proof -
  have inv: "probe_inv (b, F)" using probe_inv_run [OF assms(2,3)] assms(1) by (simp add: probe_inv_def)
  have "finite F"
  proof -
    have "finite (snd s) \<Longrightarrow> finite (snd s')" if "breaker_run s as s'" for s s' as
      using that by (induction rule: breaker_run.induct) (auto elim!: breaker_step.cases)
    from this [OF assms(2)] show ?thesis by simp
  qed
  then obtain "is" where "distinct is" "set is = F" using finite_distinct_list by metis
  from all_report [OF this] obtain b1 where "breaker_run (b, F) (map Succeed is) (b1, {})" by blast
  moreover have "list_all reporting (map Succeed is)" by (simp add: list_all_iff)
  moreover have "fst (Allow t b')" if "list_all reporting bs" "breaker_run (b, F) bs (b', {})" "openedAt b' + cooldown b' \<le> t"
    for bs b' t
    using probe_inv_run [OF that(2,1) inv] that(3) by (intro not_half_open_grants) (auto simp: probe_inv_def)
  ultimately show ?thesis using inv by (auto simp: probe_inv_def)
qed

theorem reporting_callers_never_wedge_witness:
  "\<exists>b F. breaker_run (NewCircuitBreaker ''scra'' 1 30, {}) [Enter 1 0, Fail 1 5, Enter 2 40] (b, F) \<and>
     cb_state b = CBHalfOpen \<and> F \<noteq> {}"
proof -
  let ?b = "NewCircuitBreaker ''scra'' 1 30"
  have r: "breaker_run (?b, {}) [Enter 1 0, Fail 1 5, Enter 2 40]
      ((RecordFailure 5 ?b)\<lparr>cb_state := CBHalfOpen\<rparr>, {2})"
    using breaker_step.enter [of 1 "{}" 0 ?b ?b] breaker_step.fail [of 1 "{1}" ?b 5]
      breaker_step.enter [of 2 "{}" 40 "RecordFailure 5 ?b" "(RecordFailure 5 ?b)\<lparr>cb_state := CBHalfOpen\<rparr>"]
    by (auto intro!: breaker_run.intros simp: Allow_def RecordFailure_def NewCircuitBreaker_def Let_def)
  have "cb_state ?b \<noteq> CBHalfOpen" by (simp add: NewCircuitBreaker_def)
  from reporting_callers_never_wedge [OF this r] r show ?thesis by fastforce
qed

text \<open>
  A report counts for whatever state the breaker is in by then: a caller let through before the
  breaker opened, and slow enough, closes it with its success while the probe is still under way,
  and the failure of the probe is then one failure of a closed breaker.
\<close>

lemma older_report_decides:
  "\<exists>b. breaker_run (NewCircuitBreaker ''scra'' 2 30, {})
     [Enter 1 0, Enter 2 0, Enter 3 0, Fail 2 5, Fail 3 6, Enter 4 40, Succeed 1, Fail 4 45] (b, {}) \<and>
     cb_state b = CBClosed"
proof -
  let ?b = "NewCircuitBreaker ''scra'' 2 30"
  let ?f = "RecordFailure 6 (RecordFailure 5 ?b)"
  let ?h = "?f\<lparr>cb_state := CBHalfOpen\<rparr>"
  have enter: "breaker_step (b, F) (Enter i t) (b', insert i F)" if "i \<notin> F" "Allow t b = (True, b')" for b b' F i t
    using that by (rule breaker_step.enter)
  have grants: "Allow 0 ?b = (True, ?b)" "Allow 40 ?f = (True, ?h)"
    by (simp_all add: Allow_def RecordFailure_def NewCircuitBreaker_def Let_def)
  have f: "breaker_step (b, F) (Fail i t) (RecordFailure t b, G)" if "i \<in> F" "G = F - {i}" for b F G i t
    using that breaker_step.fail by simp
  have ok: "breaker_step (b, F) (Succeed i) (RecordSuccess b, G)" if "i \<in> F" "G = F - {i}" for b F G i
    using that breaker_step.succeed by simp
  have "breaker_run (?b, {})
     [Enter 1 0, Enter 2 0, Enter 3 0, Fail 2 5, Fail 3 6, Enter 4 40, Succeed 1, Fail 4 45]
     (RecordFailure 45 (RecordSuccess ?h), {})"
    by (rule breaker_run.step [OF enter [OF _ grants(1)]], (auto)[1],
        rule breaker_run.step [OF enter [OF _ grants(1)]], (auto)[1],
        rule breaker_run.step [OF enter [OF _ grants(1)]], (auto)[1],
        rule breaker_run.step [OF f [where G = "{1, 3}"]], (auto)[1], (auto)[1],
        rule breaker_run.step [OF f [where G = "{1}"]], (auto)[1], (auto)[1],
        rule breaker_run.step [OF enter [OF _ grants(2)]], (auto)[1],
        rule breaker_run.step [OF ok [where G = "{4}"]], (auto)[1], (auto)[1],
        rule breaker_run.step [OF f [where G = "{}"]], (auto)[1], (auto)[1], rule breaker_run.stop)
  then show ?thesis by (auto simp: RecordFailure_def RecordSuccess_def NewCircuitBreaker_def Let_def)
qed

text \<open>
  Claim C24. The limiter paces all goroutines together: in whatever order any number of them arrive,
  take tokens and give up, a window of length \<open>L\<close> sees at most \<open>L\<close> divided by the interval, plus
  two, grants (so the court limiter with its half second lets up to four start within a closed
  second), and a goroutine that waits can be granted at the next tick at the latest.
\<close>

theorem limiter_paces_all:
  assumes "rl_live rl" "limiter_run (limiter_start rl now) s"
  shows "(0 \<le> L \<longrightarrow>
      int (length (filter (\<lambda>(t, i). t0 \<le> t \<and> t \<le> t0 + L) (ls_grants s))) \<le> L div rl_interval rl + 2) \<and>
    (\<forall>i \<in> ls_waiting s. \<exists>s' t. limiter_run s s' \<and> t \<le> rl_next_tick (ls_rl s) \<and>
       ls_grants s' = ls_grants s @ [(t, i)])"
proof -
  have sp: "spaced s" by (rule spaced_run [OF assms(2) spaced_start [OF assms(1)]])
  have iv: "rl_interval (ls_rl s) = rl_interval rl" "0 < rl_interval rl"
    using limiter_run_interval [OF assms(2)] limiter_start_interval [OF assms(1)] assms(1)
    by (simp_all add: rl_live_def rl_inv_def)
  have "int (length (filter (\<lambda>(t, i). t0 \<le> t \<and> t \<le> t0 + L) (ls_grants s))) \<le> L div rl_interval rl + 2" if "0 \<le> L"
    using spaced_window [of "length (ls_grants s)" "\<lambda>k. fst (ls_grants s ! k)" "rl_interval rl" L t0] sp iv that
    by (simp add: length_filter_conv_card spaced_def split_beta)
  moreover have "\<exists>s' t. limiter_run s s' \<and> t \<le> rl_next_tick (ls_rl s) \<and> ls_grants s' = ls_grants s @ [(t, i)]"
    if i: "i \<in> ls_waiting s" for i
  proof (cases "0 < rl_tokens (ls_rl s)")
    case True
    note g = limiter_run.more [OF limiter_run.start limiter_step.grant [OF i True]]
    have "ls_now s \<le> rl_next_tick (ls_rl s)" using sp by (simp add: spaced_def)
    with g show ?thesis
      by (intro exI [of _ "s\<lparr>ls_rl := take_token (ls_rl s), ls_waiting := ls_waiting s - {i},
          ls_grants := ls_grants s @ [(ls_now s, i)]\<rparr>"] exI [of _ "ls_now s"]) simp
  next
    case False
    let ?s = "s\<lparr>ls_rl := refill_tick (ls_rl s), ls_now := rl_next_tick (ls_rl s)\<rparr>"
    have "i \<in> ls_waiting ?s" "0 < rl_tokens (ls_rl ?s)" using i False by (simp_all add: refill_tick_def)
    note g = limiter_run.more [OF limiter_run.more [OF limiter_run.start limiter_step.tick] limiter_step.grant [OF this]]
    then show ?thesis
      by (intro exI [of _ "?s\<lparr>ls_rl := take_token (ls_rl ?s), ls_waiting := ls_waiting s - {i},
          ls_grants := ls_grants s @ [(rl_next_tick (ls_rl s), i)]\<rparr>"] exI [of _ "rl_next_tick (ls_rl s)"]) simp
  qed
  ultimately show ?thesis by blast
qed

theorem limiter_paces_all_witness:
  "\<exists>s. limiter_run (limiter_start \<lparr>rl_interval = 5, rl_next_tick = 5, rl_tokens = 1, rl_stopped = False\<rparr> 4) s \<and>
     map fst (ls_grants s) = [4, 5] \<and>
     int (length (filter (\<lambda>(t, i). 4 \<le> t \<and> t \<le> 4 + 3) (ls_grants s))) \<le> 3 div 5 + 2"
proof -
  let ?rl = "\<lambda>n k. \<lparr>rl_interval = 5, rl_next_tick = n, rl_tokens = k, rl_stopped = False\<rparr>"
  let ?s = "\<lambda>n k t W g. \<lparr>ls_rl = ?rl n k, ls_now = t, ls_waiting = W, ls_grants = g\<rparr>"
  have rl: "rl_live (?rl 5 1)" by (simp add: rl_live_def rl_inv_def)
  have s0: "limiter_start (?rl 5 1) 4 = ?s 5 1 4 {} []"
    by (simp add: limiter_start_def refill.simps)
  have steps: "limiter_step (?s 5 1 4 {} []) (?s 5 1 4 {1} [])" "limiter_step (?s 5 1 4 {1} []) (?s 5 0 4 {} [(4, 1)])"
    "limiter_step (?s 5 0 4 {} [(4, 1)]) (?s 10 1 5 {} [(4, 1)])" "limiter_step (?s 10 1 5 {} [(4, 1)]) (?s 10 1 5 {2} [(4, 1)])"
    "limiter_step (?s 10 1 5 {2} [(4, 1)]) (?s 10 0 5 {} [(4, 1), (5, 2)])"
    using limiter_step.arrive [of 1 "?s 5 1 4 {} []"] limiter_step.tick [of "?s 5 0 4 {} [(4, 1)]"]
      limiter_step.grant [of 1 "?s 5 1 4 {1} []"] limiter_step.arrive [of 2 "?s 10 1 5 {} [(4, 1)]"]
      limiter_step.grant [of 2 "?s 10 1 5 {2} [(4, 1)]"]
    by (simp_all add: refill_tick_def take_token_def)
  have run: "limiter_run (limiter_start (?rl 5 1) 4) (?s 10 0 5 {} [(4, 1), (5, 2)])"
    unfolding s0
    by (rule limiter_run.more [OF limiter_run.more [OF limiter_run.more [OF limiter_run.more [OF limiter_run.more
      [OF limiter_run.start steps(1)] steps(2)] steps(3)] steps(4)] steps(5)])
  from limiter_paces_all [OF rl run, of 3 4] run show ?thesis
    by (intro exI [of _ "?s 10 0 5 {} [(4, 1), (5, 2)]"]) simp
qed

end
