(* ===== verification/MockData.thy ===== *)
theory MockData
  imports PropertyClient CourtClient ScraClient
begin

text \<open>
  The records the mock services of \<^verbatim>\<open>mock-services/main.go\<close> answer with. The types are those
  of the clients, field by field. A Go map is an association list with distinct keys; a field
  that a literal leaves out has its zero value. The apostrophe is written as its code.
\<close>

definition propertyData :: "(string \<times> PropertyRecord) list" where
  "propertyData =
    [(''il:cook:14-28-322-001-0000'',
      \<lparr>pr_ParcelID = ''14-28-322-001-0000'',
        pr_County = ''Cook'',
        pr_State = ''IL'',
        pr_Address = ''1422 W Diversey Pkwy, Chicago, IL 60614'',
        pr_Owner = \<lparr>ow_Name = ''Elena Martinez'',
            ow_VestingType = ''Fee Simple'',
            ow_DeedDate = ''2019-06-15'',
            ow_DeedType = ''Warranty Deed'',
            ow_Instrument = ''2019R0567890''\<rparr>,
        pr_Liens = Some
          [\<lparr>li_Position = 1,
              li_Type = ''Mortgage'',
              li_Holder = ''JPMorgan Chase Bank, N.A.'',
              li_Amount = 385000,
              li_RecordedDate = ''2019-06-15'',
              li_Instrument = ''2019R0567891'',
              li_Status = ''Active''\<rparr>,
           \<lparr>li_Position = 2,
              li_Type = ''HOA Lien'',
              li_Holder = ''Diversey Park HOA'',
              li_Amount = 2150,
              li_RecordedDate = ''2025-11-03'',
              li_Instrument = ''2025R0892341'',
              li_Status = ''Active''\<rparr>],
        pr_TaxStatus = \<lparr>tx_Year = 2025,
            tx_Status = ''Current'',
            tx_Amount = 6240,
            tx_ParcelNumber = ''14-28-322-001-0000''\<rparr>,
        pr_LegalDescription = (''LOT 14 IN BLOCK 3 OF SHEFFIELD'' @ [CHR 0x27] @ ''S ADDITION TO CHICAGO IN THE SE 1/4 OF SECTION 28, TOWNSHIP 40 NORTH, RANGE 14 EAST OF THE THIRD PRINCIPAL MERIDIAN, COOK COUNTY, ILLINOIS''),
        pr_Easements = Some [''ComEd utility easement (Book 12045, Page 223)''],
        pr_LastUpdated = ''2026-03-15T14:30:00Z''\<rparr>),
     (''fl:miami-dade:30-4017-001-0290'',
      \<lparr>pr_ParcelID = ''30-4017-001-0290'',
        pr_County = ''Miami-Dade'',
        pr_State = ''FL'',
        pr_Address = ''8830 SW 142nd St, Miami, FL 33176'',
        pr_Owner = \<lparr>ow_Name = ''David R. Thompson'',
            ow_VestingType = ''Fee Simple'',
            ow_DeedDate = ''2020-03-10'',
            ow_DeedType = ''Warranty Deed'',
            ow_Instrument = ''CFN2020R0234567''\<rparr>,
        pr_Liens = Some
          [\<lparr>li_Position = 1,
              li_Type = ''Mortgage'',
              li_Holder = ''Wells Fargo Bank, N.A.'',
              li_Amount = 520000,
              li_RecordedDate = ''2020-03-10'',
              li_Instrument = ''CFN2020R0234568'',
              li_Status = ''Active''\<rparr>,
           \<lparr>li_Position = 2,
              li_Type = ''Assignment of Mortgage'',
              li_Holder = ''Nationstar Mortgage LLC d/b/a Mr. Cooper'',
              li_Amount = 520000,
              li_RecordedDate = ''2025-09-14'',
              li_Instrument = ''CFN2025R0891234'',
              li_Status = ''Active''\<rparr>,
           \<lparr>li_Position = 3,
              li_Type = ''HOA Lis Pendens'',
              li_Holder = ''Palmetto Bay Homeowners Association, Inc.'',
              li_Amount = 3420,
              li_RecordedDate = ''2026-01-22'',
              li_Instrument = ''CFN2026R0034567'',
              li_Status = ''Active''\<rparr>],
        pr_TaxStatus = \<lparr>tx_Year = 2025,
            tx_Status = ''Delinquent'',
            tx_Amount = 8247,
            tx_ParcelNumber = ''30-4017-001-0290''\<rparr>,
        pr_LegalDescription = ''LOT 29, BLOCK 1, OF PALMETTO BAY ESTATES, ACCORDING TO THE PLAT THEREOF, RECORDED IN PLAT BOOK 87, PAGE 44, OF THE PUBLIC RECORDS OF MIAMI-DADE COUNTY, FLORIDA'',
        pr_Easements = Some [''FPL electrical transmission easement (O.R. Book 18924, Page 445)'', ''Drainage easement to Miami-Dade County (O.R. Book 19102, Page 112)''],
        pr_LastUpdated = ''2026-03-12T09:15:00Z''\<rparr>),
     (''tx:harris:61-42-0100-0034'',
      \<lparr>pr_ParcelID = ''61-42-0100-0034'',
        pr_County = ''Harris'',
        pr_State = ''TX'',
        pr_Address = ''4501 Kingwood Dr, Kingwood, TX 77345'',
        pr_Owner = \<lparr>ow_Name = ''Thanh Nguyen and Linh Nguyen'',
            ow_VestingType = ''Community Property'',
            ow_DeedDate = ''2021-01-20'',
            ow_DeedType = ''General Warranty Deed'',
            ow_Instrument = ''RP-2021-045678''\<rparr>,
        pr_Liens = Some
          [\<lparr>li_Position = 1,
              li_Type = ''Deed of Trust'',
              li_Holder = ''Nationstar Mortgage LLC d/b/a Mr. Cooper'',
              li_Amount = 310000,
              li_RecordedDate = ''2021-01-20'',
              li_Instrument = ''RP-2021-045679'',
              li_Status = ''Active''\<rparr>],
        pr_TaxStatus = \<lparr>tx_Year = 2025,
            tx_Status = ''Current'',
            tx_Amount = 5890,
            tx_ParcelNumber = ''61-42-0100-0034''\<rparr>,
        pr_LegalDescription = ''LOT 34, BLOCK 1, OF KINGWOOD SECTION 42, A SUBDIVISION IN HARRIS COUNTY, TEXAS, ACCORDING TO THE MAP RECORDED IN VOLUME 254, PAGE 18, OF THE MAP RECORDS OF HARRIS COUNTY, TEXAS'',
        pr_Easements = Some [''CenterPoint Energy easement (Vol. 301, Pg. 89)''],
        pr_LastUpdated = ''2026-03-10T11:00:00Z''\<rparr>),
     (''ny:kings:00945-0012-0001'',
      \<lparr>pr_ParcelID = ''00945-0012-0001'',
        pr_County = ''Kings'',
        pr_State = ''NY'',
        pr_Address = ''482 Atlantic Ave, Brooklyn, NY 11217'',
        pr_Owner = \<lparr>ow_Name = ''Marcus D. Johnson'',
            ow_VestingType = ''Fee Simple'',
            ow_DeedDate = ''2022-05-12'',
            ow_DeedType = ''Bargain and Sale Deed'',
            ow_Instrument = ''CRFN2022000345678''\<rparr>,
        pr_Liens = Some
          [\<lparr>li_Position = 1,
              li_Type = ''Mortgage'',
              li_Holder = ''JPMorgan Chase Bank, N.A.'',
              li_Amount = 675000,
              li_RecordedDate = ''2022-05-12'',
              li_Instrument = ''CRFN2022000345679'',
              li_Status = ''Active''\<rparr>,
           \<lparr>li_Position = 2,
              li_Type = (''Mechanic'' @ [CHR 0x27] @ ''s Lien''),
              li_Holder = ''Brooklyn Renovations LLC'',
              li_Amount = 28500,
              li_RecordedDate = ''2025-08-19'',
              li_Instrument = ''CRFN2025000789012'',
              li_Status = ''Active''\<rparr>],
        pr_TaxStatus = \<lparr>tx_Year = 2025,
            tx_Status = ''Current'',
            tx_Amount = 11420,
            tx_ParcelNumber = ''00945-0012-0001''\<rparr>,
        pr_LegalDescription = ''ALL THAT CERTAIN PLOT, PIECE OR PARCEL OF LAND, SITUATE, LYING AND BEING IN THE BOROUGH OF BROOKLYN, COUNTY OF KINGS, CITY AND STATE OF NEW YORK, BLOCK 945, LOT 12'',
        pr_Easements = Some [''Con Edison utility easement''],
        pr_LastUpdated = ''2026-03-08T16:45:00Z''\<rparr>),
     (''oh:cuyahoga:004-14-097'',
      \<lparr>pr_ParcelID = ''004-14-097'',
        pr_County = ''Cuyahoga'',
        pr_State = ''OH'',
        pr_Address = ''3847 Pearl Rd, Cleveland, OH 44109'',
        pr_Owner = \<lparr>ow_Name = ''Sarah J. Williams'',
            ow_VestingType = ''Fee Simple'',
            ow_DeedDate = ''2018-09-28'',
            ow_DeedType = ''Warranty Deed'',
            ow_Instrument = ''201809280456''\<rparr>,
        pr_Liens = Some
          [\<lparr>li_Position = 1,
              li_Type = ''Mortgage'',
              li_Holder = ''Wells Fargo Bank, N.A.'',
              li_Amount = 195000,
              li_RecordedDate = ''2018-09-28'',
              li_Instrument = ''201809280457'',
              li_Status = ''Active''\<rparr>,
           \<lparr>li_Position = 2,
              li_Type = ''State Tax Lien'',
              li_Holder = ''Ohio Department of Taxation'',
              li_Amount = 4310,
              li_RecordedDate = ''2025-06-15'',
              li_Instrument = ''202506150891'',
              li_Status = ''Active''\<rparr>],
        pr_TaxStatus = \<lparr>tx_Year = 2025,
            tx_Status = ''Tax Sale Pending'',
            tx_Amount = 6720,
            tx_ParcelNumber = ''004-14-097''\<rparr>,
        pr_LegalDescription = ''SUBLOT NO. 97, IN PARCEL 14, IN THE CITY OF CLEVELAND, COUNTY OF CUYAHOGA, STATE OF OHIO, AS SHOWN ON THE RECORDED PLAT IN VOLUME 4, PAGE 29'',
        pr_Easements = Some [''FirstEnergy utility easement (Vol. 892, Pg. 34)''],
        pr_LastUpdated = ''2026-03-14T08:20:00Z''\<rparr>)]"

definition courtData :: "(string \<times> CourtRecord) list" where
  "courtData =
    [(''2026-CA-003891'',
      \<lparr>cr_XMLName = ([], []),
        cr_CaseNumber = ''2026-CA-003891'',
        cr_Court = ''Circuit Court of Miami-Dade County, 11th Judicial Circuit'',
        cr_Division = ''Civil'',
        cr_Judge = ''Hon. Patricia Navarro'',
        cr_FilingDate = ''2025-11-20'',
        cr_CaseType = ''Foreclosure'',
        cr_Status = ''Active'',
        cr_Message = [],
        cr_Parties = Some \<lparr>pa_Plaintiff = ''Wells Fargo Bank, N.A.'',
            pa_Defendant = ''David R. Thompson''\<rparr>,
        cr_Filings = Some \<lparr>fl_Items = Some
          [\<lparr>fi_Type = ''Complaint'',
              fi_FiledDate = ''2025-11-20'',
              fi_DocumentNumber = ''2025-CI-28934''\<rparr>,
           \<lparr>fi_Type = ''Lis Pendens'',
              fi_FiledDate = ''2025-11-20'',
              fi_DocumentNumber = ''2025-CI-28935''\<rparr>,
           \<lparr>fi_Type = ''Summons'',
              fi_FiledDate = ''2025-11-21'',
              fi_DocumentNumber = ''2025-CI-28980''\<rparr>]\<rparr>,
        cr_NextHearing = Some \<lparr>he_Date = ''2026-04-22'',
            he_Time = ''10:00'',
            he_Type = ''Case Management Conference'',
            he_Courtroom = ''5-3''\<rparr>\<rparr>),
     (''2025-CV-18734'',
      \<lparr>cr_XMLName = ([], []),
        cr_CaseNumber = ''2025-CV-18734'',
        cr_Court = ''District Court of Harris County, 133rd Judicial District'',
        cr_Division = ''Civil'',
        cr_Judge = ''Hon. James K. Whitfield'',
        cr_FilingDate = ''2025-06-10'',
        cr_CaseType = ''Foreclosure - Non-Judicial'',
        cr_Status = ''Active'',
        cr_Message = [],
        cr_Parties = Some \<lparr>pa_Plaintiff = ''Nationstar Mortgage LLC d/b/a Mr. Cooper'',
            pa_Defendant = ''Thanh Nguyen and Linh Nguyen''\<rparr>,
        cr_Filings = Some \<lparr>fl_Items = Some
          [\<lparr>fi_Type = ''Notice of Default'',
              fi_FiledDate = ''2025-06-10'',
              fi_DocumentNumber = ''HC-2025-0891234''\<rparr>,
           \<lparr>fi_Type = ''Notice of Substitute Trustee Sale'',
              fi_FiledDate = ''2025-12-15'',
              fi_DocumentNumber = ''HC-2025-1203456''\<rparr>,
           \<lparr>fi_Type = ''Affidavit of Mailing'',
              fi_FiledDate = ''2025-12-16'',
              fi_DocumentNumber = ''HC-2025-1203457''\<rparr>]\<rparr>,
        cr_NextHearing = None\<rparr>),
     (''2025-FC-11023'',
      \<lparr>cr_XMLName = ([], []),
        cr_CaseNumber = ''2025-FC-11023'',
        cr_Court = ''Supreme Court of the State of New York, Kings County'',
        cr_Division = ''Foreclosure'',
        cr_Judge = ''Hon. Maria E. Ortiz'',
        cr_FilingDate = ''2025-07-22'',
        cr_CaseType = ''Residential Mortgage Foreclosure'',
        cr_Status = ''Active'',
        cr_Message = [],
        cr_Parties = Some \<lparr>pa_Plaintiff = ''JPMorgan Chase Bank, N.A.'',
            pa_Defendant = ''Marcus D. Johnson''\<rparr>,
        cr_Filings = Some \<lparr>fl_Items = Some
          [\<lparr>fi_Type = ''Summons and Complaint'',
              fi_FiledDate = ''2025-07-22'',
              fi_DocumentNumber = ''KFC-2025-07891''\<rparr>,
           \<lparr>fi_Type = ''Notice of Pendency'',
              fi_FiledDate = ''2025-07-22'',
              fi_DocumentNumber = ''KFC-2025-07892''\<rparr>,
           \<lparr>fi_Type = ''RPAPL 1303 Notice'',
              fi_FiledDate = ''2025-07-23'',
              fi_DocumentNumber = ''KFC-2025-07901''\<rparr>,
           \<lparr>fi_Type = ''Affidavit of Service'',
              fi_FiledDate = ''2025-08-15'',
              fi_DocumentNumber = ''KFC-2025-08234''\<rparr>]\<rparr>,
        cr_NextHearing = Some \<lparr>he_Date = ''2026-05-10'',
            he_Time = ''09:30'',
            he_Type = ''Settlement Conference'',
            he_Courtroom = ''Room 456''\<rparr>\<rparr>),
     (''2025-FC-09876'',
      \<lparr>cr_XMLName = ([], []),
        cr_CaseNumber = ''2025-FC-09876'',
        cr_Court = ''District Court of Dallas County, 160th Judicial District'',
        cr_Division = ''Civil'',
        cr_Judge = ''Hon. Robert C. Benavides'',
        cr_FilingDate = ''2025-08-05'',
        cr_CaseType = ''Foreclosure'',
        cr_Status = ''Active'',
        cr_Message = [],
        cr_Parties = Some \<lparr>pa_Plaintiff = ''Wells Fargo Bank, N.A.'',
            pa_Defendant = ''Vikram Patel''\<rparr>,
        cr_Filings = Some \<lparr>fl_Items = Some
          [\<lparr>fi_Type = ''Original Petition'',
              fi_FiledDate = ''2025-08-05'',
              fi_DocumentNumber = ''DC-2025-45678''\<rparr>,
           \<lparr>fi_Type = ''Citation'',
              fi_FiledDate = ''2025-08-06'',
              fi_DocumentNumber = ''DC-2025-45679''\<rparr>]\<rparr>,
        cr_NextHearing = Some \<lparr>he_Date = ''2026-04-15'',
            he_Time = ''14:00'',
            he_Type = ''Status Conference'',
            he_Courtroom = ''Courtroom 3B''\<rparr>\<rparr>)]"

definition scraData :: "(string \<times> SCRAResult) list" where
  "scraData =
    [(''martinez'',
      \<lparr>sr_ActiveDuty = False,
        sr_LastName = ''Martinez'',
        sr_FirstName = ''Elena'',
        sr_SearchDate = ''2026-03-16'',
        sr_CertificateURL = None\<rparr>),
     (''thompson'',
      \<lparr>sr_ActiveDuty = False,
        sr_LastName = ''Thompson'',
        sr_FirstName = ''David'',
        sr_SearchDate = ''2026-03-16'',
        sr_CertificateURL = None\<rparr>),
     (''nguyen'',
      \<lparr>sr_ActiveDuty = False,
        sr_LastName = ''Nguyen'',
        sr_FirstName = ''Thanh'',
        sr_SearchDate = ''2026-03-16'',
        sr_CertificateURL = None\<rparr>),
     (''johnson'',
      \<lparr>sr_ActiveDuty = True,
        sr_LastName = ''Johnson'',
        sr_FirstName = ''Marcus'',
        sr_SearchDate = ''2026-03-16'',
        sr_CertificateURL = Some ''https://scra.dmdc.osd.mil/cert/SCRA-2026-0322-JM''\<rparr>),
     (''williams'',
      \<lparr>sr_ActiveDuty = False,
        sr_LastName = ''Williams'',
        sr_FirstName = ''Sarah'',
        sr_SearchDate = ''2026-03-16'',
        sr_CertificateURL = None\<rparr>),
     (''patel'',
      \<lparr>sr_ActiveDuty = False,
        sr_LastName = ''Patel'',
        sr_FirstName = ''Vikram'',
        sr_SearchDate = ''2026-03-16'',
        sr_CertificateURL = None\<rparr>)]"

text \<open>The keys are distinct, and the integers fit in 64 bits.\<close>

lemma mock_keys_distinct:
  "distinct (map fst propertyData)" "distinct (map fst courtData)" "distinct (map fst scraData)"
  by code_simp+

lemma propertyData_ints: "list_all (\<lambda>x. property_ints_ok (snd x)) propertyData"
  by (simp add: propertyData_def property_ints_ok_def int64_def)

end
