(* ===== verification/MockServices.thy ===== *)
theory MockServices
  imports MockData
begin

text \<open>
  The configuration of the mock services and the first two of them, the property and the court
  service of \<^verbatim>\<open>mock-services/main.go\<close>, as functions from a request and the service's own state
  to the response. Every random draw is an argument, and so is the clock. \<open>ParseFloat\<close> stands
  for \<^verbatim>\<open>strconv.ParseFloat\<close>. Letter case is that of ASCII. A response with a delay is sent
  after it. The path of a request is decoded and clean: \<^verbatim>\<open>ServeMux\<close> redirects any other before
  a handler sees it.
\<close>

section \<open>Configuration\<close>

record config =
  PropertyFailRate :: rat
  PropertySlowRate :: rat
  CourtRateLimit :: int
  CourtCorruptRate :: rat
  SCRAFailRate :: rat
  SCRAMinDelay :: int
  SCRAMaxDelay :: int

definition is_digit :: "char \<Rightarrow> bool" where
  "is_digit c \<longleftrightarrow> (let n = (of_char c :: nat) in 48 \<le> n \<and> n \<le> 57)"

definition digits_value :: "string \<Rightarrow> int" where
  "digits_value s = foldl (\<lambda>n c. 10 * n + (of_char c - 48)) 0 s"

text \<open>\<^verbatim>\<open>strconv.Atoi\<close>.\<close>

definition Atoi :: "string \<Rightarrow> int option" where
  "Atoi s =
     (let (neg, ds) = (case s of
           c # cs \<Rightarrow> if c = CHR ''-'' then (True, cs) else if c = CHR ''+'' then (False, cs) else (False, s)
         | [] \<Rightarrow> (False, [])) in
      if ds = [] \<or> \<not> list_all is_digit ds then None
      else
        (let n = (if neg then - digits_value ds else digits_value ds) in
         if int64 n then Some n else None))"

definition envFloat :: "(string \<Rightarrow> rat option) \<Rightarrow> (string \<Rightarrow> string) \<Rightarrow> string \<Rightarrow> rat \<Rightarrow> rat" where
  "envFloat ParseFloat env key defaultVal =
     (if env key \<noteq> [] then (case ParseFloat (env key) of Some f \<Rightarrow> f | None \<Rightarrow> defaultVal) else defaultVal)"

definition envInt :: "(string \<Rightarrow> string) \<Rightarrow> string \<Rightarrow> int \<Rightarrow> int" where
  "envInt env key defaultVal =
     (if env key \<noteq> [] then (case Atoi (env key) of Some i \<Rightarrow> i | None \<Rightarrow> defaultVal) else defaultVal)"

definition loadConfig :: "(string \<Rightarrow> rat option) \<Rightarrow> (string \<Rightarrow> string) \<Rightarrow> config" where
  "loadConfig ParseFloat env =
     \<lparr>PropertyFailRate = envFloat ParseFloat env ''PROPERTY_FAIL_RATE'' (25 / 100),
      PropertySlowRate = envFloat ParseFloat env ''PROPERTY_SLOW_RATE'' (10 / 100),
      CourtRateLimit = envInt env ''COURT_RATE_LIMIT'' 2,
      CourtCorruptRate = envFloat ParseFloat env ''COURT_CORRUPT_RATE'' (3 / 100),
      SCRAFailRate = envFloat ParseFloat env ''SCRA_FAIL_RATE'' (10 / 100),
      SCRAMinDelay = envInt env ''SCRA_MIN_DELAY'' 2,
      SCRAMaxDelay = envInt env ''SCRA_MAX_DELAY'' 5\<rparr>"

section \<open>Helpers\<close>

text \<open>\<^verbatim>\<open>http.Error\<close>, and the answer of a mux that knows no pattern for the path.\<close>

definition http_Error :: "string \<Rightarrow> int \<Rightarrow> http_response" where
  "http_Error msg code = text_response code (msg @ [CHR 0x0A])"

definition no_route :: http_response where
  "no_route = http_Error ''404 page not found'' 404"

text \<open>\<^verbatim>\<open>strings.TrimPrefix\<close>, \<^verbatim>\<open>strings.Split\<close> and \<^verbatim>\<open>strings.Join\<close>, the latter two for \<^verbatim>\<open>"/"\<close>.\<close>

definition TrimPrefix :: "string \<Rightarrow> string \<Rightarrow> string" where
  "TrimPrefix s p = (if prefix_of p s then drop (length p) s else s)"

fun split_slash :: "string \<Rightarrow> string list" where
  "split_slash [] = [[]]"
| "split_slash (c # cs) =
     (if c = CHR ''/'' then [] # split_slash cs
      else (case split_slash cs of [] \<Rightarrow> [[c]] | p # ps \<Rightarrow> (c # p) # ps))"

fun join_slash :: "string list \<Rightarrow> string" where
  "join_slash [] = []"
| "join_slash [p] = p"
| "join_slash (p # q # ps) = p @ ''/'' @ join_slash (q # ps)"

section \<open>Property records\<close>

text \<open>
  The documents of the service, from the tags of its own types. They are the documents of the
  client, which is what \<open>mock_property_eq\<close> says; the fields of the two families of Go types
  are the same, so one record stands for both.
\<close>

definition mock_owner :: "OwnerInfo \<Rightarrow> json" where
  "mock_owner r = JObj
     [(''name'', JStr (ow_Name r)), (''vestingType'', JStr (ow_VestingType r)),
      (''deedDate'', JStr (ow_DeedDate r)), (''deedType'', JStr (ow_DeedType r)),
      (''instrument'', JStr (ow_Instrument r))]"

definition mock_lien :: "LienInfo \<Rightarrow> json" where
  "mock_lien r = JObj
     [(''position'', JInt (li_Position r)), (''type'', JStr (li_Type r)), (''holder'', JStr (li_Holder r)),
      (''amount'', enc_float (li_Amount r)), (''recordedDate'', JStr (li_RecordedDate r)),
      (''instrument'', JStr (li_Instrument r)), (''status'', JStr (li_Status r))]"

definition mock_tax :: "TaxInfo \<Rightarrow> json" where
  "mock_tax r = JObj
     [(''year'', JInt (tx_Year r)), (''status'', JStr (tx_Status r)), (''amount'', enc_float (tx_Amount r)),
      (''parcelNumber'', JStr (tx_ParcelNumber r))]"

definition mock_property :: "PropertyRecord \<Rightarrow> json" where
  "mock_property r = JObj
     [(''parcelId'', JStr (pr_ParcelID r)), (''county'', JStr (pr_County r)), (''state'', JStr (pr_State r)),
      (''address'', JStr (pr_Address r)), (''owner'', mock_owner (pr_Owner r)),
      (''liens'', enc_slice mock_lien (pr_Liens r)), (''taxStatus'', mock_tax (pr_TaxStatus r)),
      (''legalDescription'', JStr (pr_LegalDescription r)), (''easements'', enc_slice JStr (pr_Easements r)),
      (''lastUpdated'', JStr (pr_LastUpdated r))]"

lemma mock_property_eq [simp]: "mock_property r = enc_property r"
proof -
  have "mock_lien = enc_lien" by (rule ext) (simp add: mock_lien_def enc_lien_def)
  then show ?thesis
    by (simp add: mock_property_def enc_property_def mock_owner_def enc_owner_def mock_tax_def enc_tax_def)
qed

definition property_key :: "string \<Rightarrow> string \<Rightarrow> string \<Rightarrow> string" where
  "property_key state county parcelID = state @ '':'' @ county @ '':'' @ lower_str parcelID"

definition property_service :: "config \<Rightarrow> rat \<Rightarrow> string \<Rightarrow> string \<Rightarrow> duration \<times> http_response" where
  "property_service cfg roll meth path =
     (if \<not> prefix_of ''/api/properties/'' path then (0, no_route)
      else if meth \<noteq> ''GET'' then (0, http_Error ''Method not allowed'' 405)
      else if roll < PropertyFailRate cfg then
        (0, json_response 503 (JObj [(''error'', JStr ''Service temporarily unavailable. Please retry.'')]))
      else
        (let delay = (if roll < PropertyFailRate cfg + PropertySlowRate cfg then 8 * Second else 0);
             parts = split_slash (TrimPrefix path ''/api/properties/'') in
         if length parts < 3 then
           (delay, http_Error ''Invalid path. Expected: /api/properties/{state}/{county}/{parcelId}'' 400)
         else
           (let state = lower_str (parts ! 0); county = lower_str (parts ! 1);
                parcelID = join_slash (drop 2 parts) in
            case map_of propertyData (property_key state county parcelID) of
              None \<Rightarrow> (delay, json_response 404 (JObj
                [(''county'', JStr county), (''error'', JStr ''Property not found''),
                 (''parcelId'', JStr parcelID), (''state'', JStr state)]))
            | Some record \<Rightarrow> (delay, json_response 200 (mock_property record)))))"

section \<open>Court records\<close>

record courtRateLimiter =
  cl_tokens :: int
  cl_maxPerSec :: int
  cl_lastFill :: time

definition cl_allow :: "time \<Rightarrow> courtRateLimiter \<Rightarrow> bool \<times> courtRateLimiter" where
  "cl_allow now rl =
     (let rl1 = (if now - cl_lastFill rl \<ge> Second
                 then rl\<lparr>cl_tokens := cl_maxPerSec rl, cl_lastFill := now\<rparr> else rl) in
      if cl_tokens rl1 > 0 then (True, rl1\<lparr>cl_tokens := cl_tokens rl1 - 1\<rparr>) else (False, rl1))"

definition new_court_limiter :: "config \<Rightarrow> time \<Rightarrow> courtRateLimiter" where
  "new_court_limiter cfg now =
     \<lparr>cl_tokens = CourtRateLimit cfg, cl_maxPerSec = CourtRateLimit cfg, cl_lastFill = now\<rparr>"

text \<open>
  \<^verbatim>\<open>encoding/xml\<close>: a field is an element of its name, a nil pointer and an empty string with
  \<^verbatim>\<open>omitempty\<close> give none. The indentation of \<^verbatim>\<open>MarshalIndent\<close> is character data between
  elements, which no reader of these documents looks at; it is left out.
\<close>

definition xml_field :: "string \<Rightarrow> string \<Rightarrow> xml" where
  "xml_field n s = Elem n [CData s]"

definition xml_filing :: "Filing \<Rightarrow> xml" where
  "xml_filing f = Elem ''Filing''
     [xml_field ''Type'' (fi_Type f), xml_field ''FiledDate'' (fi_FiledDate f),
      xml_field ''DocumentNumber'' (fi_DocumentNumber f)]"

definition xml_parties :: "Parties \<Rightarrow> xml" where
  "xml_parties p = Elem ''Parties''
     [xml_field ''Plaintiff'' (pa_Plaintiff p), xml_field ''Defendant'' (pa_Defendant p)]"

definition xml_filings :: "FilingsList \<Rightarrow> xml" where
  "xml_filings fl = Elem ''Filings'' (map xml_filing (case fl_Items fl of None \<Rightarrow> [] | Some fs \<Rightarrow> fs))"

definition xml_hearing :: "HearingInfo \<Rightarrow> xml" where
  "xml_hearing h = Elem ''NextHearing''
     [xml_field ''Date'' (he_Date h), xml_field ''Time'' (he_Time h),
      xml_field ''Type'' (he_Type h), xml_field ''Courtroom'' (he_Courtroom h)]"

definition xml_court :: "CourtRecord \<Rightarrow> xml" where
  "xml_court r = Elem ''CourtRecordResponse''
     ([xml_field ''CaseNumber'' (cr_CaseNumber r), xml_field ''Court'' (cr_Court r),
       xml_field ''Division'' (cr_Division r), xml_field ''Judge'' (cr_Judge r),
       xml_field ''FilingDate'' (cr_FilingDate r), xml_field ''CaseType'' (cr_CaseType r),
       xml_field ''Status'' (cr_Status r)] @
      (if cr_Message r = [] then [] else [xml_field ''Message'' (cr_Message r)]) @
      (case cr_Parties r of None \<Rightarrow> [] | Some p \<Rightarrow> [xml_parties p]) @
      (case cr_Filings r of None \<Rightarrow> [] | Some fl \<Rightarrow> [xml_filings fl]) @
      (case cr_NextHearing r of None \<Rightarrow> [] | Some h \<Rightarrow> [xml_hearing h]))"

definition too_many_requests :: http_response where
  "too_many_requests =
     (json_response 429 (JObj
        [(''error'', JStr ''Rate limit exceeded. Maximum 2 requests per second.''),
         (''retryAfter'', JStr ''1'')]))\<lparr>RetryAfter := ''1''\<rparr>"

definition search_field :: "string \<Rightarrow> json \<Rightarrow> string \<Rightarrow> string + string" where
  "search_field k j r = (if k = ''casenumber'' then dec_string r j else Inr r)"

text \<open>
  A document cut after 60 percent of its bytes does not parse; \<open>cut_error\<close> is what the decoder
  says about it.
\<close>

definition court_service ::
  "config \<Rightarrow> rat \<Rightarrow> string \<Rightarrow> time \<Rightarrow> string \<Rightarrow> string \<Rightarrow> string + json \<Rightarrow> courtRateLimiter \<Rightarrow>
     http_response \<times> courtRateLimiter"
where
  "court_service cfg roll cut_error now meth path body rl =
     (if path \<noteq> ''/api/court-records/search'' then (no_route, rl)
      else if meth \<noteq> ''POST'' then (http_Error ''Method not allowed'' 405, rl)
      else
        (case cl_allow now rl of
           (False, rl1) \<Rightarrow> (too_many_requests, rl1)
         | (True, rl1) \<Rightarrow>
             (case (case body of Inl e \<Rightarrow> Inl e | Inr j \<Rightarrow> dec_struct search_field [] j) of
                Inl e \<Rightarrow> (http_Error ''Invalid JSON body'' 400, rl1)
              | Inr caseNumber \<Rightarrow>
                  if caseNumber = [] then (http_Error ''caseNumber is required'' 400, rl1)
                  else
                    (case map_of courtData caseNumber of
                       None \<Rightarrow> (xml_response 200 (xml_court (zero_court
                         \<lparr>cr_CaseNumber := caseNumber, cr_Status := ''NoFilingFound'',
                          cr_Message := ''No court filings found for the specified case number.''\<rparr>)), rl1)
                     | Some record \<Rightarrow>
                         if roll < CourtCorruptRate cfg then
                           ((xml_response 200 (xml_court record))\<lparr>body_result := Inr
                              \<lparr>body_text = [], body_json = Inl ''invalid character'', body_xml = Inl cut_error\<rparr>\<rparr>, rl1)
                         else (xml_response 200 (xml_court record), rl1)))))"

section \<open>Strings\<close>

lemma split_slash_ne: "split_slash s \<noteq> []"
  by (induction s) (auto split: list.splits)

lemma join_split [simp]: "join_slash (split_slash s) = s"
proof (induction s)
  case (Cons c s)
  then obtain p ps where s: "split_slash s = p # ps" using split_slash_ne [of s] by (cases "split_slash s") auto
  with Cons show ?case by (cases ps) auto
qed simp

lemma split_slash_segment:
  "CHR ''/'' \<notin> set p \<Longrightarrow> split_slash (p @ ''/'' @ s) = p # split_slash s"
  by (induction p) auto

lemma TrimPrefix_append [simp]: "TrimPrefix (p @ s) p = s"
  by (simp add: TrimPrefix_def)

section \<open>The property service and its client\<close>

text \<open>The service behind the base URL of a client.\<close>

definition property_exchange :: "config \<Rightarrow> rat \<Rightarrow> PropertyClient \<Rightarrow> http_request \<Rightarrow> exchange" where
  "property_exchange cfg roll c req =
     (let (delay, resp) = property_service cfg roll (req_method req) (drop (length (pc_baseURL c)) (req_url req)) in
      Reply delay resp)"

lemma property_service_path:
  assumes "CHR ''/'' \<notin> set st" "CHR ''/'' \<notin> set co"
  shows "property_service cfg roll ''GET'' (''/api/properties/'' @ st @ ''/'' @ co @ ''/'' @ p) =
    (if roll < PropertyFailRate cfg then
       (0, json_response 503 (JObj [(''error'', JStr ''Service temporarily unavailable. Please retry.'')]))
     else
       (if roll < PropertyFailRate cfg + PropertySlowRate cfg then 8 * Second else 0,
        case map_of propertyData (property_key (lower_str st) (lower_str co) p) of
          None \<Rightarrow> json_response 404 (JObj
            [(''county'', JStr (lower_str co)), (''error'', JStr ''Property not found''),
             (''parcelId'', JStr p), (''state'', JStr (lower_str st))])
        | Some r \<Rightarrow> json_response 200 (enc_property r)))"
proof -
  define path where "path = ''/api/properties/'' @ st @ ''/'' @ co @ ''/'' @ p"
  have split: "split_slash (TrimPrefix path ''/api/properties/'') = st # co # split_slash p"
    unfolding path_def TrimPrefix_append
    using split_slash_segment [OF assms(1), of "co @ ''/'' @ p"] split_slash_segment [OF assms(2), of p]
    by simp
  have "prefix_of ''/api/properties/'' path" unfolding path_def by (rule prefix_of_append)
  moreover have "3 \<le> length (st # co # split_slash p)"
    using split_slash_ne [of p] by (cases "split_slash p") auto
  ultimately show ?thesis
    unfolding path_def [symmetric] property_service_def split by (simp add: Let_def split_slash_ne split: option.splits)
qed

lemma Fetch_from_exchange:
  assumes "url_error w (req_url (property_request c st co p)) = None"
    and "net w (length (sent w)) (property_request c st co p) = Reply d resp"
    and "0 \<le> d" "d < propertyHTTPTimeout" "body_delay resp = 0" "body_result resp = Inr b"
  shows "\<exists>w1. call_service Background propertyHTTPTimeout (property_request c st co p) w = (Inr (resp, b), w1)"
  using assms
  by (auto simp: call_service_def http_Do_def ReadAll_def Let_def await_def)

section \<open>The document of a court record\<close>

lemma xml_children_append: "xml_children f (xs @ ys) r = xml_children f ys (xml_children f xs r)"
  by (induction f xs r rule: xml_children.induct) auto

lemma xml_text_field [simp]: "xml_children f (xml_field n s # xs) r = xml_children f xs (f n [CData s] r)"
  by (simp add: xml_field_def)

lemma xml_filing_dec: "xml_children filings_elem (map xml_filing fs) r =
    r\<lparr>fl_Items := (case fs of [] \<Rightarrow> fl_Items r | _ \<Rightarrow> Some ((case fl_Items r of None \<Rightarrow> [] | Some ys \<Rightarrow> ys) @ fs))\<rparr>"
proof (induction fs arbitrary: r)
  case (Cons f fs)
  have "xml_children filing_elem [xml_field ''Type'' (fi_Type f), xml_field ''FiledDate'' (fi_FiledDate f),
      xml_field ''DocumentNumber'' (fi_DocumentNumber f)] zero_filing = f"
    by (simp add: filing_elem_def zero_filing_def)
  with Cons show ?case
    by (auto simp: xml_filing_def filings_elem_def append_slice_def split: list.splits option.splits)
qed simp

section \<open>The limiter of the court service\<close>

text \<open>How many of the requests at these times are let through.\<close>

primrec granted :: "courtRateLimiter \<Rightarrow> time list \<Rightarrow> nat" where
  "granted rl [] = 0"
| "granted rl (t # ts) = (case cl_allow t rl of (ok, rl1) \<Rightarrow> (if ok then 1 else 0) + granted rl1 ts)"

lemma granted_one_window:
  "\<forall>t \<in> set ts. t < cl_lastFill rl + Second \<Longrightarrow> int (granted rl ts) \<le> max 0 (cl_tokens rl)"
proof (induction ts arbitrary: rl)
  case (Cons t ts)
  then have t: "\<not> t - cl_lastFill rl \<ge> Second" by auto
  show ?case
  proof (cases "cl_tokens rl > 0")
    case True
    with Cons.IH [of "rl\<lparr>cl_tokens := cl_tokens rl - 1\<rparr>"] Cons.prems t show ?thesis
      by (simp add: cl_allow_def)
  next
    case False
    with Cons.IH [of rl] Cons.prems t show ?thesis by (simp add: cl_allow_def)
  qed
qed simp

lemma granted_second:
  assumes "\<forall>t \<in> set ts. t0 \<le> t \<and> t < t0 + Second" "0 \<le> cl_maxPerSec rl"
  shows "int (granted rl ts) \<le> max 0 (cl_tokens rl) + cl_maxPerSec rl"
  using assms
proof (induction ts arbitrary: rl)
  case (Cons t ts)
  show ?case
  proof (cases "t - cl_lastFill rl \<ge> Second")
    case True
    let ?rl = "rl\<lparr>cl_lastFill := t, cl_tokens := cl_maxPerSec rl - 1\<rparr>" and ?empty = "rl\<lparr>cl_tokens := 0, cl_lastFill := t\<rparr>"
    have "\<forall>u \<in> set ts. u < t + Second" using Cons.prems(1) by auto
    then have g: "int (granted ?rl ts) \<le> max 0 (cl_maxPerSec rl - 1)" "int (granted ?empty ts) \<le> 0"
      using granted_one_window [of ts ?rl] granted_one_window [of ts ?empty] by simp_all
    show ?thesis
    proof (cases "cl_maxPerSec rl = 0")
      case zero: True
      with True have "granted rl (t # ts) = granted ?empty ts" by (simp add: cl_allow_def)
      with g(2) zero show ?thesis by simp
    next
      case False
      with True Cons.prems(2) have "granted rl (t # ts) = Suc (granted ?rl ts)" by (simp add: cl_allow_def)
      with g(1) False Cons.prems(2) show ?thesis by simp
    qed
  next
    case False
    show ?thesis
    proof (cases "cl_tokens rl > 0")
      case True
      with False Cons.IH [of "rl\<lparr>cl_tokens := cl_tokens rl - 1\<rparr>"] Cons.prems show ?thesis
        by (simp add: cl_allow_def)
    next
      case no: False
      with False Cons.IH [of rl] Cons.prems show ?thesis by (simp add: cl_allow_def)
    qed
  qed
qed simp

text \<open>
  What the mux passes on as it is: no empty and no dot segment, none of the characters that a
  URL reader gives another meaning.
\<close>

definition plain_segment :: "string \<Rightarrow> bool" where
  "plain_segment p \<longleftrightarrow> p \<notin> {[], ''.'', ''..''} \<and> list_all (\<lambda>c. c \<noteq> CHR ''?'' \<and> c \<noteq> CHR ''#'' \<and> c \<noteq> CHR ''%'') p"

lemma search_key [simp]: "search_field (lower_str ''caseNumber'') (JStr n) r = Inr n"
proof -
  have "lower_str ''caseNumber'' = ''casenumber''" by code_simp
  then show ?thesis by (simp add: search_field_def)
qed

text \<open>A record that survives the trip: a filings list that is present is not empty.\<close>

definition xml_faithful :: "CourtRecord \<Rightarrow> bool" where
  "xml_faithful r \<longleftrightarrow> (case cr_Filings r of None \<Rightarrow> True
     | Some fl \<Rightarrow> (case fl_Items fl of Some (_ # _) \<Rightarrow> True | _ \<Rightarrow> fl_Items fl = None))"

lemma dec_xml_court:
  assumes "xml_faithful r" "body_xml b = Inr (xml_court r)"
  shows "dec_court b = Inr (r\<lparr>cr_XMLName := ([], ''CourtRecordResponse'')\<rparr>)"
proof -
  have f: "into_ptr zero_filings filings_elem (map xml_filing (case fl_Items fl of None \<Rightarrow> [] | Some fs \<Rightarrow> fs)) None = Some fl"
    if "cr_Filings r = Some fl" for fl
    using assms(1) that
    by (cases fl) (auto simp: xml_faithful_def into_ptr_def xml_filing_dec zero_filings_def
        split: option.splits list.splits)
  have p: "into_ptr zero_parties parties_elem
      [xml_field ''Plaintiff'' (pa_Plaintiff p), xml_field ''Defendant'' (pa_Defendant p)] None = Some p" for p
    by (cases p) (simp add: into_ptr_def parties_elem_def zero_parties_def)
  have h: "into_ptr zero_hearing hearing_elem
      [xml_field ''Date'' (he_Date h), xml_field ''Time'' (he_Time h), xml_field ''Type'' (he_Type h),
       xml_field ''Courtroom'' (he_Courtroom h)] None = Some h" for h
    by (cases h) (simp add: into_ptr_def hearing_elem_def zero_hearing_def)
  show ?thesis
    using assms(2) f p h
    by (cases r)
      (auto simp: dec_court_def xml_court_def xml_parties_def xml_filings_def xml_hearing_def xml_children_append
        court_elem_def zero_court_def
        split: option.splits)
qed

section \<open>What the clients see\<close>

text \<open>An exchange that is over before any deadline: what it does to the world.\<close>

definition replied :: "time \<Rightarrow> http_request \<Rightarrow> world \<Rightarrow> world" where
  "replied t req w = w\<lparr>sent := sent w @ [(clock w, req)], clock := t\<rparr>"

lemma replied_simps [simp]:
  "sent (replied t req w) = sent w @ [(clock w, req)]" "clock (replied t req w) = t"
  "net (replied t req w) = net w" "url_error (replied t req w) = url_error w"
  "coins (replied t req w) = coins w" "nflips (replied t req w) = nflips w"
  by (simp_all add: replied_def)

lemma replied_wle: "clock w \<le> t \<Longrightarrow> wle w (replied t req w)"
  by (simp add: replied_def wle_def)

lemma reply_before_deadline:
  assumes "url_error w (req_url req) = None" "net w (length (sent w)) req = Reply d resp"
    and "0 \<le> d" "d < timeout" "body_delay resp = 0" "body_result resp = Inr b"
    and "\<forall>D e. ctx = Some (D, e) \<longrightarrow> clock w + d < D"
  shows "call_service ctx timeout req w = (Inr (resp, b), replied (clock w + d) req w)"
proof (cases ctx)
  case None
  with assms show ?thesis
    by (simp add: call_service_def http_Do_def ReadAll_def Let_def await_def
        ctx_Err_def WithTimeout_def replied_def)
next
  case (Some c)
  obtain D e where c: "c = (D, e)" by fastforce
  have D: "clock w + d < D" "clock w < D" using assms(3,7) Some c by auto
  obtain c2 e2 where wt: "WithTimeout ctx timeout (clock w) = Some (c2, e2)" and c2: "clock w + d < c2" "clock w < c2"
    using Some c D assms(3,4) by (cases "D \<le> clock w + timeout") (simp_all add: WithTimeout_def)
  have "ctx_Err ctx (clock w) = None" using Some c D by (simp add: ctx_Err_def)
  with wt c2 assms(1-6) show ?thesis
    by (simp add: call_service_def http_Do_def ReadAll_def Let_def await_def replied_def)
qed

lemma response_simps [simp]:
  "StatusCode (json_response n j) = n" "body_delay (json_response n j) = 0"
  "body_result (json_response n j) = Inr \<lparr>body_text = [], body_json = Inr j, body_xml = Inl ''EOF''\<rparr>"
  "StatusCode (xml_response n x) = n" "body_delay (xml_response n x) = 0"
  "body_result (xml_response n x) = Inr \<lparr>body_text = [], body_json = Inl ''invalid character'', body_xml = Inr x\<rparr>"
  "StatusCode (text_response n s) = n" "body_delay (text_response n s) = 0"
  "body_result (text_response n s) =
     Inr \<lparr>body_text = s, body_json = Inl ''invalid character'', body_xml = Inl ''EOF''\<rparr>"
  by (simp_all add: json_response_def xml_response_def text_response_def)

lemma propertyData_encode: "map_of propertyData k = Some r \<Longrightarrow> dec_property (enc_property r) = Inr r"
  using propertyData_ints by (intro dec_enc_property) (fastforce simp: list_all_iff dest: map_of_SomeD)

lemma courtData_records:
  "map_of courtData n = Some r \<Longrightarrow> xml_faithful r \<and> cr_Status r \<noteq> ''NoFilingFound''"
proof -
  have "list_all (\<lambda>x. xml_faithful (snd x) \<and> cr_Status (snd x) \<noteq> ''NoFilingFound'') courtData"
    by (simp add: courtData_def xml_faithful_def)
  then show "map_of courtData n = Some r \<Longrightarrow> ?thesis" by (fastforce simp: list_all_iff dest: map_of_SomeD)
qed

definition fetch_outcome :: "config \<Rightarrow> rat \<Rightarrow> string \<Rightarrow> string \<Rightarrow> string \<Rightarrow> goerr + PropertyRecord" where
  "fetch_outcome cfg roll st co p =
     (if roll < PropertyFailRate cfg then Inl ErrServiceUnavailable
      else case map_of propertyData (property_key (lower_str st) (lower_str co) p) of
        Some r \<Rightarrow> Inr r
      | None \<Rightarrow> Inl (wrap_detail ErrNotFound (st @ ''/'' @ co @ ''/'' @ p)))"

lemma Fetch_mock:
  assumes "CHR ''/'' \<notin> set st" "CHR ''/'' \<notin> set co"
    and "list_all plain_segment (st # co # split_slash p)"
    and "url_error w (req_url (property_request c st co p)) = None"
    and "net w (length (sent w)) (property_request c st co p) =
      property_exchange cfg roll c (property_request c st co p)"
  shows "\<exists>t. clock w \<le> t \<and> Fetch c st co p Background w =
    (fetch_outcome cfg roll st co p, replied t (property_request c st co p) w)"
proof -
  let ?req = "property_request c st co p" and ?key = "property_key (lower_str st) (lower_str co) p"
  define ds where "ds = property_service cfg roll ''GET'' (''/api/properties/'' @ st @ ''/'' @ co @ ''/'' @ p)"
  note ds = ds_def [unfolded property_service_path [OF assms(1,2)]]
  define d resp where "d = fst ds" and "resp = snd ds"
  have e: "property_exchange cfg roll c ?req = Reply d resp"
    by (simp add: property_exchange_def property_request_def d_def resp_def ds_def case_prod_beta del: append_Cons)
  have d: "0 \<le> d" "d < propertyHTTPTimeout"
    by (simp_all add: d_def ds propertyHTTPTimeout_def Second_def Millisecond_def)
  have code: "StatusCode resp = (if roll < PropertyFailRate cfg then 503
      else if map_of propertyData ?key = None then 404 else 200)"
    by (simp add: resp_def ds split: option.splits)
  have r0: "body_delay resp = 0" "\<exists>b. body_result resp = Inr b"
    by (simp_all add: resp_def ds split: option.splits)
  then obtain b where r: "body_delay resp = 0" "body_result resp = Inr b" by blast
  have found: "body_json b = Inr (enc_property x)"
    if "\<not> roll < PropertyFailRate cfg" "map_of propertyData ?key = Some x" for x
    using r(2) that by (auto simp: resp_def ds)
  have "call_service Background propertyHTTPTimeout ?req w = (Inr (resp, b), replied (clock w + d) ?req w)"
    by (rule reply_before_deadline [OF assms(4) assms(5) [unfolded e] d r]) (simp add: Background_def)
  with code found propertyData_encode d show ?thesis
    by (intro exI [of _ "clock w + d"])
      (auto simp: Fetch_def Unmarshal_def fetch_outcome_def split: option.splits)
qed

text \<open>
  The property client against the property service, over every outcome of the
  service's draw: a simulated failure is the retryable \<^verbatim>\<open>ErrServiceUnavailable\<close>; otherwise
  the client returns exactly the record of the table, found whatever the case of the request's
  letters, or the permanent not-found error naming the parcel. The slow response of 8 seconds
  stays below the client's timeout, so it changes nothing.
\<close>

theorem Fetch_from_mock:
  assumes "CHR ''/'' \<notin> set st" "CHR ''/'' \<notin> set co"
    and "list_all plain_segment (st # co # split_slash p)"
    and "url_error w (req_url (property_request c st co p)) = None"
    and "net w (length (sent w)) (property_request c st co p) =
      property_exchange cfg roll c (property_request c st co p)"
  shows "fst (Fetch c st co p Background w) =
    (if roll < PropertyFailRate cfg then Inl ErrServiceUnavailable
     else case map_of propertyData (property_key (lower_str st) (lower_str co) p) of
       Some r \<Rightarrow> Inr r
     | None \<Rightarrow> Inl (wrap_detail ErrNotFound (st @ ''/'' @ co @ ''/'' @ p)))"
  using Fetch_mock [OF assms] by (auto simp: fetch_outcome_def)

theorem Fetch_from_mock_witness:
  "let cfg = loadConfig (\<lambda>_. None) (\<lambda>_. []); c = NewPropertyClient ''http://localhost:9001/'';
       w = scripted_world []\<lparr>net := \<lambda>_. property_exchange cfg (3 / 10) c\<rparr> in
   map_sum id pr_Address (fst (Fetch c ''IL'' ''Cook'' ''14-28-322-001-0000'' Background w)) =
     Inr ''1422 W Diversey Pkwy, Chicago, IL 60614''"
proof -
  let ?cfg = "loadConfig (\<lambda>_. None) (\<lambda>_. [])" and ?c = "NewPropertyClient ''http://localhost:9001/''"
  let ?w = "scripted_world []\<lparr>net := \<lambda>_. property_exchange ?cfg (3 / 10) ?c\<rparr>"
  have "split_slash ''14-28-322-001-0000'' = [''14-28-322-001-0000'']" by code_simp
  moreover have "property_key (lower_str ''IL'') (lower_str ''Cook'') ''14-28-322-001-0000'' = ''il:cook:14-28-322-001-0000''"
    by code_simp
  moreover have "PropertyFailRate ?cfg = 1 / 4" by (simp add: loadConfig_def envFloat_def)
  ultimately show ?thesis
    using Fetch_from_mock [of "''IL''" "''Cook''" "''14-28-322-001-0000''" ?w ?c ?cfg "3 / 10"]
    by (simp add: plain_segment_def scripted_world_def propertyData_def)
qed

text \<open>The court service behind the base URL of a client, with a limiter in some state.\<close>

definition court_exchange ::
  "config \<Rightarrow> rat \<Rightarrow> string \<Rightarrow> time \<Rightarrow> courtRateLimiter \<Rightarrow> CourtClient \<Rightarrow> http_request \<Rightarrow> exchange"
where
  "court_exchange cfg roll cut_error now rl c req =
     Reply 0 (fst (court_service cfg roll cut_error now (req_method req)
       (drop (length (cc_baseURL c)) (req_url req))
       (case req_body req of None \<Rightarrow> Inl ''EOF'' | Some j \<Rightarrow> Inr j) rl))"

definition search_outcome :: "config \<Rightarrow> rat \<Rightarrow> string \<Rightarrow> bool \<Rightarrow> string \<Rightarrow> goerr + CourtRecord option" where
  "search_outcome cfg roll cut_error token n =
     (if \<not> token then Inl ErrRateLimited
      else case map_of courtData n of
        None \<Rightarrow> Inr None
      | Some r \<Rightarrow>
          if roll < CourtCorruptRate cfg then Inl (wrap_detail ErrMalformedResponse cut_error)
          else Inr (Some (r\<lparr>cr_XMLName := ([], ''CourtRecordResponse'')\<rparr>)))"

lemma Search_mock:
  assumes "n \<noteq> []"
    and "url_error w (req_url (court_request c n)) = None"
    and "net w (length (sent w)) (court_request c n) =
      court_exchange cfg roll cut_error now rl c (court_request c n)"
  shows "Search c n Background w =
    (search_outcome cfg roll cut_error (fst (cl_allow now rl)) n, replied (clock w) (court_request c n) w)"
proof -
  let ?req = "court_request c n"
  define resp where "resp = fst (court_service cfg roll cut_error now (req_method ?req)
       (drop (length (cc_baseURL c)) (req_url ?req))
       (case req_body ?req of None \<Rightarrow> Inl ''EOF'' | Some j \<Rightarrow> Inr j) rl)"
  obtain ok rl1 where a: "cl_allow now rl = (ok, rl1)" by fastforce
  have resp: "resp = (if \<not> ok then too_many_requests
     else case map_of courtData n of
       None \<Rightarrow> xml_response 200 (xml_court (zero_court\<lparr>cr_CaseNumber := n, cr_Status := ''NoFilingFound'',
         cr_Message := ''No court filings found for the specified case number.''\<rparr>))
     | Some r \<Rightarrow>
         if roll < CourtCorruptRate cfg then (xml_response 200 (xml_court r))\<lparr>body_result := Inr
              \<lparr>body_text = [], body_json = Inl ''invalid character'', body_xml = Inl cut_error\<rparr>\<rparr>
         else xml_response 200 (xml_court r))"
    using assms(1)
    by (simp add: resp_def court_request_def court_service_def a split: option.splits)
  have r: "body_delay resp = 0" "\<exists>b. body_result resp = Inr b"
    by (auto simp: resp too_many_requests_def split: option.splits)
  then obtain b where b: "body_result resp = Inr b" by blast
  have c: "call_service Background courtHTTPTimeout ?req w = (Inr (resp, b), replied (clock w) ?req w)"
    using reply_before_deadline [OF assms(2) assms(3) [unfolded court_exchange_def, folded resp_def] order_refl _ r(1) b,
        of courtHTTPTimeout Background]
    by (simp add: courtHTTPTimeout_def Background_def)
  have nf: "xml_faithful (zero_court\<lparr>cr_CaseNumber := n, cr_Status := ''NoFilingFound'',
         cr_Message := ''No court filings found for the specified case number.''\<rparr>)"
    by (simp add: xml_faithful_def zero_court_def)
  show ?thesis
  proof (cases "map_of courtData n")
    case None
    with b c a dec_xml_court [OF nf, of b] show ?thesis
      by (auto simp: Search_def resp too_many_requests_def search_outcome_def)
  next
    case (Some x)
    with b c a courtData_records [OF Some] dec_xml_court [of x b] show ?thesis
      by (auto simp: Search_def resp too_many_requests_def dec_court_def search_outcome_def)
  qed
qed

text \<open>
  Claim C30. The court client against the court service: without a token of the service's limiter
  it gets the retryable \<^verbatim>\<open>ErrRateLimited\<close>; a case the table does not hold is no record
  and no error; a truncated document is \<^verbatim>\<open>ErrMalformedResponse\<close>; and otherwise the record
  read from the XML is the record of the table, with the name of its element, through all its
  optional parts.
\<close>

theorem Search_from_mock:
  assumes "n \<noteq> []"
    and "url_error w (req_url (court_request c n)) = None"
    and "net w (length (sent w)) (court_request c n) =
      court_exchange cfg roll cut_error now rl c (court_request c n)"
  shows "fst (Search c n Background w) =
    (if \<not> fst (cl_allow now rl) then Inl ErrRateLimited
     else case map_of courtData n of
       None \<Rightarrow> Inr None
     | Some r \<Rightarrow>
         if roll < CourtCorruptRate cfg then Inl (wrap_detail ErrMalformedResponse cut_error)
         else Inr (Some (r\<lparr>cr_XMLName := ([], ''CourtRecordResponse'')\<rparr>)))"
  by (simp add: Search_mock [OF assms] search_outcome_def)

theorem Search_from_mock_witness:
  "let cfg = loadConfig (\<lambda>_. None) (\<lambda>_. []); c = NewCourtClient ''http://localhost:9002'';
       w = scripted_world []\<lparr>net := \<lambda>_. court_exchange cfg (1 / 2) ''EOF'' 0 (new_court_limiter cfg 0) c\<rparr> in
   map_sum id (map_option cr_Status) (fst (Search c ''2025-FC-09876'' Background w)) = Inr (Some ''Active'')"
proof -
  let ?cfg = "loadConfig (\<lambda>_. None) (\<lambda>_. [])" and ?c = "NewCourtClient ''http://localhost:9002''"
  let ?rl = "new_court_limiter ?cfg 0"
  let ?w = "scripted_world []\<lparr>net := \<lambda>_. court_exchange ?cfg (1 / 2) ''EOF'' 0 ?rl ?c\<rparr>"
  have "CourtCorruptRate ?cfg = 3 / 100" "fst (cl_allow 0 ?rl)"
    by (simp_all add: loadConfig_def envFloat_def envInt_def new_court_limiter_def cl_allow_def
        Second_def Millisecond_def)
  then show ?thesis
    using Search_from_mock [of "''2025-FC-09876''" ?w ?c ?cfg "1 / 2" "''EOF''" 0 ?rl]
    by (simp add: scripted_world_def courtData_def)
qed

text \<open>
  The limiter of the court service refills to the full bucket whenever a second has
  passed since it last did, so in any second it lets at most twice the configured rate through:
  a full bucket just before the refill and a full one after it.
\<close>

theorem court_limiter_bound:
  assumes "\<forall>t \<in> set ts. t0 \<le> t \<and> t < t0 + Second"
    and "0 \<le> cl_maxPerSec rl" "cl_tokens rl \<le> cl_maxPerSec rl"
  shows "int (granted rl ts) \<le> 2 * cl_maxPerSec rl"
  using granted_second [OF assms(1,2)] assms(2,3) by simp

theorem court_limiter_bound_witness:
  "int (granted (new_court_limiter (loadConfig (\<lambda>_. None) (\<lambda>_. [])) 0) [999, 999, 1000, 1000, 1500]) \<le> 4"
  "granted (new_court_limiter (loadConfig (\<lambda>_. None) (\<lambda>_. [])) 0) [999 * 1000000, 999 * 1000000, Second, Second] = 4"
proof -
  let ?rl = "new_court_limiter (loadConfig (\<lambda>_. None) (\<lambda>_. [])) 0"
  show "int (granted ?rl [999, 999, 1000, 1000, 1500]) \<le> 4"
    using court_limiter_bound [of "[999, 999, 1000, 1000, 1500]" 999 ?rl]
    by (simp add: Second_def Millisecond_def new_court_limiter_def loadConfig_def envInt_def)
  show "granted ?rl [999 * 1000000, 999 * 1000000, Second, Second] = 4"
    by (simp add: Second_def Millisecond_def new_court_limiter_def loadConfig_def envInt_def cl_allow_def)
qed

end
