(* ===== verification/MockLookups.thy ===== *)
theory MockLookups
  imports MockServices Orchestrator
begin

text \<open>
  The processors of property and court records against the mock services. The n-th request of a
  processor meets a service whose draws, clock and limiter are whatever they are at that time;
  the outcome of the retried call, and with it the row and the breaker, is computed from them.
\<close>

section \<open>Calls whose answers are numbered\<close>

text \<open>The first of \<open>m\<close> attempts (counted from 0) that is decisive, else the last one.\<close>

primrec deciding :: "nat \<Rightarrow> (nat \<Rightarrow> bool) \<Rightarrow> nat" where
  "deciding 0 decisive = 0"
| "deciding (Suc m) decisive = (if decisive 0 then 0 else Suc (deciding m (\<lambda>i. decisive (Suc i))))"

lemma deciding_facts:
  "deciding m Q \<le> m \<and> (\<forall>i < deciding m Q. \<not> Q i) \<and> (deciding m Q = m \<or> Q (deciding m Q))"
proof (induction m arbitrary: Q)
  case (Suc m)
  from Suc.IH [of "\<lambda>i. Q (Suc i)"] show ?case
    by (auto simp: less_Suc_eq_0_disj)
qed simp

lemma deciding_Q: "Q i \<Longrightarrow> i \<le> m \<Longrightarrow> Q (deciding m Q) \<and> deciding m Q \<le> i"
  using deciding_facts [of m Q] by (metis le_antisym linorder_not_le)

text \<open>An answer after which no further attempt is made.\<close>

definition final_answer :: "goerr + 'a \<Rightarrow> bool" where
  "final_answer r \<longleftrightarrow> (case r of Inl e \<Rightarrow> IsPermanent e | Inr _ \<Rightarrow> True)"

locale numbered_call =
  fixes call :: "gctx \<Rightarrow> world \<Rightarrow> (goerr + 'a) \<times> world"
    and served :: "world \<Rightarrow> bool"
    and answer :: "nat \<Rightarrow> goerr + 'a"
  assumes served_later: "served w \<Longrightarrow> wle w v \<Longrightarrow> served v"
    and served_call: "served w \<Longrightarrow> \<exists>t req. clock w \<le> t \<and>
      call Background w = (answer (length (sent w)), replied t req w)"
begin

lemma attempts_served:
  assumes "served w"
  shows "wle w (snd (nth_start cfg (counted (call Background)) n (c, w) i)) \<and>
    length (sent (snd (nth_start cfg (counted (call Background)) n (c, w) i))) = length (sent w) + i"
  using assms
proof (induction i arbitrary: n c w)
  case (Suc i)
  obtain t req where t: "clock w \<le> t" "call Background w = (answer (length (sent w)), replied t req w)"
    using served_call [OF Suc.prems] by blast
  let ?s = "pause cfg n (snd (counted (call Background) (c, w)))"
  have "wle w (snd ?s) \<and> length (sent (snd ?s)) = Suc (length (sent w))"
    using t replied_wle [OF t(1), of req]
    by (auto simp: pause_def counted_def addJitter_def Let_def wle_def Int64N_def split: sum.splits prod.splits)
  then have w1: "wle w (snd ?s)" "length (sent (snd ?s)) = Suc (length (sent w))" by blast+
  from Suc.IH [OF served_later [OF Suc.prems w1(1)], of "n + 1" "fst ?s"] w1 show ?case
    by (auto intro: wle_trans)
qed simp

lemma retry_numbered:
  fixes cfg w
  defines "k \<equiv> deciding (nat (MaxAttempts cfg - 1)) (\<lambda>i. final_answer (answer (length (sent w) + i)))"
  assumes "served w" "1 \<le> MaxAttempts cfg"
  shows "\<exists>w1. decided_by cfg call w k (answer (length (sent w) + k)) w1 \<and> wle w w1"
proof -
  let ?Q = "\<lambda>i. final_answer (answer (length (sent w) + i))"
  have start: "wle w (attempt_start cfg call w i)" "length (sent (attempt_start cfg call w i)) = length (sent w) + i" for i
    using attempts_served [OF assms(2), of cfg 1 "(0, None)" i] by (simp_all add: attempt_start_def)
  have at: "\<exists>v. call Background (attempt_start cfg call w i) = (answer (length (sent w) + i), v) \<and> wle w v" for i
  proof -
    obtain t req where t: "clock (attempt_start cfg call w i) \<le> t" "call Background (attempt_start cfg call w i) =
        (answer (length (sent w) + i), replied t req (attempt_start cfg call w i))"
      using served_call [OF served_later [OF assms(2) start(1)]] start(2) by fastforce
    with wle_trans [OF start(1) replied_wle [OF t(1)]] show ?thesis by auto
  qed
  have k: "k \<le> nat (MaxAttempts cfg - 1)" "\<forall>i < k. \<not> ?Q i" "k = nat (MaxAttempts cfg - 1) \<or> ?Q k"
    using deciding_facts [of "nat (MaxAttempts cfg - 1)" ?Q] by (simp_all add: k_def)
  obtain v where v: "call Background (attempt_start cfg call w k) = (answer (length (sent w) + k), v)" "wle w v"
    using at by blast
  have "\<exists>e. fst (call Background (attempt_start cfg call w i)) = Inl e \<and> \<not> IsPermanent e" if "i < k" for i
  proof -
    have "\<not> ?Q i" using k(2) that by blast
    then show ?thesis using at [of i] by (auto simp: final_answer_def split: sum.splits)
  qed
  moreover have "int k < MaxAttempts cfg" using k(1) assms(3) by linarith
  moreover have "IsPermanent e \<or> int k = MaxAttempts cfg - 1" if "answer (length (sent w) + k) = Inl e" for e
    using k(3) that assms(3) by (auto simp: final_answer_def)
  ultimately show ?thesis using v unfolding decided_by_def by blast
qed

end

section \<open>Property records\<close>

text \<open>The service as a processor sees it: \<open>rolls n\<close> is the draw for the n-th request.\<close>

definition property_served ::
  "config \<Rightarrow> (nat \<Rightarrow> rat) \<Rightarrow> PropertyClient \<Rightarrow> string \<Rightarrow> string \<Rightarrow> string \<Rightarrow> world \<Rightarrow> bool"
where
  "property_served cfg rolls cl st co p w \<longleftrightarrow>
     CHR ''/'' \<notin> set st \<and> CHR ''/'' \<notin> set co \<and> list_all plain_segment (st # co # split_slash p) \<and>
     url_error w (req_url (property_request cl st co p)) = None \<and>
     (\<forall>n. net w n (property_request cl st co p) = property_exchange cfg (rolls n) cl (property_request cl st co p))"

interpretation mock_fetch: numbered_call "Fetch cl st co p" "property_served cfg rolls cl st co p"
  "\<lambda>n. fetch_outcome cfg (rolls n) st co p" for cl st co p cfg rolls
proof unfold_locales
  fix w
  assume s: "property_served cfg rolls cl st co p w"
  then show "\<exists>t req. clock w \<le> t \<and> Fetch cl st co p Background w =
      (fetch_outcome cfg (rolls (length (sent w))) st co p, replied t req w)"
    using Fetch_mock [of st co p w cl cfg "rolls (length (sent w))"] by (auto simp: property_served_def)
qed (auto simp: property_served_def wle_def)

section \<open>Court records\<close>

definition court_served ::
  "config \<Rightarrow> (nat \<Rightarrow> rat) \<Rightarrow> string \<Rightarrow> (nat \<Rightarrow> time) \<Rightarrow> (nat \<Rightarrow> courtRateLimiter) \<Rightarrow> CourtClient \<Rightarrow> string \<Rightarrow> world \<Rightarrow> bool"
where
  "court_served cfg rolls cut_error ats rls cl number w \<longleftrightarrow>
     number \<noteq> [] \<and> url_error w (req_url (court_request cl number)) = None \<and>
     (\<forall>n. net w n (court_request cl number) =
        court_exchange cfg (rolls n) cut_error (ats n) (rls n) cl (court_request cl number))"

interpretation mock_search: numbered_call "Search cl number" "court_served cfg rolls cut_error ats rls cl number"
  "\<lambda>n. search_outcome cfg (rolls n) cut_error (fst (cl_allow (ats n) (rls n))) number"
  for cl number cfg rolls cut_error ats rls
proof unfold_locales
  fix w
  assume "court_served cfg rolls cut_error ats rls cl number w"
  then show "\<exists>t req. clock w \<le> t \<and> Search cl number Background w =
      (search_outcome cfg (rolls (length (sent w))) cut_error
         (fst (cl_allow (ats (length (sent w))) (rls (length (sent w))))) number, replied t req w)"
    using Search_mock [of number w cl cfg "rolls (length (sent w))" cut_error "ats (length (sent w))"
        "rls (length (sent w))"]
    by (auto simp: court_served_def)
qed (auto simp: court_served_def wle_def)

section \<open>The processors\<close>

lemma fetch_final: "final_answer (fetch_outcome cfg roll st co p) \<longleftrightarrow> \<not> roll < PropertyFailRate cfg"
  by (auto simp: final_answer_def fetch_outcome_def split: option.splits)

text \<open>A search of the court service settles unless it is refused or its document is cut.\<close>

definition search_settles :: "config \<Rightarrow> rat \<Rightarrow> bool \<Rightarrow> string \<Rightarrow> bool" where
  "search_settles cfg roll token number \<longleftrightarrow>
     token \<and> (map_of courtData number = None \<or> \<not> roll < CourtCorruptRate cfg)"

lemma search_final: "final_answer (search_outcome cfg roll cut_error token number) \<longleftrightarrow> search_settles cfg roll token number"
  by (auto simp: final_answer_def search_outcome_def search_settles_def split: option.splits)

lemma default_attempts: "nat (MaxAttempts DefaultRetryConfig - 1) = 4"
  by simp

lemma property_mock_run:
  fixes w c cfg rolls
  defines "k \<equiv> deciding 4 (\<lambda>i. \<not> rolls (length (sent w) + i) < PropertyFailRate cfg)"
  assumes "property_served cfg rolls (propertyClient o0) (c_State c) (c_County c) (c_ParcelID c) w"
    and "Allow (clock w) (propertyCB o0) = (True, cb)"
    and "res = fetch_outcome cfg (rolls (length (sent w) + k)) (c_State c) (c_County c) (c_ParcelID c)"
  shows "\<exists>w1. wle w w1 \<and> processProperty Background c src o0 w =
    Finished (o0\<lparr>propertyCB := decided_breaker (clock w1) res cb,
      store := snd (SetSourceResult (clock w1)
        (decided_result src (\<lambda>r. Some (enc_property r)) k res) (store o0))\<rparr>) w1"
  using mock_fetch.retry_numbered [OF assms(2), of DefaultRetryConfig] processProperty_decided [OF assms(3)]
  unfolding assms(4) k_def default_attempts fetch_final by fastforce

lemma court_mock_run:
  fixes w c cfg rolls ats rls number
  defines "k \<equiv> deciding 4 (\<lambda>i. search_settles cfg (rolls (length (sent w) + i))
      (fst (cl_allow (ats (length (sent w) + i)) (rls (length (sent w) + i)))) number)"
  assumes "court_served cfg rolls cut_error ats rls (courtClient o0) number w"
    and "c_CourtCaseNumber c = Some number"
    and "Allow (clock w) (courtCB o0) = (True, cb)" "rl_live (courtLimiter o0)"
    and "res = search_outcome cfg (rolls (length (sent w) + k)) cut_error
      (fst (cl_allow (ats (length (sent w) + k)) (rls (length (sent w) + k)))) number"
  shows "\<exists>t rl w1. wle w w1 \<and> rl_live rl \<and>
    Wait (fst (flip_coin w)) Background (clock w) (courtLimiter o0) = (Granted t, rl) \<and>
    processCourt Background c src o0 w =
      Finished (o0\<lparr>courtCB := decided_breaker (clock w1) res cb, courtLimiter := rl,
        store := snd (SetSourceResult (clock w1)
          (decided_result src (map_option enc_court) k res) (store o0))\<rparr>) w1"
proof -
  obtain t rl where t: "Wait (fst (flip_coin w)) Background (clock w) (courtLimiter o0) = (Granted t, rl)"
      "clock w \<le> t" "rl_live rl"
    using rls.wait_granted [OF assms(5)] Wait_facts [OF assms(5)] by metis
  let ?v = "(snd (flip_coin w))\<lparr>clock := t\<rparr>"
  have v: "wle w ?v" "length (sent ?v) = length (sent w)"
    using flip_coin_facts [of w] t(2) by (auto simp: wle_def)
  from mock_search.retry_numbered [OF mock_search.served_later [OF assms(2) v(1)], of DefaultRetryConfig]
  obtain w1 where "decided_by DefaultRetryConfig (Search (courtClient o0) number) ?v k res w1" "wle ?v w1"
    unfolding assms(6) k_def default_attempts search_final v(2) by auto
  with processCourt_decided [OF assms(4,3) t(1)] wle_trans [OF v(1)] t show ?thesis by blast
qed

text \<open>A case and worlds for the examples: the first request fails, the ones after it do not.\<close>

definition mock_case :: case_row where
  "mock_case = sample_case\<lparr>c_State := ''IL'', c_County := ''Cook'', c_ParcelID := ''14-28-322-001-0000'',
     c_CourtCaseNumber := Some ''2025-FC-09876''\<rparr>"

definition mock_config :: config where
  "mock_config = loadConfig (\<lambda>_. None) (\<lambda>_. [])"

definition one_failure :: "nat \<Rightarrow> rat" where
  "one_failure n = (if n = 0 then 0 else 1)"

lemma mock_config: "PropertyFailRate mock_config = 1 / 4" "CourtCorruptRate mock_config = 3 / 100"
  by (simp_all add: mock_config_def loadConfig_def envFloat_def)

lemma mock_case_served:
  "property_served mock_config one_failure (propertyClient sample_orc) (c_State mock_case) (c_County mock_case)
     (c_ParcelID mock_case)
     (scripted_world []\<lparr>net := \<lambda>n. property_exchange mock_config (one_failure n) (propertyClient sample_orc)\<rparr>)"
proof -
  have "split_slash ''14-28-322-001-0000'' = [''14-28-322-001-0000'']" by code_simp
  then show ?thesis
    by (simp add: property_served_def mock_case_def plain_segment_def scripted_world_def)
qed

section \<open>Properties\<close>

text \<open>
  Claim C19. A property lookup against the mock service, through client, retries and breaker:
  the attempts the service fails are repeated, the first one it does not fail, or the fifth,
  decides. A record of the table is stored as the service holds it, a parcel the table does not
  have is a failure without further attempts, and a success or a failure is reported to the
  breaker accordingly.
\<close>

theorem property_lookup_against_mock:
  fixes w c cfg rolls
  defines "k \<equiv> deciding 4 (\<lambda>i. \<not> rolls (length (sent w) + i) < PropertyFailRate cfg)"
  assumes "property_served cfg rolls (propertyClient o0) (c_State c) (c_County c) (c_ParcelID c) w"
    and "Allow (clock w) (propertyCB o0) = (True, cb)"
  shows "\<exists>w1. processProperty Background c src o0 w =
    (let key = property_key (lower_str (c_State c)) (lower_str (c_County c)) (c_ParcelID c);
         p = result_for src SourceStatusFailed (Attempts src + int k + 1) in
     if rolls (length (sent w) + k) < PropertyFailRate cfg then
       Finished (o0\<lparr>propertyCB := RecordFailure (clock w1) cb, store := snd (SetSourceResult (clock w1)
         (p\<lparr>p_ErrorMsg := Some ''service unavailable''\<rparr>) (store o0))\<rparr>) w1
     else case map_of propertyData key of
       None \<Rightarrow>
         Finished (o0\<lparr>propertyCB := RecordFailure (clock w1) cb, store := snd (SetSourceResult (clock w1)
           (p\<lparr>p_ErrorMsg := Some (error_text (wrap_detail ErrNotFound
             (c_State c @ ''/'' @ c_County c @ ''/'' @ c_ParcelID c)))\<rparr>) (store o0))\<rparr>) w1
     | Some r \<Rightarrow>
         Finished (o0\<lparr>propertyCB := RecordSuccess cb, store := snd (SetSourceResult (clock w1)
           ((result_for src SourceStatusSuccess (Attempts src + int k + 1))\<lparr>p_Data := Some (enc_property r)\<rparr>)
           (store o0))\<rparr>) w1)"
proof -
  let ?res = "fetch_outcome cfg (rolls (length (sent w) + k)) (c_State c) (c_County c) (c_ParcelID c)"
  obtain w1 where "processProperty Background c src o0 w =
    Finished (o0\<lparr>propertyCB := decided_breaker (clock w1) ?res cb,
      store := snd (SetSourceResult (clock w1)
        (decided_result src (\<lambda>r. Some (enc_property r)) k ?res) (store o0))\<rparr>) w1"
    using property_mock_run [OF assms(2,3) refl] unfolding k_def by blast
  moreover have "error_text ErrServiceUnavailable = ''service unavailable''" by (simp add: ErrServiceUnavailable_def)
  ultimately show ?thesis
    by (intro exI [of _ w1])
      (auto simp: Let_def fetch_outcome_def decided_breaker_def decided_result_def add.assoc split: option.splits)
qed

theorem property_lookup_against_mock_witness:
  "\<exists>r w1. map_of propertyData ''il:cook:14-28-322-001-0000'' = Some r \<and>
    processProperty Background mock_case (new_source ''s'' ''r'' SourcePropertyRecords) sample_orc
      (scripted_world []\<lparr>net := \<lambda>n. property_exchange mock_config (one_failure n) (propertyClient sample_orc)\<rparr>) =
    Finished (sample_orc\<lparr>propertyCB := RecordSuccess (propertyCB sample_orc),
      store := snd (SetSourceResult (clock w1) ((result_for (new_source ''s'' ''r'' SourcePropertyRecords)
        SourceStatusSuccess 2)\<lparr>p_Data := Some (enc_property r)\<rparr>) sample_db)\<rparr>) w1"
proof -
  let ?w = "scripted_world []\<lparr>net := \<lambda>n. property_exchange mock_config (one_failure n) (propertyClient sample_orc)\<rparr>"
  have k: "deciding 4 (\<lambda>i. \<not> one_failure (length (sent ?w) + i) < PropertyFailRate mock_config) = 1"
    by (simp add: mock_config one_failure_def scripted_world_def numeral_eq_Suc)
  have "property_key (lower_str (c_State mock_case)) (lower_str (c_County mock_case)) (c_ParcelID mock_case) =
      ''il:cook:14-28-322-001-0000''"
    unfolding mock_case_def by code_simp
  moreover have "\<exists>r. map_of propertyData ''il:cook:14-28-322-001-0000'' = Some r" by (simp add: propertyData_def)
  moreover have "Attempts (new_source ''s'' ''r'' SourcePropertyRecords) = 0" by (simp add: new_source_def)
  moreover have "\<not> one_failure (length (sent ?w) + 1) < PropertyFailRate mock_config"
    by (simp add: mock_config one_failure_def scripted_world_def)
  ultimately show ?thesis
    using property_lookup_against_mock [OF mock_case_served, of "propertyCB sample_orc"
        "new_source ''s'' ''r'' SourcePropertyRecords", unfolded k]
    by (auto simp: Let_def)
qed

text \<open>
  Claim C18. A court lookup against the mock service: after one token of the gateway's own limiter
  the search is repeated while the service refuses it or cuts the document. The first attempt
  that settles, if one of five does, stores the record of the table, or a success without data
  when the table does not have the case; otherwise the row fails after five attempts with the
  error of the last.
\<close>

theorem court_lookup_against_mock:
  fixes w c cfg rolls ats rls number
  defines "token \<equiv> \<lambda>n. fst (cl_allow (ats n) (rls n))"
  defines "k \<equiv> deciding 4 (\<lambda>i. search_settles cfg (rolls (length (sent w) + i)) (token (length (sent w) + i)) number)"
  assumes "court_served cfg rolls cut_error ats rls (courtClient o0) number w"
    and "c_CourtCaseNumber c = Some number"
    and "Allow (clock w) (courtCB o0) = (True, cb)" "rl_live (courtLimiter o0)"
  shows "\<exists>t rl w1. Wait (fst (flip_coin w)) Background (clock w) (courtLimiter o0) = (Granted t, rl) \<and>
    processCourt Background c src o0 w =
    (let n = length (sent w) + k; attempts = Attempts src + int k + 1 in
     if search_settles cfg (rolls n) (token n) number then
       Finished (o0\<lparr>courtCB := RecordSuccess cb, courtLimiter := rl, store := snd (SetSourceResult (clock w1)
         ((result_for src SourceStatusSuccess attempts)\<lparr>p_Data := map_option
           (\<lambda>r. enc_court (r\<lparr>cr_XMLName := ([], ''CourtRecordResponse'')\<rparr>)) (map_of courtData number)\<rparr>)
         (store o0))\<rparr>) w1
     else
       Finished (o0\<lparr>courtCB := RecordFailure (clock w1) cb, courtLimiter := rl, store := snd (SetSourceResult (clock w1)
         ((result_for src SourceStatusFailed (Attempts src + 5))\<lparr>p_ErrorMsg := Some (error_text
           (if token n then wrap_detail ErrMalformedResponse cut_error else ErrRateLimited))\<rparr>) (store o0))\<rparr>) w1)"
proof -
  let ?n = "length (sent w) + k"
  let ?res = "search_outcome cfg (rolls ?n) cut_error (token ?n) number"
  obtain t rl w1 where w1: "Wait (fst (flip_coin w)) Background (clock w) (courtLimiter o0) = (Granted t, rl)"
    "processCourt Background c src o0 w =
      Finished (o0\<lparr>courtCB := decided_breaker (clock w1) ?res cb, courtLimiter := rl,
        store := snd (SetSourceResult (clock w1)
          (decided_result src (map_option enc_court) k ?res) (store o0))\<rparr>) w1"
    using court_mock_run [OF assms(3-6) refl] unfolding k_def token_def by blast
  have k: "search_settles cfg (rolls ?n) (token ?n) number \<or> k = 4"
    using deciding_facts [of 4 "\<lambda>i. search_settles cfg (rolls (length (sent w) + i)) (token (length (sent w) + i)) number"]
    unfolding k_def [symmetric] by blast
  show ?thesis
    using k w1
    by (intro exI [of _ t] exI [of _ rl] exI [of _ w1])
      (auto simp: Let_def search_outcome_def search_settles_def decided_breaker_def decided_result_def add.assoc
        split: option.splits if_splits)
qed

theorem court_lookup_against_mock_witness:
  "\<exists>t rl w1. processCourt Background mock_case (new_source ''s'' ''r'' SourceCourtRecords) sample_orc
      (scripted_world []\<lparr>net := \<lambda>n. court_exchange mock_config (one_failure n) ''EOF'' 0
        (new_court_limiter mock_config 0) (courtClient sample_orc)\<rparr>) =
    Finished (sample_orc\<lparr>courtCB := RecordSuccess (courtCB sample_orc), courtLimiter := rl,
      store := snd (SetSourceResult (clock w1) ((result_for (new_source ''s'' ''r'' SourceCourtRecords)
        SourceStatusSuccess 2)\<lparr>p_Data := map_option (\<lambda>r. enc_court (r\<lparr>cr_XMLName := ([], ''CourtRecordResponse'')\<rparr>))
          (map_of courtData ''2025-FC-09876'')\<rparr>) sample_db)\<rparr>) w1"
proof -
  let ?w = "scripted_world []\<lparr>net := \<lambda>n. court_exchange mock_config (one_failure n) ''EOF'' 0
    (new_court_limiter mock_config 0) (courtClient sample_orc)\<rparr>"
  let ?number = "''2025-FC-09876''"
  have some: "\<exists>r. map_of courtData ?number = Some r" by (simp add: courtData_def)
  have tok: "fst (cl_allow 0 (new_court_limiter mock_config 0))"
    by (simp add: mock_config_def loadConfig_def envInt_def new_court_limiter_def cl_allow_def Second_def Millisecond_def)
  have settles: "search_settles mock_config (one_failure (length (sent ?w) + i))
      (fst (cl_allow 0 (new_court_limiter mock_config 0))) ?number \<longleftrightarrow> i \<noteq> 0" for i
    using some tok by (auto simp: search_settles_def mock_config one_failure_def scripted_world_def)
  have k: "deciding 4 (\<lambda>i. search_settles mock_config (one_failure (length (sent ?w) + i))
      (fst (cl_allow 0 (new_court_limiter mock_config 0))) ?number) = 1"
    unfolding settles by (simp add: numeral_eq_Suc)
  have s: "court_served mock_config one_failure ''EOF'' (\<lambda>_. 0) (\<lambda>_. new_court_limiter mock_config 0)
      (courtClient sample_orc) ?number ?w"
    by (simp add: court_served_def scripted_world_def)
  have "c_CourtCaseNumber mock_case = Some ?number" by (simp add: mock_case_def)
  from court_lookup_against_mock [OF s this, of "courtCB sample_orc" "new_source ''s'' ''r'' SourceCourtRecords",
      unfolded k]
  show ?thesis using settles [of 1] by (auto simp: Let_def new_source_def)
qed

end
