(* ===== verification/MockScra.thy ===== *)
theory MockScra
  imports MockServices GoTime "HOL-Library.AList"
begin

text \<open>
  The third mock service of \<^verbatim>\<open>mock-services/main.go\<close>, the SCRA service: its map of searches, the
  goroutine of each search, its two handlers, and the runs of the whole service. The clock is
  read once per request. The delays of a configuration are seconds that do not overflow.
\<close>

section \<open>Searches\<close>

record scraSearch =
  se_SearchID :: string
  se_Status :: string
  se_Result :: "SCRAResult option"
  se_Error :: string
  se_SubmittedAt :: time
  se_ReadyAt :: time

text \<open>The searches, and the goroutines that sleep until a search is ready: when, which, how it ends.\<close>

record scra_state =
  searches :: "(string \<times> scraSearch) list"
  timers :: "(time \<times> string \<times> bool) list"

definition format_date :: "int \<Rightarrow> time \<Rightarrow> string" where
  "format_date off t =
     (let (y, m, d) = civil_of_days ((t div Second + off * 60) div 86400) in
      pad 4 y @ ''-'' @ pad 2 m @ ''-'' @ pad 2 d)"

definition request_field :: "string \<Rightarrow> json \<Rightarrow> SCRASearchRequest \<Rightarrow> string + SCRASearchRequest" where
  "request_field k j r =
     (if k = ''lastname'' then store_as (\<lambda>s. r\<lparr>sq_LastName := s\<rparr>) (dec_string (sq_LastName r) j)
      else if k = ''firstname'' then store_as (\<lambda>s. r\<lparr>sq_FirstName := s\<rparr>) (dec_string (sq_FirstName r) j)
      else if k = ''ssnlast4'' then store_as (\<lambda>s. r\<lparr>sq_SSNLast4 := s\<rparr>) (dec_string (sq_SSNLast4 r) j)
      else if k = ''dob'' then store_as (\<lambda>s. r\<lparr>sq_DOB := s\<rparr>) (dec_string (sq_DOB r) j)
      else Inr r)"

definition zero_request :: SCRASearchRequest where
  "zero_request = \<lparr>sq_LastName = [], sq_FirstName = [], sq_SSNLast4 = [], sq_DOB = []\<rparr>"

definition scra_lookup :: "int \<Rightarrow> time \<Rightarrow> SCRASearchRequest \<Rightarrow> bool \<Rightarrow> SCRAResult option" where
  "scra_lookup tz now req willFail =
     (case map_of scraData (lower_str (sq_LastName req)) of
        Some result \<Rightarrow>
          if \<not> willFail then Some (result\<lparr>sr_SearchDate := format_date tz now\<rparr>) else None
      | None \<Rightarrow>
          if \<not> willFail then
            Some \<lparr>sr_ActiveDuty = False, sr_LastName = sq_LastName req, sr_FirstName = sq_FirstName req,
                  sr_SearchDate = format_date tz now, sr_CertificateURL = None\<rparr>
          else None)"

text \<open>
  Submitting: \<open>pick\<close> is the draw of \<^verbatim>\<open>rand.Intn\<close>, which panics when the range is empty, and
  \<open>None\<close> is a handler that panics.
\<close>

definition scra_submit ::
  "config \<Rightarrow> int \<Rightarrow> time \<Rightarrow> int \<Rightarrow> rat \<Rightarrow> string \<Rightarrow> string + json \<Rightarrow> scra_state \<Rightarrow>
     http_response option \<times> scra_state"
where
  "scra_submit cfg tz now pick roll meth body st =
     (if meth \<noteq> ''POST'' then (Some (http_Error ''Method not allowed'' 405), st)
      else
        (case (case body of Inl e \<Rightarrow> Inl e | Inr j \<Rightarrow> dec_struct request_field zero_request j) of
           Inl e \<Rightarrow> (Some (http_Error ''Invalid JSON body'' 400), st)
         | Inr req \<Rightarrow>
             if sq_LastName req = [] then (Some (http_Error ''lastName is required'' 400), st)
             else
               (let searchID = ''scra-'' @ itoa now;
                    range = SCRAMaxDelay cfg - SCRAMinDelay cfg + 1 in
                if range \<le> 0 then (None, st)
                else
                  (let delay = (SCRAMinDelay cfg + pick mod range) * Second;
                       willFail = (roll < SCRAFailRate cfg);
                       search = \<lparr>se_SearchID = searchID, se_Status = ''pending'',
                         se_Result = scra_lookup tz now req willFail, se_Error = [],
                         se_SubmittedAt = now, se_ReadyAt = now + delay\<rparr> in
                   (Some (json_response 202 (JObj
                      [(''estimatedCompletionSeconds'', JInt (SCRAMinDelay cfg + pick mod range)),
                       (''searchId'', JStr searchID), (''status'', JStr ''pending''),
                       (''submittedAt'', JStr (format_rfc3339 tz now))])),
                    \<lparr>searches = AList.update searchID search (searches st),
                     timers = timers st @ [(now + delay, searchID, willFail)]\<rparr>)))))"

text \<open>What the goroutine of a search does when it wakes up.\<close>

definition scra_fire :: "string \<Rightarrow> bool \<Rightarrow> (string \<times> scraSearch) list \<Rightarrow> (string \<times> scraSearch) list" where
  "scra_fire searchID willFail ss =
     (case map_of ss searchID of
        None \<Rightarrow> ss
      | Some search \<Rightarrow>
          if willFail then
            AList.update searchID (search\<lparr>se_Status := ''error'',
              se_Error := ''Search failed: unable to verify military status. The DMDC database returned an unexpected error.''\<rparr>) ss
          else AList.update searchID (search\<lparr>se_Status := ''complete''\<rparr>) ss)"

text \<open>The document of a result, from the tags of the service's own type.\<close>

definition mock_scra_result :: "SCRAResult \<Rightarrow> json" where
  "mock_scra_result r = JObj
     [(''activeDuty'', JBool (sr_ActiveDuty r)), (''lastName'', JStr (sr_LastName r)),
      (''firstName'', JStr (sr_FirstName r)), (''searchDate'', JStr (sr_SearchDate r)),
      (''certificateUrl'', enc_string_ptr (sr_CertificateURL r))]"

lemma mock_scra_result_eq [simp]: "mock_scra_result r = enc_scra_result r"
  by (simp add: mock_scra_result_def enc_scra_result_def)

definition scra_poll :: "int \<Rightarrow> string \<Rightarrow> string \<Rightarrow> scra_state \<Rightarrow> http_response option" where
  "scra_poll tz meth path st =
     (if meth \<noteq> ''GET'' then Some (http_Error ''Method not allowed'' 405)
      else
        (let searchID = TrimPrefix path ''/api/scra/results/'' in
         if searchID = [] then Some (http_Error ''searchId is required'' 400)
         else
           (case map_of (searches st) searchID of
              None \<Rightarrow> Some (json_response 404 (JObj
                [(''error'', JStr ''Search not found''), (''searchId'', JStr searchID)]))
            | Some search \<Rightarrow>
                if se_Status search = ''pending'' then
                  Some (json_response 202 (JObj [(''searchId'', JStr searchID), (''status'', JStr ''pending'')]))
                else if se_Status search = ''complete'' then
                  (case se_Result search of
                     None \<Rightarrow> None
                   | Some r \<Rightarrow> Some (json_response 200 (JObj
                       [(''completedAt'', JStr (format_rfc3339 tz (se_ReadyAt search))),
                        (''result'', mock_scra_result r),
                        (''searchId'', JStr searchID), (''status'', JStr ''complete'')])))
                else if se_Status search = ''error'' then
                  Some (json_response 200 (JObj
                    [(''error'', JStr (se_Error search)), (''searchId'', JStr searchID),
                     (''status'', JStr ''error'')]))
                else Some (text_response 200 []))))"

definition scra_route ::
  "config \<Rightarrow> int \<Rightarrow> time \<Rightarrow> int \<Rightarrow> rat \<Rightarrow> string \<Rightarrow> string \<Rightarrow> string + json \<Rightarrow> scra_state \<Rightarrow>
     http_response option \<times> scra_state"
where
  "scra_route cfg tz now pick roll meth path body st =
     (if path = ''/api/scra/search'' then scra_submit cfg tz now pick roll meth body st
      else if prefix_of ''/api/scra/results/'' path then (scra_poll tz meth path st, st)
      else (Some no_route, st))"

section \<open>The three services\<close>

text \<open>
  \<^verbatim>\<open>main\<close>: the addresses of the services and what each starts with. The listeners end the
  program with \<^verbatim>\<open>log.Fatal\<close> when they fail.
\<close>

datatype mock_handler =
  PropertyHandler config | CourtHandler config courtRateLimiter | SCRAHandler config scra_state

definition mock_main ::
  "(string \<Rightarrow> rat option) \<Rightarrow> (string \<Rightarrow> string) \<Rightarrow> time \<Rightarrow> (string \<times> mock_handler) list"
where
  "mock_main ParseFloat env now =
     (let cfg = loadConfig ParseFloat env in
      [('':9001'', PropertyHandler cfg),
       ('':9002'', CourtHandler cfg (new_court_limiter cfg now)),
       ('':9003'', SCRAHandler cfg \<lparr>searches = [], timers = []\<rparr>)])"

section \<open>Search IDs\<close>

text \<open>Decimal numerals, and so the IDs of searches, tell numbers apart.\<close>

lemma digits_value_snoc: "digits_value (s @ [c]) = 10 * digits_value s + (of_char c - 48)"
  by (simp add: digits_value_def)

lemma of_char_digit: "d < 10 \<Longrightarrow> (of_char (digit d) :: int) = 48 + int d"
proof -
  assume "d < 10"
  then have "(of_char (digit d) :: nat) = 48 + d" by (simp add: digit_def)
  then show ?thesis by (metis of_nat_of_char of_nat_add of_nat_numeral)
qed

lemma digits_value_nat_digits: "digits_value (nat_digits n) = int n"
proof (induction n rule: nat_digits.induct)
  case (1 n)
  show ?case
  proof (cases "n < 10")
    case True
    then show ?thesis by (subst nat_digits.simps) (simp add: digits_value_def of_char_digit)
  next
    case False
    then have "digits_value (nat_digits n) = 10 * int (n div 10) + int (n mod 10)"
      using 1 by (subst nat_digits.simps) (simp add: digits_value_snoc of_char_digit)
    then show ?thesis by (metis of_nat_add of_nat_mult of_nat_numeral mult_div_mod_eq)
  qed
qed

lemma nat_digits_no_sign: "CHR ''-'' \<notin> set (nat_digits n)"
proof (induction n rule: nat_digits.induct)
  case (1 n)
  have "CHR ''-'' \<noteq> digit d" if "d < 10" for d
  proof
    assume "CHR ''-'' = digit d"
    then have "(of_char (CHR ''-'') :: int) = 48 + int d" using of_char_digit [OF that] by simp
    then show False by simp
  qed
  with 1 show ?case by (subst nat_digits.simps) auto
qed

lemma itoa_inject [simp]: "itoa i = itoa j \<longleftrightarrow> i = j"
proof
  assume a: "itoa i = itoa j"
  have "CHR ''-'' \<in> set (itoa k) \<longleftrightarrow> k < 0" for k
    using nat_digits_no_sign by (auto simp: itoa_def)
  then have s: "i < 0 \<longleftrightarrow> j < 0" using a by metis
  have "digits_value (nat_digits (nat \<bar>i\<bar>)) = digits_value (nat_digits (nat \<bar>j\<bar>))"
    using a s by (auto simp: itoa_def split: if_splits)
  with s show "i = j" by (auto simp: digits_value_nat_digits)
qed simp

section \<open>Runs\<close>

text \<open>
  A run of the service, with the time of its last event. Submissions happen at different
  nanoseconds. A goroutine wakes up when its delay is over or later.
\<close>

inductive scra_run :: "config \<Rightarrow> int \<Rightarrow> time \<Rightarrow> scra_state \<Rightarrow> bool" for cfg tz where
  start: "scra_run cfg tz t \<lparr>searches = [], timers = []\<rparr>"
| submit: "scra_run cfg tz t st \<Longrightarrow> t < now \<Longrightarrow>
    scra_run cfg tz now (snd (scra_submit cfg tz now pick roll meth body st))"
| fire: "scra_run cfg tz t st \<Longrightarrow> (due, searchID, willFail) \<in> set (timers st) \<Longrightarrow> due \<le> now \<Longrightarrow> t \<le> now \<Longrightarrow>
    scra_run cfg tz now
      \<lparr>searches = scra_fire searchID willFail (searches st),
       timers = remove1 (due, searchID, willFail) (timers st)\<rparr>"

definition search_ok :: "config \<Rightarrow> time \<Rightarrow> (time \<times> string \<times> bool) list \<Rightarrow> string \<Rightarrow> scraSearch \<Rightarrow> bool" where
  "search_ok cfg t ts searchID se \<longleftrightarrow>
     searchID = ''scra-'' @ itoa (se_SubmittedAt se) \<and> se_SubmittedAt se \<le> t \<and>
     se_ReadyAt se \<le> se_SubmittedAt se + SCRAMaxDelay cfg * Second \<and>
     (se_Status se = ''pending'' \<and> (\<exists>f. (se_ReadyAt se, searchID, f) \<in> set ts) \<or>
      se_Status se = ''complete'' \<and> se_Result se \<noteq> None \<or> se_Status se = ''error'')"

definition scra_inv :: "config \<Rightarrow> time \<Rightarrow> scra_state \<Rightarrow> bool" where
  "scra_inv cfg t st \<longleftrightarrow>
     (\<forall>i se. map_of (searches st) i = Some se \<longrightarrow> search_ok cfg t (timers st) i se) \<and>
     (\<forall>d i f. (d, i, f) \<in> set (timers st) \<longrightarrow>
        (\<exists>se. map_of (searches st) i = Some se \<and> (\<not> f \<longrightarrow> se_Result se \<noteq> None)))"

lemma search_ok_later: "search_ok cfg t ts i se \<Longrightarrow> t \<le> now \<Longrightarrow> set ts \<subseteq> set ts' \<Longrightarrow> search_ok cfg now ts' i se"
  by (auto simp: search_ok_def)

lemma scra_inv_later: "scra_inv cfg t st \<Longrightarrow> t \<le> now \<Longrightarrow> scra_inv cfg now st"
  by (auto simp: scra_inv_def intro: search_ok_later)

lemma scra_lookup_result: "scra_lookup tz now req f = None \<longleftrightarrow> f"
  by (auto simp: scra_lookup_def split: option.splits)

text \<open>A submission either leaves the state alone or adds one search, with its goroutine.\<close>

lemma scra_submit_cases:
  obtains "snd (scra_submit cfg tz now pick roll meth body st) = st"
  | se f where "snd (scra_submit cfg tz now pick roll meth body st) =
      \<lparr>searches = AList.update (''scra-'' @ itoa now) se (searches st),
       timers = timers st @ [(se_ReadyAt se, ''scra-'' @ itoa now, f)]\<rparr>"
    "se_SubmittedAt se = now" "se_ReadyAt se \<le> now + SCRAMaxDelay cfg * Second"
    "se_Status se = ''pending''" "\<not> f \<Longrightarrow> se_Result se \<noteq> None"
proof -
  let ?range = "SCRAMaxDelay cfg - SCRAMinDelay cfg + 1" and ?f = "roll < SCRAFailRate cfg"
  let ?parsed = "case body of Inl e \<Rightarrow> Inl e | Inr j \<Rightarrow> dec_struct request_field zero_request j"
  show thesis
  proof (cases "meth = ''POST'' \<and> 0 < ?range \<and> (\<exists>req. ?parsed = Inr req \<and> sq_LastName req \<noteq> [])")
    case True
    then obtain req where req: "meth = ''POST''" "?parsed = Inr req" "sq_LastName req \<noteq> []" and range: "0 < ?range"
      by blast
    let ?delay = "(SCRAMinDelay cfg + pick mod ?range) * Second"
    let ?se = "\<lparr>se_SearchID = ''scra-'' @ itoa now, se_Status = ''pending'',
      se_Result = scra_lookup tz now req ?f, se_Error = [], se_SubmittedAt = now, se_ReadyAt = now + ?delay\<rparr>"
    from range have "pick mod ?range < ?range" by (rule pos_mod_bound)
    then have "?delay \<le> SCRAMaxDelay cfg * Second" by (intro mult_right_mono) auto
    moreover from req range have "snd (scra_submit cfg tz now pick roll meth body st) =
        \<lparr>searches = AList.update (''scra-'' @ itoa now) ?se (searches st),
         timers = timers st @ [(now + ?delay, ''scra-'' @ itoa now, ?f)]\<rparr>"
      unfolding scra_submit_def Let_def req(2) sum.case by (simp add: not_le)
    ultimately show thesis using that(2) [of ?se ?f] by (simp add: scra_lookup_result)
  next
    case False
    then have "snd (scra_submit cfg tz now pick roll meth body st) = st"
      unfolding scra_submit_def Let_def by (cases ?parsed) auto
    then show thesis by (rule that(1))
  qed
qed

lemma scra_inv_submit:
  assumes "scra_inv cfg t st" "t < now"
  shows "scra_inv cfg now (snd (scra_submit cfg tz now pick roll meth body st))"
proof (cases rule: scra_submit_cases [of cfg tz now pick roll meth body st])
  case 1
  with assms show ?thesis by (auto intro: scra_inv_later)
next
  case (2 se f)
  let ?id = "''scra-'' @ itoa now"
  have fresh: "map_of (searches st) ?id = None"
  proof (rule ccontr)
    assume "\<not> ?thesis"
    then obtain x where "map_of (searches st) ?id = Some x" by auto
    with assms(1) have "search_ok cfg t (timers st) ?id x" by (simp add: scra_inv_def)
    with assms(2) show False by (simp add: search_ok_def)
  qed
  from assms have old: "search_ok cfg now (timers st @ [(se_ReadyAt se, ?id, f)]) i x"
    if "map_of (searches st) i = Some x" for i x
    using that unfolding scra_inv_def by (metis search_ok_later less_imp_le set_append Un_upper1)
  have new: "search_ok cfg now (timers st @ [(se_ReadyAt se, ?id, f)]) ?id se"
    using 2 by (auto simp: search_ok_def)
  from assms(1) fresh have tm: "i \<noteq> ?id \<and> (\<exists>x. map_of (searches st) i = Some x \<and> (\<not> g \<longrightarrow> se_Result x \<noteq> None))"
    if "(d, i, g) \<in> set (timers st)" for d i g
    using that unfolding scra_inv_def by (metis option.distinct(1))
  show ?thesis
    unfolding 2(1) scra_inv_def scra_state.simps update_conv' map_upd_Some_unfold
    using old new tm 2(5) by (auto split: if_splits)
qed

text \<open>A goroutine decides its own search and touches no other.\<close>

definition settle :: "bool \<Rightarrow> scraSearch \<Rightarrow> scraSearch" where
  "settle willFail se =
     (if willFail then se\<lparr>se_Status := ''error'',
        se_Error := ''Search failed: unable to verify military status. The DMDC database returned an unexpected error.''\<rparr>
      else se\<lparr>se_Status := ''complete''\<rparr>)"

lemma scra_fire_lookup:
  "map_of (scra_fire i f ss) j = (if j = i then map_option (settle f) (map_of ss i) else map_of ss j)"
  by (simp add: scra_fire_def settle_def update_conv' split: option.splits)

lemma settle_simps [simp]:
  "se_SubmittedAt (settle f se) = se_SubmittedAt se" "se_ReadyAt (settle f se) = se_ReadyAt se"
  "se_Result (settle f se) = se_Result se"
  "se_Status (settle f se) = (if f then ''error'' else ''complete'')"
  by (simp_all add: settle_def)

lemma scra_inv_fire:
  assumes "scra_inv cfg t st" "(due, i, f) \<in> set (timers st)" "t \<le> now"
  shows "scra_inv cfg now
    \<lparr>searches = scra_fire i f (searches st), timers = remove1 (due, i, f) (timers st)\<rparr>"
proof -
  let ?ts = "remove1 (due, i, f) (timers st)" and ?ss = "scra_fire i f (searches st)"
  obtain se where se: "map_of (searches st) i = Some se" "\<not> f \<longrightarrow> se_Result se \<noteq> None"
    using assms(1,2) unfolding scra_inv_def by blast
  have "search_ok cfg now ?ts j x" if "map_of ?ss j = Some x" for j x
  proof (cases "j = i")
    case True
    with that se have x: "x = settle f se" by (simp add: scra_fire_lookup)
    from assms(1) se have "search_ok cfg t (timers st) i se" unfolding scra_inv_def by blast
    with se(2) assms(3) True x show ?thesis by (auto simp: search_ok_def)
  next
    case False
    with that have "map_of (searches st) j = Some x" by (simp add: scra_fire_lookup)
    with assms(1) have "search_ok cfg t (timers st) j x" unfolding scra_inv_def by blast
    with False assms(3) show ?thesis by (auto simp: search_ok_def)
  qed
  moreover have "\<exists>x. map_of ?ss j = Some x \<and> (\<not> g \<longrightarrow> se_Result x \<noteq> None)"
    if "(d, j, g) \<in> set ?ts" for d j g
  proof -
    from that have "(d, j, g) \<in> set (timers st)" by (rule subsetD [OF set_remove1_subset])
    with assms(1) obtain x where "map_of (searches st) j = Some x" "\<not> g \<longrightarrow> se_Result x \<noteq> None"
      unfolding scra_inv_def by blast
    then show ?thesis by (cases "j = i") (auto simp: scra_fire_lookup)
  qed
  ultimately show ?thesis by (simp add: scra_inv_def)
qed

lemma scra_run_inv: "scra_run cfg tz t st \<Longrightarrow> scra_inv cfg t st"
proof (induction rule: scra_run.induct)
  case (start t)
  show ?case by (simp add: scra_inv_def)
qed (simp_all add: scra_inv_submit scra_inv_fire)

text \<open>A run of the examples: one search for a service member, submitted at \<open>now\<close>.\<close>

definition sample_body :: "string + json" where
  "sample_body = Inr (JObj [(''lastName'', JStr ''Johnson''), (''firstName'', JStr ''Marcus'')])"

definition sample_submit :: "rat \<Rightarrow> time \<Rightarrow> scra_state \<Rightarrow> scra_state" where
  "sample_submit roll now st = snd (scra_submit (loadConfig (\<lambda>_. None) (\<lambda>_. [])) 0 now 0 roll ''POST'' sample_body st)"

lemma default_config:
  "SCRAFailRate (loadConfig (\<lambda>_. None) (\<lambda>_. [])) = 1 / 10"
  "SCRAMinDelay (loadConfig (\<lambda>_. None) (\<lambda>_. [])) = 2" "SCRAMaxDelay (loadConfig (\<lambda>_. None) (\<lambda>_. [])) = 5"
  by (simp_all add: loadConfig_def envFloat_def envInt_def)

lemma sample_request: "dec_struct request_field zero_request
    (JObj [(''lastName'', JStr ''Johnson''), (''firstName'', JStr ''Marcus'')]) =
   Inr (zero_request\<lparr>sq_LastName := ''Johnson'', sq_FirstName := ''Marcus''\<rparr>)"
  by code_simp

lemma sample_submit:
  "sample_submit roll now st =
     (let id = ''scra-'' @ itoa now; f = (roll < 1 / 10) in
      \<lparr>searches = AList.update id \<lparr>se_SearchID = id, se_Status = ''pending'',
         se_Result = scra_lookup 0 now (zero_request\<lparr>sq_LastName := ''Johnson'', sq_FirstName := ''Marcus''\<rparr>) f,
         se_Error = [], se_SubmittedAt = now, se_ReadyAt = now + 2 * Second\<rparr> (searches st),
       timers = timers st @ [(now + 2 * Second, id, f)]\<rparr>)"
  unfolding sample_submit_def scra_submit_def sample_body_def sum.case sample_request
  by (simp add: default_config Let_def)

lemma scra_poll_found:
  "i \<noteq> [] \<Longrightarrow> map_of (searches st) i = Some se \<Longrightarrow>
   scra_poll tz ''GET'' (''/api/scra/results/'' @ i) st =
     (if se_Status se = ''pending'' then
        Some (json_response 202 (JObj [(''searchId'', JStr i), (''status'', JStr ''pending'')]))
      else if se_Status se = ''complete'' then
        map_option (\<lambda>r. json_response 200 (JObj
          [(''completedAt'', JStr (format_rfc3339 tz (se_ReadyAt se))), (''result'', enc_scra_result r),
           (''searchId'', JStr i), (''status'', JStr ''complete'')])) (se_Result se)
      else if se_Status se = ''error'' then
        Some (json_response 200 (JObj
          [(''error'', JStr (se_Error se)), (''searchId'', JStr i), (''status'', JStr ''error'')]))
      else Some (text_response 200 []))"
  unfolding scra_poll_def TrimPrefix_append Let_def by (simp split: option.splits)

text \<open>
  In no state the service reaches does a poll panic, whatever was submitted and
  however the draws and delays went: a search is complete only when it has a result to
  dereference.
\<close>

theorem scra_mock_never_panics:
  assumes "scra_run cfg tz t st"
  shows "scra_poll tz meth path st \<noteq> None"
proof -
  have res: "se_Result se \<noteq> None" if "map_of (searches st) i = Some se" "se_Status se = ''complete''" for i se
  proof -
    from scra_run_inv [OF assms] that(1) have "search_ok cfg t (timers st) i se" by (simp add: scra_inv_def)
    with that(2) show ?thesis by (simp add: search_ok_def)
  qed
  show ?thesis by (auto simp: scra_poll_def Let_def dest: res split: option.splits)
qed

theorem scra_mock_never_panics_witness:
  "scra_poll 0 ''GET'' ''/api/scra/results/scra-7'' (sample_submit 1 7 \<lparr>searches = [], timers = []\<rparr>) \<noteq> None"
proof (rule scra_mock_never_panics)
  show "scra_run (loadConfig (\<lambda>_. None) (\<lambda>_. [])) 0 7 (sample_submit 1 7 \<lparr>searches = [], timers = []\<rparr>)"
    unfolding sample_submit_def by (rule scra_run.submit [OF scra_run.start [of _ _ 0]]) simp
qed



text \<open>
  Two searches submitted in the same nanosecond share an ID, and the goroutine of the
  first then completes the second: when that one was to fail it has no result, and the next
  poll dereferences a nil pointer.
\<close>

theorem same_nanosecond_panics:
  "let st = sample_submit 0 now (sample_submit 1 now \<lparr>searches = [], timers = []\<rparr>);
       (due, i, f) = hd (timers st) in
   map snd (timers st) = [(i, False), (i, True)] \<and>
   scra_poll tz ''GET'' (''/api/scra/results/'' @ i) (st\<lparr>searches := scra_fire i f (searches st)\<rparr>) = None"
proof -
  let ?st = "sample_submit 0 now (sample_submit 1 now \<lparr>searches = [], timers = []\<rparr>)" and ?i = "''scra-'' @ itoa now"
  have t: "timers ?st = [(now + 2 * Second, ?i, False), (now + 2 * Second, ?i, True)]"
    by (simp add: sample_submit Let_def)
  obtain se where se: "map_of (searches ?st) ?i = Some se" "se_Result se = None"
    by (simp add: sample_submit Let_def scra_lookup_result update_conv')
  let ?st1 = "?st\<lparr>searches := scra_fire ?i False (searches ?st)\<rparr>"
  have "map_of (searches ?st1) ?i = Some (settle False se)" using se by (simp add: scra_fire_lookup)
  from scra_poll_found [OF _ this, of tz] se(2)
  have "scra_poll tz ''GET'' (''/api/scra/results/'' @ ?i) ?st1 = None" by simp
  with t show ?thesis by (simp only: Let_def list.sel prod.case list.map snd_conv simp_thms)
qed

end
