(* ===== verification/MockScraLookup.thy ===== *)
theory MockScraLookup
  imports MockScra SourceProcess
begin

text \<open>
  The SCRA processor against the mock service, both sides with their clocks: the gateway submits
  at one instant and polls every second after it, the service keeps the search and a goroutine
  that settles it. Other clients may use the service in between.
\<close>

section \<open>The service behind the client\<close>

text \<open>A handler that panics closes the connection: \<^verbatim>\<open>net/http\<close> recovers, the client reads EOF.\<close>

definition scra_exchange ::
  "config \<Rightarrow> int \<Rightarrow> time \<Rightarrow> int \<Rightarrow> rat \<Rightarrow> scra_state \<Rightarrow> SCRAClient \<Rightarrow> http_request \<Rightarrow> exchange"
where
  "scra_exchange cfg tz now pick roll st c req =
     (case fst (scra_route cfg tz now pick roll (req_method req) (drop (length (sc_baseURL c)) (req_url req))
         (case req_body req of None \<Rightarrow> Inl ''EOF'' | Some j \<Rightarrow> Inr j) st) of
        None \<Rightarrow> NoReply 0 ''EOF'' False
      | Some resp \<Rightarrow> Reply 0 resp)"

lemma scra_keys [simp]:
  "lower_str ''lastName'' = ''lastname''" "lower_str ''firstName'' = ''firstname''"
  "lower_str ''ssnLast4'' = ''ssnlast4''" "lower_str ''dob'' = ''dob''"
  "lower_str ''searchId'' = ''searchid''" "lower_str ''status'' = ''status''"
  "lower_str ''submittedAt'' = ''submittedat''"
  "lower_str ''estimatedCompletionSeconds'' = ''estimatedcompletionseconds''"
  "lower_str ''completedAt'' = ''completedat''" "lower_str ''result'' = ''result''"
  "lower_str ''error'' = ''error''" "lower_str ''activeDuty'' = ''activeduty''"
  "lower_str ''searchDate'' = ''searchdate''" "lower_str ''certificateUrl'' = ''certificateurl''"
  by code_simp+

lemma dec_search_request: "dec_struct request_field zero_request (enc_search_request q) = Inr q"
  by (simp add: enc_search_request_def request_field_def zero_request_def)

lemma dec_scra_result: "dec_struct scra_result_field r0 (enc_scra_result r) = Inr r"
  by (cases "sr_CertificateURL r")
    (simp_all add: enc_scra_result_def scra_result_field_def enc_string_ptr_def dec_string_ptr_def)

lemma dec_poll_complete:
  "dec_poll (JObj [(''completedAt'', JStr t), (''result'', enc_scra_result r), (''searchId'', JStr i),
     (''status'', JStr ''complete'')]) =
   Inr \<lparr>sp_SearchID = i, sp_Status = ''complete'', sp_Result = Some r, sp_Error = [], sp_CompletedAt = t\<rparr>"
  by (simp add: dec_poll_def poll_field_def zero_poll_def dec_result_ptr_def dec_scra_result)
    (simp add: enc_scra_result_def)

lemma dec_poll_error:
  "dec_poll (JObj [(''error'', JStr e), (''searchId'', JStr i), (''status'', JStr ''error'')]) =
   Inr \<lparr>sp_SearchID = i, sp_Status = ''error'', sp_Result = None, sp_Error = e, sp_CompletedAt = []\<rparr>"
  by (simp add: dec_poll_def poll_field_def zero_poll_def)

lemma dec_submit_accepted:
  "int64 n \<Longrightarrow> dec_submit (JObj [(''estimatedCompletionSeconds'', JInt n), (''searchId'', JStr i),
     (''status'', JStr ''pending''), (''submittedAt'', JStr t)]) =
   Inr \<lparr>sb_SearchID = i, sb_Status = ''pending'', sb_SubmittedAt = t, sb_EstimatedCompletionSeconds = n\<rparr>"
  by (simp add: dec_submit_def submit_field_def zero_submit_def)

section \<open>Submitting\<close>

text \<open>The search that a submission at \<open>now\<close> starts.\<close>

definition started_search :: "config \<Rightarrow> int \<Rightarrow> time \<Rightarrow> int \<Rightarrow> rat \<Rightarrow> SCRASearchRequest \<Rightarrow> scraSearch" where
  "started_search cfg tz now pick roll q =
     \<lparr>se_SearchID = ''scra-'' @ itoa now, se_Status = ''pending'',
      se_Result = scra_lookup tz now q (roll < SCRAFailRate cfg), se_Error = [], se_SubmittedAt = now,
      se_ReadyAt = now + (SCRAMinDelay cfg + pick mod (SCRAMaxDelay cfg - SCRAMinDelay cfg + 1)) * Second\<rparr>"

lemma scra_submit_started:
  assumes "sq_LastName q \<noteq> []" "SCRAMinDelay cfg \<le> SCRAMaxDelay cfg"
  shows "scra_submit cfg tz now pick roll ''POST'' (Inr (enc_search_request q)) st =
    (let se = started_search cfg tz now pick roll q in
     (Some (json_response 202 (JObj
        [(''estimatedCompletionSeconds'', JInt (SCRAMinDelay cfg + pick mod (SCRAMaxDelay cfg - SCRAMinDelay cfg + 1))),
         (''searchId'', JStr (se_SearchID se)), (''status'', JStr ''pending''),
         (''submittedAt'', JStr (format_rfc3339 tz now))])),
      \<lparr>searches = AList.update (se_SearchID se) se (searches st),
       timers = timers st @ [(se_ReadyAt se, se_SearchID se, roll < SCRAFailRate cfg)]\<rparr>))"
  using assms by (simp add: scra_submit_def dec_search_request started_search_def Let_def)

lemma SubmitSearch_mock:
  assumes "sq_LastName q \<noteq> []" "0 \<le> SCRAMinDelay cfg" "SCRAMinDelay cfg \<le> SCRAMaxDelay cfg"
    and "int64 (SCRAMaxDelay cfg)"
    and "url_error w (req_url (submit_request c q)) = None"
    and "net w (length (sent w)) (submit_request c q) =
      scra_exchange cfg tz (clock w) pick roll st c (submit_request c q)"
  shows "SubmitSearch c q Background w = (Inr (''scra-'' @ itoa (clock w)), replied (clock w) (submit_request c q) w)"
proof -
  let ?req = "submit_request c q" and ?n = "SCRAMinDelay cfg + pick mod (SCRAMaxDelay cfg - SCRAMinDelay cfg + 1)"
  have "0 \<le> pick mod (SCRAMaxDelay cfg - SCRAMinDelay cfg + 1)"
    "pick mod (SCRAMaxDelay cfg - SCRAMinDelay cfg + 1) < SCRAMaxDelay cfg - SCRAMinDelay cfg + 1"
    using assms(3) by (intro pos_mod_sign pos_mod_bound; simp)+
  with assms(2,4) have n: "int64 ?n" by (auto simp: int64_def)
  let ?resp = "json_response 202 (JObj [(''estimatedCompletionSeconds'', JInt ?n),
    (''searchId'', JStr (''scra-'' @ itoa (clock w))), (''status'', JStr ''pending''),
    (''submittedAt'', JStr (format_rfc3339 tz (clock w)))])"
  have e: "net w (length (sent w)) ?req = Reply 0 ?resp"
    unfolding assms(6)
    by (simp add: scra_exchange_def submit_request_def scra_route_def scra_submit_started [OF assms(1,3)]
        started_search_def Let_def)
  have "call_service Background scraHTTPTimeout ?req w = (Inr (?resp,
      \<lparr>body_text = [], body_json = Inr (JObj [(''estimatedCompletionSeconds'', JInt ?n),
    (''searchId'', JStr (''scra-'' @ itoa (clock w))), (''status'', JStr ''pending''),
    (''submittedAt'', JStr (format_rfc3339 tz (clock w)))]), body_xml = Inl ''EOF''\<rparr>), replied (clock w) ?req w)"
    using reply_before_deadline [OF assms(5) e, of scraHTTPTimeout _ Background]
    by (simp add: scraHTTPTimeout_def Background_def)
  then show ?thesis by (simp add: SubmitSearch_def Unmarshal_def dec_submit_accepted [OF n])
qed

section \<open>One search while time passes\<close>

text \<open>What the service does from one moment to a later one; the steps are those of \<open>scra_run\<close>.\<close>

inductive scra_path :: "config \<Rightarrow> int \<Rightarrow> time \<Rightarrow> scra_state \<Rightarrow> time \<Rightarrow> scra_state \<Rightarrow> bool" for cfg tz t0 st0 where
  stay: "t0 \<le> t \<Longrightarrow> scra_path cfg tz t0 st0 t st0"
| submit: "scra_path cfg tz t0 st0 t st \<Longrightarrow> t < now \<Longrightarrow>
    scra_path cfg tz t0 st0 now (snd (scra_submit cfg tz now pick roll meth body st))"
| fire: "scra_path cfg tz t0 st0 t st \<Longrightarrow> (due, searchID, willFail) \<in> set (timers st) \<Longrightarrow> due \<le> now \<Longrightarrow> t \<le> now \<Longrightarrow>
    scra_path cfg tz t0 st0 now
      \<lparr>searches = scra_fire searchID willFail (searches st),
       timers = remove1 (due, searchID, willFail) (timers st)\<rparr>"

lemma scra_path_later: "scra_path cfg tz t0 st0 t st \<Longrightarrow> t0 \<le> t"
  by (induction rule: scra_path.induct) auto

text \<open>No goroutine is later than \<open>lag\<close>.\<close>

definition no_later :: "duration \<Rightarrow> time \<Rightarrow> scra_state \<Rightarrow> bool" where
  "no_later lag t st \<longleftrightarrow> (\<forall>(due, i, f) \<in> set (timers st). t \<le> due + lag)"

text \<open>
  The search \<open>i\<close> is \<open>se\<close> with its goroutine waiting, or what that goroutine makes of it.
\<close>

definition tracked :: "string \<Rightarrow> bool \<Rightarrow> scraSearch \<Rightarrow> scra_state \<Rightarrow> bool" where
  "tracked i f se st \<longleftrightarrow>
     (map_of (searches st) i = Some se \<and> (se_ReadyAt se, i, f) \<in> set (timers st) \<or>
      map_of (searches st) i = Some (settle f se)) \<and>
     (\<forall>d g. (d, i, g) \<in> set (timers st) \<longrightarrow> d = se_ReadyAt se \<and> g = f)"

lemma settle_idem [simp]: "settle f (settle f se) = settle f se"
  by (simp add: settle_def)

lemma tracked_submit:
  assumes "tracked i f se st" "i \<noteq> ''scra-'' @ itoa now"
  shows "tracked i f se (snd (scra_submit cfg tz now pick roll meth body st))"
proof (cases rule: scra_submit_cases [of cfg tz now pick roll meth body st])
  case 1
  with assms(1) show ?thesis by simp
next
  case (2 x g)
  with assms show ?thesis by (auto simp: tracked_def update_conv')
qed

lemma tracked_fire:
  assumes "tracked i f se st" "(due, j, g) \<in> set (timers st)"
  shows "tracked i f se \<lparr>searches = scra_fire j g (searches st), timers = remove1 (due, j, g) (timers st)\<rparr>"
proof -
  let ?ts = "remove1 (due, j, g) (timers st)"
  have sub: "\<forall>d h. (d, i, h) \<in> set ?ts \<longrightarrow> d = se_ReadyAt se \<and> h = f"
    using assms(1) set_remove1_subset [of "(due, j, g)" "timers st"] unfolding tracked_def by blast
  show ?thesis
  proof (cases "j = i")
    case True
    with assms have "g = f" unfolding tracked_def by blast
    moreover have "map_of (searches st) i = Some se \<or> map_of (searches st) i = Some (settle f se)"
      using assms(1) unfolding tracked_def by blast
    ultimately have "map_of (scra_fire j g (searches st)) i = Some (settle f se)"
      unfolding scra_fire_lookup using True by (elim disjE) simp_all
    with sub show ?thesis by (simp add: tracked_def)
  next
    case False
    then have "(d, i, h) \<in> set ?ts \<longleftrightarrow> (d, i, h) \<in> set (timers st)" for d h
      using in_set_remove1 [of "(d, i, h)" "(due, j, g)"] by simp
    moreover have "map_of (scra_fire j g (searches st)) i = map_of (searches st) i"
      using False by (simp add: scra_fire_lookup)
    ultimately show ?thesis using assms(1) by (simp add: tracked_def)
  qed
qed

lemma tracked_path:
  assumes "scra_path cfg tz t0 st0 t st" "tracked i f se st0" "\<And>now. t0 < now \<Longrightarrow> i \<noteq> ''scra-'' @ itoa now"
  shows "tracked i f se st"
  using assms
proof (induction rule: scra_path.induct)
  case (submit t st now pick roll meth body)
  with scra_path_later [OF submit.hyps(1)] show ?case by (intro tracked_submit) auto
next
  case (fire t st due j g now)
  then show ?case by (intro tracked_fire) auto
qed

text \<open>Right after its submission a search is tracked, and some time after it is due it is settled.\<close>

lemma tracked_started:
  assumes "scra_run cfg tz t st" "t < now" "sq_LastName q \<noteq> []" "SCRAMinDelay cfg \<le> SCRAMaxDelay cfg"
  shows "tracked (''scra-'' @ itoa now) (roll < SCRAFailRate cfg) (started_search cfg tz now pick roll q)
    (snd (scra_submit cfg tz now pick roll ''POST'' (Inr (enc_search_request q)) st))"
proof -
  define i where "i = ''scra-'' @ itoa now"
  define se where "se = started_search cfg tz now pick roll q"
  have new: "tracked i f se \<lparr>searches = AList.update i se ss, timers = ts @ [(se_ReadyAt se, i, f)]\<rparr>"
    if "\<forall>d g. (d, i, g) \<notin> set ts" for f ss ts
    using that by (simp add: tracked_def update_conv')
  have "(d, i, g) \<notin> set (timers st)" for d g
  proof
    assume "(d, i, g) \<in> set (timers st)"
    with scra_run_inv [OF assms(1)] obtain x where x: "map_of (searches st) i = Some x"
      unfolding scra_inv_def by blast
    with scra_run_inv [OF assms(1)] have "search_ok cfg t (timers st) i x"
      by (simp add: scra_inv_def)
    with assms(2) show False by (simp add: search_ok_def i_def)
  qed
  moreover have "se_SearchID se = i" by (simp add: se_def started_search_def i_def)
  ultimately show ?thesis
    unfolding scra_submit_started [OF assms(3,4)] Let_def snd_conv i_def [symmetric] se_def [symmetric]
    using new by simp
qed

lemma tracked_settled:
  assumes "tracked i f se st" "no_later lag t st" "se_ReadyAt se + lag < t"
  shows "map_of (searches st) i = Some (settle f se)"
proof -
  have "(se_ReadyAt se, i, f) \<notin> set (timers st)"
    using assms(2,3) unfolding no_later_def by fastforce
  with assms(1) show ?thesis unfolding tracked_def by blast
qed

section \<open>Polling\<close>

definition poll_answer :: "scraSearch \<Rightarrow> SCRAResult option \<times> string \<times> goerr option" where
  "poll_answer x =
     (if se_Status x = ''pending'' then (None, ''pending'', None)
      else if se_Status x = ''complete'' then (se_Result x, ''complete'', None)
      else (None, ''error'', Some (wrap_detail ErrSearchFailed (se_Error x))))"

lemma scra_poll_exchange:
  assumes "i \<noteq> []" "map_of (searches st) i = Some x" "scra_poll tz ''GET'' (''/api/scra/results/'' @ i) st = Some resp"
  shows "scra_exchange cfg tz now pick roll st c (poll_request c i) = Reply 0 resp"
proof -
  define path where "path = ''/api/scra/results/'' @ i"
  have p: "path \<noteq> ''/api/scra/search''" "prefix_of ''/api/scra/results/'' path"
    unfolding path_def by (simp, rule prefix_of_append)
  have "drop (length (sc_baseURL c)) (req_url (poll_request c i)) = path" "req_method (poll_request c i) = ''GET''"
    by (simp_all add: poll_request_def path_def)
  then show ?thesis
    using assms(3) p unfolding path_def [symmetric] scra_exchange_def scra_route_def by simp
qed

lemma PollResult_mock:
  assumes "i \<noteq> []" "map_of (searches st) i = Some x"
    and "se_Status x = ''pending'' \<or> (se_Status x = ''complete'' \<and> se_Result x \<noteq> None) \<or> se_Status x = ''error''"
    and "url_error v (req_url (poll_request c i)) = None"
    and "net v (length (sent v)) (poll_request c i) = scra_exchange cfg tz now pick roll st c (poll_request c i)"
    and "clock v < D"
  shows "PollResult c i (Some (D, e)) v = (Some (poll_answer x), replied (clock v) (poll_request c i) v)"
proof -
  let ?req = "poll_request c i"
  have call: "call_service (Some (D, e)) scraHTTPTimeout ?req v = (Inr (resp, b), replied (clock v) ?req v)"
    if "scra_poll tz ''GET'' (''/api/scra/results/'' @ i) st = Some resp" "body_delay resp = 0" "body_result resp = Inr b"
    for resp b
    using reply_before_deadline [OF assms(4) assms(5) [unfolded scra_poll_exchange [OF assms(1,2) that(1)]] order_refl
        _ that(2,3), of scraHTTPTimeout "Some (D, e)"] assms(6)
    by (simp add: scraHTTPTimeout_def)
  note poll = scra_poll_found [OF assms(1,2), of tz]
  consider (pending) "se_Status x = ''pending''" | (complete) r where "se_Status x = ''complete''" "se_Result x = Some r"
    | (error) "se_Status x = ''error''"
    using assms(3) by blast
  then show ?thesis
  proof cases
    case pending
    from call [of "json_response 202 (JObj [(''searchId'', JStr i), (''status'', JStr ''pending'')])"] pending poll
    show ?thesis by (simp add: PollResult_def poll_answer_def)
  next
    case complete
    let ?j = "JObj [(''completedAt'', JStr (format_rfc3339 tz (se_ReadyAt x))), (''result'', enc_scra_result r),
           (''searchId'', JStr i), (''status'', JStr ''complete'')]"
    from call [of "json_response 200 ?j"] complete poll
    have c: "call_service (Some (D, e)) scraHTTPTimeout ?req v =
      (Inr (json_response 200 ?j, \<lparr>body_text = [], body_json = Inr ?j, body_xml = Inl ''EOF''\<rparr>), replied (clock v) ?req v)"
      by simp
    from complete show ?thesis by (simp add: PollResult_def c poll_answer_def Unmarshal_def dec_poll_complete)
  next
    case error
    let ?j = "JObj [(''error'', JStr (se_Error x)), (''searchId'', JStr i), (''status'', JStr ''error'')]"
    from call [of "json_response 200 ?j"] error poll
    have c: "call_service (Some (D, e)) scraHTTPTimeout ?req v =
      (Inr (json_response 200 ?j, \<lparr>body_text = [], body_json = Inr ?j, body_xml = Inl ''EOF''\<rparr>), replied (clock v) ?req v)"
      by simp
    from error show ?thesis by (simp add: PollResult_def c poll_answer_def Unmarshal_def dec_poll_error)
  qed
qed

text \<open>What the loop makes of an answer that ends it.\<close>

definition poll_ended :: "scraSearch \<Rightarrow> poll_end" where
  "poll_ended x =
     (if se_Status x = ''complete'' then PollComplete (se_Result x)
      else PollFailed (error_text (wrap_detail ErrSearchFailed (se_Error x))))"

text \<open>The polls so far, one per second after the submission.\<close>

definition polls_sent :: "SCRAClient \<Rightarrow> string \<Rightarrow> time \<Rightarrow> nat \<Rightarrow> (time \<times> http_request) list" where
  "polls_sent c i t k = map (\<lambda>j. (t + int (Suc j) * Second, poll_request c i)) [0..<k]"

lemma polls_sent_simps [simp]:
  "polls_sent c i t 0 = []"
  "polls_sent c i t (Suc k) = polls_sent c i t k @ [(t + int (Suc k) * Second, poll_request c i)]"
  "length (polls_sent c i t k) = k"
  by (simp_all add: polls_sent_def)

lemma next_tick_on_time: "next_tick_after t t = t + Second"
  by (simp add: next_tick_after_def)

text \<open>
  A poll that meets its tick: the state the service is in then decides whether the loop goes on.
\<close>

lemma poll_on_tick:
  assumes "clock v \<le> nxt" "nxt < D"
    and "i \<noteq> []" "map_of (searches st) i = Some x"
    and "se_Status x = ''pending'' \<or> (se_Status x = ''complete'' \<and> se_Result x \<noteq> None) \<or> se_Status x = ''error''"
    and "url_error v (req_url (poll_request c i)) = None"
    and "net v (length (sent v)) (poll_request c i) = scra_exchange cfg tz now pick roll st c (poll_request c i)"
  shows "\<exists>v1. sent v1 = sent v @ [(nxt, poll_request c i)] \<and> clock v1 = nxt \<and> net v1 = net v \<and>
    url_error v1 = url_error v \<and> wle v v1 \<and>
    poll_loop c i D e nxt n v =
      (if se_Status x = ''pending'' then poll_loop c i D e (nxt + Second) (n + 1) v1
       else ((poll_ended x, n + 1), v1))"
proof -
  obtain coin v0 where f: "flip_coin v = (coin, v0)" by fastforce
  let ?v = "v0\<lparr>clock := nxt\<rparr>"
  have v: "wle v ?v" "sent ?v = sent v" "net ?v = net v" "url_error ?v = url_error v"
    using f assms(1) by (auto simp: flip_coin_def wle_def)
  have m: "max (clock v) nxt = nxt" "max (clock v) D = D" using assms(1,2) by auto
  have p: "PollResult c i (Some (D, e)) (v0\<lparr>clock := max (clock v) nxt\<rparr>) =
      (Some (poll_answer x), replied nxt (poll_request c i) ?v)"
    using PollResult_mock [OF assms(3-5), of ?v c cfg tz now pick roll D e] assms(2,6,7) v by (simp add: m)
  have "poll_loop c i D e nxt n v =
      (if se_Status x = ''pending'' then poll_loop c i D e (nxt + Second) (n + 1) (replied nxt (poll_request c i) ?v)
       else ((poll_ended x, n + 1), replied nxt (poll_request c i) ?v))"
    using poll_step [OF f _ p, of n] assms(2,5) m
    by (auto simp: poll_answer_def poll_ended_def next_tick_on_time)
  moreover have "wle v (replied nxt (poll_request c i) ?v)"
    using v(1) replied_wle [of ?v nxt "poll_request c i"] by (auto intro: wle_trans)
  ultimately show ?thesis using v by (intro exI [of _ "replied nxt (poll_request c i) ?v"]) simp
qed

text \<open>One more poll of a loop that has sent \<open>j\<close> of them.\<close>

lemma one_poll:
  assumes i: "i \<noteq> []" "url_error w (req_url (poll_request c i)) = None"
    and lt: "t0 + int (Suc j) * Second < D"
    and x: "map_of (searches st) i = Some x"
      "se_Status x = ''pending'' \<or> (se_Status x = ''complete'' \<and> se_Result x \<noteq> None) \<or> se_Status x = ''error''"
    and net: "net w (length (sent w) + j) (poll_request c i) =
      scra_exchange cfg tz (t0 + int (Suc j) * Second) pick roll st c (poll_request c i)"
    and v: "r = poll_loop c i D e (t0 + int (Suc j) * Second) (n + int j) v"
      "sent v = sent w @ polls_sent c i t0 j" "clock v = t0 + int j * Second" "wle w v"
  shows "\<exists>v1. sent v1 = sent w @ polls_sent c i t0 (Suc j) \<and> clock v1 = t0 + int (Suc j) * Second \<and> wle w v1 \<and>
    r = (if se_Status x = ''pending'' then poll_loop c i D e (t0 + int (Suc (Suc j)) * Second) (n + int (Suc j)) v1
         else ((poll_ended x, n + int (Suc j)), v1))"
proof -
  let ?nxt = "t0 + int (Suc j) * Second"
  have vn: "net v (length (sent v)) (poll_request c i) = scra_exchange cfg tz ?nxt pick roll st c (poll_request c i)"
    using v net by (simp add: wle_def)
  have vu: "url_error v (req_url (poll_request c i)) = None" using v i(2) by (simp add: wle_def)
  have vc: "clock v \<le> ?nxt" using v by (simp add: algebra_simps)
  obtain v1 where v1: "sent v1 = sent v @ [(?nxt, poll_request c i)]" "clock v1 = ?nxt" "wle v v1"
    "poll_loop c i D e ?nxt (n + int j) v =
      (if se_Status x = ''pending'' then poll_loop c i D e (?nxt + Second) (n + int j + 1) v1
       else ((poll_ended x, n + int j + 1), v1))"
    using poll_on_tick [OF vc lt i(1) x vu vn, of e "n + int j"] by blast
  have eq: "?nxt + Second = t0 + int (Suc (Suc j)) * Second" "n + int j + 1 = n + int (Suc j)"
    by (simp_all add: algebra_simps)
  have "sent v1 = sent w @ polls_sent c i t0 (Suc j)" using v v1(1) by simp
  moreover have "wle w v1" using v v1(3) by (blast intro: wle_trans)
  ultimately show ?thesis using v(1) v1(2,4) unfolding eq by blast
qed

lemma polls_until_settled:
  fixes w c i
  defines "t0 \<equiv> clock w" and "req \<equiv> poll_request c i"
  assumes i: "i \<noteq> []" "url_error w (req_url req) = None"
    and se: "se_Status se = ''pending''" "\<not> f \<longrightarrow> se_Result se \<noteq> None"
    and h: "\<And>k. 1 \<le> k \<Longrightarrow> k \<le> N \<Longrightarrow> tracked i f se (h k)"
    and N: "1 \<le> N" "t0 + int N * Second < D" "map_of (searches (h N)) i = Some (settle f se)"
    and net: "\<And>k. k < N \<Longrightarrow> \<exists>pick roll. net w (length (sent w) + k) req =
      scra_exchange cfg tz (t0 + int (Suc k) * Second) pick roll (h (Suc k)) c req"
  shows "\<exists>K v. 1 \<le> K \<and> K \<le> N \<and> map_of (searches (h K)) i = Some (settle f se) \<and>
    (\<forall>k. 1 \<le> k \<and> k < K \<longrightarrow> map_of (searches (h k)) i = Some se) \<and>
    poll_loop c i D e (t0 + Second) n w = ((poll_ended (settle f se), n + int K), v) \<and>
    sent v = sent w @ polls_sent c i t0 K \<and> clock v = t0 + int K * Second \<and> wle w v"
    (is "\<exists>K v. ?done K v")
proof -
  let ?going = "\<lambda>j v. (\<forall>k. 1 \<le> k \<and> k \<le> j \<longrightarrow> map_of (searches (h k)) i = Some se) \<and>
    poll_loop c i D e (t0 + Second) n w = poll_loop c i D e (t0 + int (Suc j) * Second) (n + int j) v \<and>
    sent v = sent w @ polls_sent c i t0 j \<and> clock v = t0 + int j * Second \<and> wle w v"
  have "(\<exists>K v. ?done K v) \<or> (\<exists>v. ?going j v)" if "j \<le> N" for j
    using that
  proof (induction j)
    case 0
    have "?going 0 w" by (simp add: t0_def)
    then show ?case by blast
  next
    case (Suc j)
    show ?case
    proof (cases "\<exists>K v. ?done K v")
      case False
      with Suc obtain v where v: "?going j v" by auto
      have "int (Suc j) \<le> int N" using Suc.prems by linarith
      then have "int (Suc j) * Second \<le> int N * Second" by (intro mult_right_mono) auto
      then have lt: "t0 + int (Suc j) * Second < D" using N(2) by linarith
      obtain x where x: "map_of (searches (h (Suc j))) i = Some x" "x = se \<or> x = settle f se"
        using h [of "Suc j"] Suc.prems by (auto simp: tracked_def)
      have xs: "se_Status x = ''pending'' \<or> (se_Status x = ''complete'' \<and> se_Result x \<noteq> None) \<or> se_Status x = ''error''"
        using x(2) se by auto
      obtain pick roll where e: "net w (length (sent w) + j) req =
          scra_exchange cfg tz (t0 + int (Suc j) * Second) pick roll (h (Suc j)) c req"
        using net [of j] Suc.prems by auto
      from one_poll [OF i(1) i(2) [unfolded req_def] lt x(1) xs e [unfolded req_def]] v obtain v1 where
        v1: "sent v1 = sent w @ polls_sent c i t0 (Suc j)" "clock v1 = t0 + int (Suc j) * Second" "wle w v1"
          "poll_loop c i D e (t0 + Second) n w = (if se_Status x = ''pending''
             then poll_loop c i D e (t0 + int (Suc (Suc j)) * Second) (n + int (Suc j)) v1
             else ((poll_ended x, n + int (Suc j)), v1))" by blast
      have past: "\<forall>k. 1 \<le> k \<and> k < Suc j \<longrightarrow> map_of (searches (h k)) i = Some se" using v by auto
      show ?thesis
      proof (cases "se_Status x = ''pending''")
        case False
        with x(2) se(1) have "x = settle f se" by auto
        with False v1 x(1) Suc.prems past have "?done (Suc j) v1" by simp
        then show ?thesis by blast
      next
        case True
        with x(2) have "x = se" by (auto split: if_splits)
        with past x(1) have "\<forall>k. 1 \<le> k \<and> k \<le> Suc j \<longrightarrow> map_of (searches (h k)) i = Some se"
          by (auto simp: le_Suc_eq)
        with True v1 have "?going (Suc j) v1" by simp
        then show ?thesis by blast
      qed
    qed blast
  qed
  then consider "\<exists>K v. ?done K v" | v where "?going N v" by blast
  then show ?thesis
  proof cases
    case 2
    then have "map_of (searches (h N)) i = Some se" using N(1) by auto
    with N(3) have "settle f se = se" by simp
    then have "se_Status (settle f se) = ''pending''" using se(1) by simp
    then show ?thesis by (simp split: if_splits)
  qed
qed

section \<open>The processor\<close>

text \<open>
  What the service must have been doing: it is a running service into which the request at
  \<open>clock w\<close> falls, and then, second by second, the states the polls meet, in each of which
  no goroutine is later than \<open>lag\<close>. Its IDs need no escapes in a URL.
\<close>

definition scra_served ::
  "config \<Rightarrow> int \<Rightarrow> duration \<Rightarrow> int \<Rightarrow> rat \<Rightarrow> scra_state \<Rightarrow> (nat \<Rightarrow> scra_state) \<Rightarrow> SCRAClient \<Rightarrow> SCRASearchRequest \<Rightarrow> world \<Rightarrow> bool"
where
  "scra_served cfg tz lag pick roll st h c q w \<longleftrightarrow>
     (let i = ''scra-'' @ itoa (clock w); n = length (sent w);
          st1 = snd (scra_submit cfg tz (clock w) pick roll ''POST'' (Inr (enc_search_request q)) st) in
      0 \<le> SCRAMinDelay cfg \<and> SCRAMinDelay cfg \<le> SCRAMaxDelay cfg \<and> 0 \<le> lag \<and>
      SCRAMaxDelay cfg * Second + lag < 29 * Second \<and> sq_LastName q \<noteq> [] \<and>
      (\<exists>t < clock w. scra_run cfg tz t st) \<and>
      (\<forall>k \<ge> 1. scra_path cfg tz (clock w) st1 (clock w + int k * Second) (h k) \<and>
         no_later lag (clock w + int k * Second) (h k)) \<and>
      url_error w (req_url (submit_request c q)) = None \<and> url_error w (req_url (poll_request c i)) = None \<and>
      net w n (submit_request c q) = scra_exchange cfg tz (clock w) pick roll st c (submit_request c q) \<and>
      (\<forall>k \<ge> 1. \<exists>pick roll. net w (n + k) (poll_request c i) =
         scra_exchange cfg tz (clock w + int k * Second) pick roll (h k) c (poll_request c i)))"

lemma Second_mult_mono: "i * Second < j * Second \<longleftrightarrow> i < j"
  by (simp add: Second_def Millisecond_def)

text \<open>When a search is ready, and how many ticks that takes.\<close>

lemma started_search_ready:
  assumes "0 \<le> SCRAMinDelay cfg" "SCRAMinDelay cfg \<le> SCRAMaxDelay cfg"
  shows "now \<le> se_ReadyAt (started_search cfg tz now pick roll q)"
    "se_ReadyAt (started_search cfg tz now pick roll q) \<le> now + SCRAMaxDelay cfg * Second"
proof -
  let ?r = "SCRAMaxDelay cfg - SCRAMinDelay cfg + 1"
  have "0 \<le> pick mod ?r" "pick mod ?r < ?r" using assms(2) by (intro pos_mod_sign pos_mod_bound; simp)+
  then have d: "0 \<le> SCRAMinDelay cfg + pick mod ?r" "SCRAMinDelay cfg + pick mod ?r \<le> SCRAMaxDelay cfg"
    using assms(1) by auto
  from d(1) show "now \<le> se_ReadyAt (started_search cfg tz now pick roll q)" by (simp add: started_search_def)
  from mult_right_mono [OF d(2), of Second]
  show "se_ReadyAt (started_search cfg tz now pick roll q) \<le> now + SCRAMaxDelay cfg * Second"
    by (simp add: started_search_def)
qed

lemma ticks_after: "0 \<le> x \<Longrightarrow> \<exists>N. 1 \<le> N \<and> x < int N * Second \<and> int N * Second \<le> x + Second"
proof -
  assume "0 \<le> x"
  then have "0 \<le> x div Second" by (simp add: pos_imp_zdiv_nonneg_iff)
  then have N: "1 \<le> nat (x div Second + 1)" "int (nat (x div Second + 1)) * Second = x div Second * Second + Second"
    by (simp_all add: algebra_simps)
  have "x div Second * Second + x mod Second = x" "0 \<le> x mod Second" "x mod Second < Second" by simp_all
  with N show ?thesis by (intro exI [of _ "nat (x div Second + 1)"]) linarith
qed

text \<open>The processor when the submission was accepted: what is left is to report how the polls ended.\<close>

lemma processSCRA_accepted:
  assumes "Allow (clock w) (scraCB o0) = (True, cb)"
    and "decided_by submitCfg (SubmitSearch (scraClient o0) (search_for c)) w k (Inr i) w1"
    and "poll_loop (scraClient o0) i (clock w1 + 30 * Second) DeadlineExceeded (clock w1 + Second)
      (Attempts src + (int k + 1)) w1 = ((res, n), w2)"
  shows "processSCRA Background c src o0 w = scra_report src (o0\<lparr>scraCB := cb\<rparr>) i res n w2"
  using assms(3) decided_retry [OF assms(2)]
  by (simp add: processSCRA_def assms(1) Let_def)

lemma scra_mock_run:
  fixes w cfg pick roll c o0 tz
  defines "i \<equiv> ''scra-'' @ itoa (clock w)" and "f \<equiv> roll < SCRAFailRate cfg"
    and "se \<equiv> started_search cfg tz (clock w) pick roll (search_for c)"
  assumes served: "scra_served cfg tz lag pick roll st h (scraClient o0) (search_for c) w"
    and allowed: "Allow (clock w) (scraCB o0) = (True, cb)"
  shows "\<exists>K v. 1 \<le> K \<and> int K * Second \<le> se_ReadyAt se - clock w + lag + Second \<and>
    (\<forall>k. 1 \<le> k \<and> k < K \<longrightarrow> map_of (searches (h k)) i = Some se) \<and>
    map_of (searches (h K)) i = Some (settle f se) \<and>
    sent v = sent w @ (clock w, submit_request (scraClient o0) (search_for c)) # polls_sent (scraClient o0) i (clock w) K \<and>
    clock v = clock w + int K * Second \<and> wle w v \<and>
    processSCRA Background c src o0 w =
      scra_report src (o0\<lparr>scraCB := cb\<rparr>) i (poll_ended (settle f se)) (Attempts src + 1 + int K) v"
proof -
  let ?cl = "scraClient o0" and ?q = "search_for c"
  let ?st1 = "snd (scra_submit cfg tz (clock w) pick roll ''POST'' (Inr (enc_search_request ?q)) st)"
  define w1 where "w1 = replied (clock w) (submit_request ?cl ?q) w"
  have s: "0 \<le> SCRAMinDelay cfg" "SCRAMinDelay cfg \<le> SCRAMaxDelay cfg" "0 \<le> lag"
    "SCRAMaxDelay cfg * Second + lag < 29 * Second" "sq_LastName ?q \<noteq> []"
    "url_error w (req_url (submit_request ?cl ?q)) = None" "url_error w (req_url (poll_request ?cl i)) = None"
    "net w (length (sent w)) (submit_request ?cl ?q) = scra_exchange cfg tz (clock w) pick roll st ?cl (submit_request ?cl ?q)"
    and path: "\<And>k. 1 \<le> k \<Longrightarrow> scra_path cfg tz (clock w) ?st1 (clock w + int k * Second) (h k)"
    and late: "\<And>k. 1 \<le> k \<Longrightarrow> no_later lag (clock w + int k * Second) (h k)"
    and net: "\<And>k. 1 \<le> k \<Longrightarrow> \<exists>pick roll. net w (length (sent w) + k) (poll_request ?cl i) =
         scra_exchange cfg tz (clock w + int k * Second) pick roll (h k) ?cl (poll_request ?cl i)"
    using served unfolding scra_served_def i_def Let_def by blast+
  obtain t where t: "t < clock w" "scra_run cfg tz t st"
    using served unfolding scra_served_def Let_def by blast
  have max29: "SCRAMaxDelay cfg < 29"
    using s(3,4) Second_mult_mono [of "SCRAMaxDelay cfg" 29] by linarith
  have "int64 (SCRAMaxDelay cfg)" using max29 s(1,2) by (simp add: int64_def)
  from SubmitSearch_mock [OF s(5,1,2) this s(6,8)]
  have d: "decided_by submitCfg (SubmitSearch ?cl ?q) w 0 (Inr i) w1"
    by (simp add: decided_by_def attempt_start_def i_def w1_def)
  have w1: "clock w1 = clock w" "net w1 = net w" "url_error w1 = url_error w" "length (sent w1) = length (sent w) + 1"
    "wle w w1"
    by (simp_all add: w1_def replied_wle)
  have se: "se_Status se = ''pending''" "\<not> f \<longrightarrow> se_Result se \<noteq> None"
    by (simp_all add: se_def started_search_def f_def scra_lookup_result)
  have ready: "clock w \<le> se_ReadyAt se" "se_ReadyAt se \<le> clock w + SCRAMaxDelay cfg * Second"
    unfolding se_def by (rule started_search_ready [OF s(1,2)])+
  have tr: "tracked i f se (h k)" if "1 \<le> k" for k
    using tracked_path [OF path [OF that] tracked_started [OF t(2,1) s(5,2)]]
    by (simp add: i_def f_def se_def)
  let ?x = "se_ReadyAt se - clock w + lag"
  have "0 \<le> ?x" using ready(1) s(3) by simp
  from ticks_after [OF this] obtain N where N: "1 \<le> N" and Nx: "?x < int N * Second" "int N * Second \<le> ?x + Second"
    by blast
  have "se_ReadyAt se + lag < clock w + int N * Second" using Nx(1) by linarith
  then have settled: "map_of (searches (h N)) i = Some (settle f se)"
    by (rule tracked_settled [OF tr [OF N] late [OF N]])
  have D: "clock w1 + int N * Second < clock w1 + 30 * Second"
    using Nx(2) ready(2) s(4) by linarith
  have "\<exists>K v. 1 \<le> K \<and> K \<le> N \<and> map_of (searches (h K)) i = Some (settle f se) \<and>
    (\<forall>k. 1 \<le> k \<and> k < K \<longrightarrow> map_of (searches (h k)) i = Some se) \<and>
    poll_loop ?cl i (clock w1 + 30 * Second) DeadlineExceeded (clock w1 + Second) (Attempts src + (int 0 + 1)) w1 =
      ((poll_ended (settle f se), Attempts src + (int 0 + 1) + int K), v) \<and>
    sent v = sent w1 @ polls_sent ?cl i (clock w1) K \<and> clock v = clock w1 + int K * Second \<and> wle w1 v"
  proof (rule polls_until_settled [where w = w1 and i = i and c = ?cl and h = h and N = N and f = f
        and se = se and cfg = cfg and tz = tz, OF _ _ se _ N D settled])
    show "i \<noteq> []" by (simp add: i_def)
    show "url_error w1 (req_url (poll_request ?cl i)) = None" using s(7) w1(3) by simp
    show "\<exists>pick roll. net w1 (length (sent w1) + k) (poll_request ?cl i) =
        scra_exchange cfg tz (clock w1 + int (Suc k) * Second) pick roll (h (Suc k)) ?cl (poll_request ?cl i)" for k
      using net [of "Suc k"] w1(1,2,4) by simp
  qed (use tr in blast)
  then obtain K v where K: "1 \<le> K" "K \<le> N" "map_of (searches (h K)) i = Some (settle f se)"
    "\<forall>k. 1 \<le> k \<and> k < K \<longrightarrow> map_of (searches (h k)) i = Some se"
    "poll_loop ?cl i (clock w1 + 30 * Second) DeadlineExceeded (clock w1 + Second) (Attempts src + (int 0 + 1)) w1 =
      ((poll_ended (settle f se), Attempts src + (int 0 + 1) + int K), v)"
    "sent v = sent w1 @ polls_sent ?cl i (clock w1) K" "clock v = clock w1 + int K * Second" "wle w1 v"
    by blast
  have "int K * Second \<le> int N * Second" using K(2) by (intro mult_right_mono) auto
  then have "int K * Second \<le> ?x + Second" using Nx(2) by linarith
  moreover have "sent v = sent w @ (clock w, submit_request ?cl ?q) # polls_sent ?cl i (clock w) K"
    using K(6) by (simp add: w1_def)
  moreover have "processSCRA Background c src o0 w =
      scra_report src (o0\<lparr>scraCB := cb\<rparr>) i (poll_ended (settle f se)) (Attempts src + 1 + int K) v"
    using processSCRA_accepted [OF allowed d K(5)] by simp
  ultimately show ?thesis using K w1(1) wle_trans [OF w1(5) K(8)] by (intro exI [of _ K] exI [of _ v]) simp
qed

definition search_failed_text :: string where
  "search_failed_text = error_text (wrap_detail ErrSearchFailed
     ''Search failed: unable to verify military status. The DMDC database returned an unexpected error.'')"

lemma poll_ended_settled:
  "poll_ended (settle f se) = (if f then PollFailed search_failed_text else PollComplete (se_Result se))"
  by (simp add: poll_ended_def settle_def search_failed_text_def)

text \<open>A service and a world for the example: one search that takes two seconds.\<close>

definition one_search :: "case_row \<Rightarrow> nat \<Rightarrow> scra_state" where
  "one_search c k =
     (let st = snd (scra_submit (loadConfig (\<lambda>_. None) (\<lambda>_. [])) 0 7 0 1 ''POST''
        (Inr (enc_search_request (search_for c))) \<lparr>searches = [], timers = []\<rparr>) in
      if k \<le> 1 then st
      else \<lparr>searches = scra_fire ''scra-7'' False (searches st), timers = remove1 (7 + 2 * Second, ''scra-7'', False) (timers st)\<rparr>)"

definition one_search_world :: "case_row \<Rightarrow> world" where
  "one_search_world c = scripted_world []\<lparr>clock := 7, net := (\<lambda>n req.
     if n = 0 then scra_exchange (loadConfig (\<lambda>_. None) (\<lambda>_. [])) 0 7 0 1 \<lparr>searches = [], timers = []\<rparr> (scraClient sample_orc) req
     else scra_exchange (loadConfig (\<lambda>_. None) (\<lambda>_. [])) 0 (7 + int n * Second) 0 1 (one_search c n) (scraClient sample_orc) req)\<rparr>"

lemma one_search_timers:
  "c_LastName c \<noteq> [] \<Longrightarrow>
     timers (one_search c k) = (if k \<le> 1 then [(7 + 2 * Second, ''scra-7'', False)] else [])"
proof -
  assume "c_LastName c \<noteq> []"
  then have "sq_LastName (search_for c) \<noteq> []" by (simp add: search_for_def)
  moreover have "itoa 7 = ''7''" by code_simp
  ultimately show ?thesis
    by (simp add: one_search_def scra_submit_started default_config Let_def started_search_def)
qed

text \<open>Any world whose requests meet that service will do.\<close>

lemma one_search_sees:
  assumes c: "c_LastName c \<noteq> []" and w: "clock w = 7" "sent w = []" "\<And>u. url_error w u = None"
    and n0: "net w 0 (submit_request cl (search_for c)) =
      scra_exchange (loadConfig (\<lambda>_. None) (\<lambda>_. [])) 0 7 0 1 \<lparr>searches = [], timers = []\<rparr> cl
        (submit_request cl (search_for c))"
    and nk: "\<And>k. 1 \<le> k \<Longrightarrow> net w k (poll_request cl (''scra-'' @ itoa 7)) =
      scra_exchange (loadConfig (\<lambda>_. None) (\<lambda>_. [])) 0 (7 + int k * Second) 0 1 (one_search c k) cl
        (poll_request cl (''scra-'' @ itoa 7))"
  shows "scra_served (loadConfig (\<lambda>_. None) (\<lambda>_. [])) 0 0 0 1 \<lparr>searches = [], timers = []\<rparr> (one_search c)
     cl (search_for c) w"
proof -
  let ?cfg = "loadConfig (\<lambda>_. None) (\<lambda>_. [])" and ?st0 = "\<lparr>searches = [], timers = []\<rparr>"
  let ?st1 = "snd (scra_submit ?cfg 0 7 0 1 ''POST'' (Inr (enc_search_request (search_for c))) ?st0)"
  have st1: "?st1 = one_search c 1" by (simp add: one_search_def)
  have path: "scra_path ?cfg 0 7 ?st1 (7 + int k * Second) (one_search c k)" if "1 \<le> k" for k
  proof (cases "k \<le> 1")
    case True
    with that have "one_search c k = ?st1" by (simp add: one_search_def)
    then show ?thesis by (simp add: scra_path.stay)
  next
    case False
    then have "int 2 * Second \<le> int k * Second" by (intro mult_right_mono) auto
    then have due: "7 + 2 * Second \<le> 7 + int k * Second" by simp
    have "one_search c k = \<lparr>searches = scra_fire ''scra-7'' False (searches ?st1),
        timers = remove1 (7 + 2 * Second, ''scra-7'', False) (timers ?st1)\<rparr>"
      using False by (simp add: one_search_def Let_def)
    moreover have "(7 + 2 * Second, ''scra-7'', False) \<in> set (timers ?st1)"
      unfolding st1 one_search_timers [OF c] by simp
    ultimately show ?thesis using due
      by (auto intro!: scra_path.fire [OF scra_path.stay [OF order_refl]])
  qed
  have late: "no_later 0 (7 + int k * Second) (one_search c k)" if "1 \<le> k" for k
    using that by (auto simp: no_later_def one_search_timers [OF c] le_Suc_eq)
  have "SCRAMaxDelay ?cfg * Second + 0 < 29 * Second" by (simp add: default_config Second_def Millisecond_def)
  moreover have "sq_LastName (search_for c) \<noteq> []" using c by (simp add: search_for_def)
  moreover have "\<exists>t < 7. scra_run ?cfg 0 t ?st0" by (rule exI [of _ 6]) (simp add: scra_run.start)
  ultimately show ?thesis
    using path late n0 nk w unfolding scra_served_def Let_def by (simp add: default_config) blast
qed

lemma one_search_served:
  "scra_served (loadConfig (\<lambda>_. None) (\<lambda>_. [])) 0 0 0 1 \<lparr>searches = [], timers = []\<rparr> (one_search sample_case)
     (scraClient sample_orc) (search_for sample_case) (one_search_world sample_case)"
  by (rule one_search_sees) (simp_all add: one_search_world_def scripted_world_def sample_case_def)

section \<open>Property\<close>

text \<open>
  Claim C17. A lookup of SCRA against the mock service: the gateway submits once and polls every
  second, at the seconds after the submission, and it never times out when the service settles
  searches within 29 seconds. It finds the search pending until it is settled, and the row gets
  what the goroutine of the service made of the search: the result for the borrower of the case,
  or the failure with the text of the service; the breaker is told. The number of polls follows
  from the delay the service drew and how late its goroutine was.
\<close>

theorem scra_lookup_against_mock:
  fixes w cfg pick roll c o0 tz
  defines "i \<equiv> ''scra-'' @ itoa (clock w)"
    and "delay \<equiv> (SCRAMinDelay cfg + pick mod (SCRAMaxDelay cfg - SCRAMinDelay cfg + 1)) * Second"
  assumes served: "scra_served cfg tz lag pick roll st h (scraClient o0) (search_for c) w"
    and allowed: "Allow (clock w) (scraCB o0) = (True, cb)"
  shows "\<exists>K w1. 1 \<le> K \<and> int K * Second \<le> delay + lag + Second \<and>
    clock w1 = clock w + int K * Second \<and>
    sent w1 = sent w @ (clock w, submit_request (scraClient o0) (search_for c)) #
      map (\<lambda>k. (clock w + int (Suc k) * Second, poll_request (scraClient o0) i)) [0..<K] \<and>
    processSCRA Background c src o0 w =
      (let attempts = Attempts src + 1 + int K in
       if roll < SCRAFailRate cfg then
         Finished (o0\<lparr>scraCB := RecordFailure (clock w1) cb, store := snd (SetSourceResult (clock w1)
           ((result_for src SourceStatusFailed attempts)
             \<lparr>p_ErrorMsg := Some search_failed_text, p_SearchID := Some i\<rparr>) (store o0))\<rparr>) w1
       else
         Finished (o0\<lparr>scraCB := RecordSuccess cb, store := snd (SetSourceResult (clock w1)
           ((result_for src SourceStatusSuccess attempts)
             \<lparr>p_Data := Some (enc_scra_result (the (scra_lookup tz (clock w) (search_for c) False))),
              p_SearchID := Some i\<rparr>) (store o0))\<rparr>) w1)"
proof -
  let ?se = "started_search cfg tz (clock w) pick roll (search_for c)" and ?f = "roll < SCRAFailRate cfg"
  obtain K v where K: "1 \<le> K" "int K * Second \<le> se_ReadyAt ?se - clock w + lag + Second"
    "sent v = sent w @ (clock w, submit_request (scraClient o0) (search_for c)) # polls_sent (scraClient o0) i (clock w) K"
    "clock v = clock w + int K * Second"
    "processSCRA Background c src o0 w =
      scra_report src (o0\<lparr>scraCB := cb\<rparr>) i (poll_ended (settle ?f ?se)) (Attempts src + 1 + int K) v"
    using scra_mock_run [OF served allowed] unfolding i_def by blast
  have "se_ReadyAt ?se - clock w = delay" by (simp add: started_search_def delay_def)
  moreover have "se_Result ?se = scra_lookup tz (clock w) (search_for c) ?f" by (simp add: started_search_def)
  moreover have "scra_lookup tz (clock w) (search_for c) False \<noteq> None" by (simp add: scra_lookup_result)
  ultimately show ?thesis
    using K by (intro exI [of _ K] exI [of _ v])
      (auto simp: poll_ended_settled scra_report_def set_result_def Let_def polls_sent_def enc_ptr_def)
qed

theorem scra_lookup_against_mock_witness:
  "\<exists>K w1. 1 \<le> K \<and> K \<le> 3 \<and> clock w1 = 7 + int K * Second \<and>
    processSCRA Background sample_case (new_source ''s'' ''r'' SourceSCRA) sample_orc (one_search_world sample_case) =
      Finished (sample_orc\<lparr>scraCB := RecordSuccess (scraCB sample_orc), store := snd (SetSourceResult (clock w1)
        ((result_for (new_source ''s'' ''r'' SourceSCRA) SourceStatusSuccess (1 + int K))
          \<lparr>p_Data := Some (enc_scra_result (the (scra_lookup 0 7 (search_for sample_case) False))),
           p_SearchID := Some ''scra-7''\<rparr>) sample_db)\<rparr>) w1"
proof -
  have c: "clock (one_search_world sample_case) = 7" by (simp add: one_search_world_def)
  have i: "itoa 7 = ''7''" by code_simp
  have a: "Allow (clock (one_search_world sample_case)) (scraCB sample_orc) = (True, scraCB sample_orc)" by simp
  from scra_lookup_against_mock [OF one_search_served a, of "new_source ''s'' ''r'' SourceSCRA"]
  obtain K w1 where K: "1 \<le> K" "int K * Second \<le> 2 * Second + 0 + Second" "clock w1 = 7 + int K * Second"
    "processSCRA Background sample_case (new_source ''s'' ''r'' SourceSCRA) sample_orc (one_search_world sample_case) =
      Finished (sample_orc\<lparr>scraCB := RecordSuccess (scraCB sample_orc), store := snd (SetSourceResult (clock w1)
        ((result_for (new_source ''s'' ''r'' SourceSCRA) SourceStatusSuccess (1 + int K))
          \<lparr>p_Data := Some (enc_scra_result (the (scra_lookup 0 7 (search_for sample_case) False))),
           p_SearchID := Some ''scra-7''\<rparr>) sample_db)\<rparr>) w1"
    unfolding c default_config i Let_def by (auto simp: new_source_def)
  from K(2) have "K \<le> 3" by (simp add: Second_def Millisecond_def)
  with K show ?thesis by blast
qed

end
