(* ===== verification/SeedCases.thy ===== *)
theory SeedCases
  imports Seed
begin

text \<open>
  The cases the repository ships, \<^verbatim>\<open>backend/seed/cases.json\<close>, as \<^verbatim>\<open>encoding/json\<close> reads
  the file, and the rows that seeding makes of them.
\<close>

definition cases_json :: json where
  "cases_json = JArr
     [JObj [(''id'', JStr ''case-001''),
            (''caseNumber'', JStr ''2025-FC-04821''),
            (''borrower'', JObj [(''firstName'', JStr ''Elena''),
                                 (''lastName'', JStr ''Martinez''),
                                 (''ssnLast4'', JStr ''4521''),
                                 (''dob'', JStr ''1985-03-14'')]),
            (''property'', JObj [(''address'', JStr ''1422 W Diversey Pkwy, Chicago, IL 60614''),
                                 (''county'', JStr ''Cook''),
                                 (''state'', JStr ''IL''),
                                 (''parcelId'', JStr ''14-28-322-001-0000'')]),
            (''loan'', JObj [(''number'', JStr ''2019-0098765''),
                             (''servicer'', JStr ''Chase''),
                             (''originalAmount'', JDec 385000)]),
            (''currentStage'', JStr ''title-search''),
            (''courtCaseNumber'', JNull)],
      JObj [(''id'', JStr ''case-002''),
            (''caseNumber'', JStr ''2025-FC-07743''),
            (''borrower'', JObj [(''firstName'', JStr ''David''),
                                 (''lastName'', JStr ''Thompson''),
                                 (''ssnLast4'', JStr ''8832''),
                                 (''dob'', JStr ''1978-11-02'')]),
            (''property'', JObj [(''address'', JStr ''8830 SW 142nd St, Miami, FL 33176''),
                                 (''county'', JStr ''Miami-Dade''),
                                 (''state'', JStr ''FL''),
                                 (''parcelId'', JStr ''30-4017-001-0290'')]),
            (''loan'', JObj [(''number'', JStr ''2020-0145678''),
                             (''servicer'', JStr ''Wells Fargo''),
                             (''originalAmount'', JDec 520000)]),
            (''currentStage'', JStr ''filing''),
            (''courtCaseNumber'', JStr ''2026-CA-003891'')],
      JObj [(''id'', JStr ''case-003''),
            (''caseNumber'', JStr ''2025-FC-03198''),
            (''borrower'', JObj [(''firstName'', JStr ''Thanh''),
                                 (''lastName'', JStr ''Nguyen''),
                                 (''ssnLast4'', JStr ''7103''),
                                 (''dob'', JStr ''1990-07-22'')]),
            (''property'', JObj [(''address'', JStr ''4501 Kingwood Dr, Kingwood, TX 77345''),
                                 (''county'', JStr ''Harris''),
                                 (''state'', JStr ''TX''),
                                 (''parcelId'', JStr ''61-42-0100-0034'')]),
            (''loan'', JObj [(''number'', JStr ''2021-0234567''),
                             (''servicer'', JStr ''Nationstar''),
                             (''originalAmount'', JDec 310000)]),
            (''currentStage'', JStr ''schedule-sale''),
            (''courtCaseNumber'', JStr ''2025-CV-18734'')],
      JObj [(''id'', JStr ''case-004''),
            (''caseNumber'', JStr ''2025-FC-11023''),
            (''borrower'', JObj [(''firstName'', JStr ''Marcus''),
                                 (''lastName'', JStr ''Johnson''),
                                 (''ssnLast4'', JStr ''2209''),
                                 (''dob'', JStr ''1992-01-30'')]),
            (''property'', JObj [(''address'', JStr ''482 Atlantic Ave, Brooklyn, NY 11217''),
                                 (''county'', JStr ''Kings''),
                                 (''state'', JStr ''NY''),
                                 (''parcelId'', JStr ''00945-0012-0001'')]),
            (''loan'', JObj [(''number'', JStr ''2022-0345678''),
                             (''servicer'', JStr ''Chase''),
                             (''originalAmount'', JDec 675000)]),
            (''currentStage'', JStr ''serve-borrower''),
            (''courtCaseNumber'', JStr ''2025-FC-11023'')],
      JObj [(''id'', JStr ''case-005''),
            (''caseNumber'', JStr ''2025-FC-09901''),
            (''borrower'', JObj [(''firstName'', JStr ''Sarah''),
                                 (''lastName'', JStr ''Williams''),
                                 (''ssnLast4'', JStr ''5567''),
                                 (''dob'', JStr ''1970-04-18'')]),
            (''property'', JObj [(''address'', JStr ''3847 Pearl Rd, Cleveland, OH 44109''),
                                 (''county'', JStr ''Cuyahoga''),
                                 (''state'', JStr ''OH''),
                                 (''parcelId'', JStr ''004-14-097'')]),
            (''loan'', JObj [(''number'', JStr ''2018-0456789''),
                             (''servicer'', JStr ''Wells Fargo''),
                             (''originalAmount'', JDec 195000)]),
            (''currentStage'', JStr ''title-search''),
            (''courtCaseNumber'', JNull)],
      JObj [(''id'', JStr ''case-006''),
            (''caseNumber'', JStr ''2025-FC-06210''),
            (''borrower'', JObj [(''firstName'', JStr ''Vikram''),
                                 (''lastName'', JStr ''Patel''),
                                 (''ssnLast4'', JStr ''9914''),
                                 (''dob'', JStr ''1988-09-05'')]),
            (''property'', JObj [(''address'', JStr ''7720 Forest Ln, Dallas, TX 75230''),
                                 (''county'', JStr ''Dallas''),
                                 (''state'', JStr ''TX''),
                                 (''parcelId'', JStr ''CC-8821-000-0450'')]),
            (''loan'', JObj [(''number'', JStr ''2023-0567890''),
                             (''servicer'', JStr ''Wells Fargo''),
                             (''originalAmount'', JDec 425000)]),
            (''currentStage'', JStr ''serve-borrower''),
            (''courtCaseNumber'', JStr ''2025-FC-09876'')]]"

definition cases_file :: "goerr + body" where
  "cases_file = Inr \<lparr>body_text = [], body_json = Inr cases_json, body_xml = Inl ''EOF''\<rparr>"

text \<open>The rows, and a case among them by its ID.\<close>

definition seeded_cases :: "case_row list" where
  "seeded_cases = cases (snd (Cases ''cases.json'' cases_file unseeded_db))"

lemma seeded_cases_eq:
  "seeded_cases =
    [\<lparr>c_ID = ''case-001'', c_CaseNumber = ''2025-FC-04821'', c_FirstName = ''Elena'', c_LastName = ''Martinez'',
        c_SSNLast4 = ''4521'', c_DOB = ''1985-03-14'', c_Address = ''1422 W Diversey Pkwy, Chicago, IL 60614'', c_County = ''Cook'', c_State = ''IL'',
        c_ParcelID = ''14-28-322-001-0000'', c_LoanNumber = ''2019-0098765'', c_Servicer = ''Chase'', c_OriginalAmount = 385000,
        c_CurrentStage = ''title-search'', c_CourtCaseNumber = None\<rparr>,
     \<lparr>c_ID = ''case-002'', c_CaseNumber = ''2025-FC-07743'', c_FirstName = ''David'', c_LastName = ''Thompson'',
        c_SSNLast4 = ''8832'', c_DOB = ''1978-11-02'', c_Address = ''8830 SW 142nd St, Miami, FL 33176'', c_County = ''Miami-Dade'', c_State = ''FL'',
        c_ParcelID = ''30-4017-001-0290'', c_LoanNumber = ''2020-0145678'', c_Servicer = ''Wells Fargo'', c_OriginalAmount = 520000,
        c_CurrentStage = ''filing'', c_CourtCaseNumber = Some ''2026-CA-003891''\<rparr>,
     \<lparr>c_ID = ''case-003'', c_CaseNumber = ''2025-FC-03198'', c_FirstName = ''Thanh'', c_LastName = ''Nguyen'',
        c_SSNLast4 = ''7103'', c_DOB = ''1990-07-22'', c_Address = ''4501 Kingwood Dr, Kingwood, TX 77345'', c_County = ''Harris'', c_State = ''TX'',
        c_ParcelID = ''61-42-0100-0034'', c_LoanNumber = ''2021-0234567'', c_Servicer = ''Nationstar'', c_OriginalAmount = 310000,
        c_CurrentStage = ''schedule-sale'', c_CourtCaseNumber = Some ''2025-CV-18734''\<rparr>,
     \<lparr>c_ID = ''case-004'', c_CaseNumber = ''2025-FC-11023'', c_FirstName = ''Marcus'', c_LastName = ''Johnson'',
        c_SSNLast4 = ''2209'', c_DOB = ''1992-01-30'', c_Address = ''482 Atlantic Ave, Brooklyn, NY 11217'', c_County = ''Kings'', c_State = ''NY'',
        c_ParcelID = ''00945-0012-0001'', c_LoanNumber = ''2022-0345678'', c_Servicer = ''Chase'', c_OriginalAmount = 675000,
        c_CurrentStage = ''serve-borrower'', c_CourtCaseNumber = Some ''2025-FC-11023''\<rparr>,
     \<lparr>c_ID = ''case-005'', c_CaseNumber = ''2025-FC-09901'', c_FirstName = ''Sarah'', c_LastName = ''Williams'',
        c_SSNLast4 = ''5567'', c_DOB = ''1970-04-18'', c_Address = ''3847 Pearl Rd, Cleveland, OH 44109'', c_County = ''Cuyahoga'', c_State = ''OH'',
        c_ParcelID = ''004-14-097'', c_LoanNumber = ''2018-0456789'', c_Servicer = ''Wells Fargo'', c_OriginalAmount = 195000,
        c_CurrentStage = ''title-search'', c_CourtCaseNumber = None\<rparr>,
     \<lparr>c_ID = ''case-006'', c_CaseNumber = ''2025-FC-06210'', c_FirstName = ''Vikram'', c_LastName = ''Patel'',
        c_SSNLast4 = ''9914'', c_DOB = ''1988-09-05'', c_Address = ''7720 Forest Ln, Dallas, TX 75230'', c_County = ''Dallas'', c_State = ''TX'',
        c_ParcelID = ''CC-8821-000-0450'', c_LoanNumber = ''2023-0567890'', c_Servicer = ''Wells Fargo'', c_OriginalAmount = 425000,
        c_CurrentStage = ''serve-borrower'', c_CourtCaseNumber = Some ''2025-FC-09876''\<rparr>]"
  by code_simp

end
