(* ===== verification/Integration.thy ===== *)
theory Integration
  imports MockLookups MockScraLookup Handler SeedCases
begin

text \<open>
  The gateway and the three mock services together: what a lookup of a case writes, source by
  source, when every goroutine of it sees its mock service. This is the setting of
  \<^verbatim>\<open>lookup/orchestrator_integration_test.go\<close>, whose table of expected results is the last
  property here.
\<close>

section \<open>The services during a lookup\<close>

text \<open>Configuration, draws, clocks and states, as far as the requests of one lookup meet them.\<close>

record mocks =
  m_cfg :: config
  m_tz :: int
  m_property_rolls :: "nat \<Rightarrow> rat"
  m_court_rolls :: "nat \<Rightarrow> rat"
  m_cut_error :: string
  m_court_times :: "nat \<Rightarrow> time"
  m_court_limiters :: "nat \<Rightarrow> courtRateLimiter"
  m_lag :: duration
  m_pick :: int
  m_scra_roll :: rat
  m_scra_before :: scra_state
  m_scra_after :: "nat \<Rightarrow> scra_state"

definition sees_mocks :: "mocks \<Rightarrow> case_row \<Rightarrow> Orchestrator \<Rightarrow> string \<Rightarrow> world \<Rightarrow> bool" where
  "sees_mocks m c o1 source w \<longleftrightarrow>
     (if source = SourcePropertyRecords then
        property_served (m_cfg m) (m_property_rolls m) (propertyClient o1) (c_State c) (c_County c) (c_ParcelID c) w
      else if source = SourceCourtRecords then
        (\<forall>number. c_CourtCaseNumber c = Some number \<longrightarrow>
           court_served (m_cfg m) (m_court_rolls m) (m_cut_error m) (m_court_times m) (m_court_limiters m)
             (courtClient o1) number w)
      else
        scra_served (m_cfg m) (m_tz m) (m_lag m) (m_pick m) (m_scra_roll m) (m_scra_before m) (m_scra_after m)
          (scraClient o1) (search_for c) w)"

text \<open>
  The status and the data a source ends up with, from the tables and the draws, when \<open>n\<close>
  requests were sent before and the lookup starts at \<open>now\<close>.
\<close>

definition mock_outcome :: "mocks \<Rightarrow> case_row \<Rightarrow> string \<Rightarrow> nat \<Rightarrow> time \<Rightarrow> string \<times> json option" where
  "mock_outcome m c source n now =
     (let cfg = m_cfg m in
      if source = SourcePropertyRecords then
        (if list_all (\<lambda>i. m_property_rolls m (n + i) < PropertyFailRate cfg) [0..<5] then (SourceStatusFailed, None)
         else (case map_of propertyData (property_key (lower_str (c_State c)) (lower_str (c_County c)) (c_ParcelID c)) of
             None \<Rightarrow> (SourceStatusFailed, None)
           | Some r \<Rightarrow> (SourceStatusSuccess, Some (enc_property r))))
      else if source = SourceCourtRecords then
        (case c_CourtCaseNumber c of
           None \<Rightarrow> (SourceStatusNotApplicable, None)
         | Some number \<Rightarrow>
             if list_ex (\<lambda>i. search_settles cfg (m_court_rolls m (n + i))
                  (fst (cl_allow (m_court_times m (n + i)) (m_court_limiters m (n + i)))) number) [0..<5]
             then (SourceStatusSuccess, map_option
               (\<lambda>r. enc_court (r\<lparr>cr_XMLName := ([], ''CourtRecordResponse'')\<rparr>)) (map_of courtData number))
             else (SourceStatusFailed, None))
      else if m_scra_roll m < SCRAFailRate cfg then (SourceStatusFailed, None)
      else (SourceStatusSuccess, Some (enc_scra_result (the (scra_lookup (m_tz m) now (search_for c) False)))))"

definition breaker_of :: "string \<Rightarrow> Orchestrator \<Rightarrow> CircuitBreaker" where
  "breaker_of source o1 =
     (if source = SourcePropertyRecords then propertyCB o1
      else if source = SourceCourtRecords then courtCB o1 else scraCB o1)"

section \<open>One source\<close>

text \<open>
  A processor whose service is a mock: it returns, having written one result with the expected
  status and data, and has touched no breaker but its own.
\<close>

definition mock_processed ::
  "mocks \<Rightarrow> case_row \<Rightarrow> source_row \<Rightarrow> Orchestrator \<Rightarrow> world \<Rightarrow> SetSourceResultParams \<Rightarrow> Orchestrator \<Rightarrow> world \<Rightarrow> bool"
where
  "mock_processed m c src o0 w p o1 w1 \<longleftrightarrow>
     store o1 = snd (SetSourceResult (clock w1) p (store o0)) \<and> p_SourceID p = src_ID src \<and>
     (p_Status p, p_Data p) = mock_outcome m c (src_Source src) (length (sent w)) (clock w) \<and>
     (rl_live (courtLimiter o0) \<longrightarrow> rl_live (courtLimiter o1)) \<and>
     propertyClient o1 = propertyClient o0 \<and> courtClient o1 = courtClient o0 \<and> scraClient o1 = scraClient o0 \<and>
     (\<forall>source \<in> set source_names. source \<noteq> src_Source src \<longrightarrow> breaker_of source o1 = breaker_of source o0)"

lemma closed_allows: "cb_state cb = CBClosed \<Longrightarrow> Allow t cb = (True, cb)"
  by (simp add: Allow_def)

lemma deciding_last: "Q (deciding 4 Q) \<longleftrightarrow> list_ex Q [0..<5]"
proof -
  have "[0..<5] = [0, 1, 2, 3, 4::nat]" by (simp add: upt_rec)
  then show ?thesis by (auto simp: numeral_eq_Suc)
qed

lemma property_processed:
  assumes "src_Source src = SourcePropertyRecords" "cb_state (propertyCB o0) = CBClosed"
    and "property_served (m_cfg m) (m_property_rolls m) (propertyClient o0) (c_State c) (c_County c) (c_ParcelID c) w"
  shows "\<exists>p o1 w1. processProperty Background c src o0 w = Finished o1 w1 \<and> mock_processed m c src o0 w p o1 w1"
proof -
  let ?Q = "\<lambda>i. \<not> m_property_rolls m (length (sent w) + i) < PropertyFailRate (m_cfg m)"
  let ?k = "deciding 4 ?Q"
  let ?res = "fetch_outcome (m_cfg m) (m_property_rolls m (length (sent w) + ?k)) (c_State c) (c_County c) (c_ParcelID c)"
  let ?p = "decided_result src (\<lambda>r. Some (enc_property r)) ?k ?res"
  obtain w1 where w1: "processProperty Background c src o0 w =
      Finished (o0\<lparr>propertyCB := decided_breaker (clock w1) ?res (propertyCB o0),
        store := snd (SetSourceResult (clock w1) ?p (store o0))\<rparr>) w1"
    using property_mock_run [OF assms(3) closed_allows [OF assms(2)] refl] by blast
  have "?Q ?k \<longleftrightarrow> list_ex ?Q [0..<5]" by (rule deciding_last)
  then have "list_all (\<lambda>i. m_property_rolls m (length (sent w) + i) < PropertyFailRate (m_cfg m)) [0..<5] \<longleftrightarrow> \<not> ?Q ?k"
    by (auto simp: list_all_iff list_ex_iff)
  then have "(p_Status ?p, p_Data ?p) = mock_outcome m c (src_Source src) (length (sent w)) (clock w)"
    by (simp add: mock_outcome_def assms(1) Let_def fetch_outcome_def decided_result_def split: option.splits)
  moreover have "p_SourceID ?p = src_ID src" by (simp add: decided_result_def split: sum.splits)
  ultimately show ?thesis using w1
    by (simp add: mock_processed_def assms(1) breaker_of_def) blast
qed

lemma court_processed:
  assumes "src_Source src = SourceCourtRecords" "cb_state (courtCB o0) = CBClosed" "rl_live (courtLimiter o0)"
    and "c_CourtCaseNumber c = Some number"
    and "court_served (m_cfg m) (m_court_rolls m) (m_cut_error m) (m_court_times m) (m_court_limiters m)
      (courtClient o0) number w"
  shows "\<exists>p o1 w1. processCourt Background c src o0 w = Finished o1 w1 \<and> mock_processed m c src o0 w p o1 w1"
proof -
  let ?tok = "\<lambda>i. fst (cl_allow (m_court_times m (length (sent w) + i)) (m_court_limiters m (length (sent w) + i)))"
  let ?Q = "\<lambda>i. search_settles (m_cfg m) (m_court_rolls m (length (sent w) + i)) (?tok i) number"
  let ?k = "deciding 4 ?Q"
  let ?res = "search_outcome (m_cfg m) (m_court_rolls m (length (sent w) + ?k)) (m_cut_error m) (?tok ?k) number"
  let ?p = "decided_result src (map_option enc_court) ?k ?res"
  obtain rl w1 where w1: "rl_live rl" "processCourt Background c src o0 w =
      Finished (o0\<lparr>courtCB := decided_breaker (clock w1) ?res (courtCB o0), courtLimiter := rl,
        store := snd (SetSourceResult (clock w1) ?p (store o0))\<rparr>) w1"
    using court_mock_run [OF assms(5,4) closed_allows [OF assms(2)] assms(3) refl] by blast
  have "?Q ?k \<longleftrightarrow> list_ex ?Q [0..<5]" by (rule deciding_last)
  then have "(p_Status ?p, p_Data ?p) = mock_outcome m c (src_Source src) (length (sent w)) (clock w)"
    by (auto simp: mock_outcome_def assms(1,4) Let_def search_outcome_def search_settles_def decided_result_def
        option.map_comp comp_def split: option.splits)
  moreover have "p_SourceID ?p = src_ID src" by (simp add: decided_result_def split: sum.splits)
  ultimately show ?thesis using w1
    by (simp add: mock_processed_def assms(1) breaker_of_def) blast
qed

lemma scra_processed:
  assumes "src_Source src = SourceSCRA" "cb_state (scraCB o0) = CBClosed"
    and "scra_served (m_cfg m) (m_tz m) (m_lag m) (m_pick m) (m_scra_roll m) (m_scra_before m) (m_scra_after m)
      (scraClient o0) (search_for c) w"
  shows "\<exists>p o1 w1. processSCRA Background c src o0 w = Finished o1 w1 \<and> mock_processed m c src o0 w p o1 w1"
proof -
  let ?se = "started_search (m_cfg m) (m_tz m) (clock w) (m_pick m) (m_scra_roll m) (search_for c)"
  let ?f = "m_scra_roll m < SCRAFailRate (m_cfg m)" and ?i = "''scra-'' @ itoa (clock w)"
  obtain K v where K: "processSCRA Background c src o0 w =
      scra_report src o0 ?i (poll_ended (settle ?f ?se)) (Attempts src + 1 + int K) v"
    using scra_mock_run [OF assms(3) closed_allows [OF assms(2)]] by fastforce
  have "se_Result ?se = scra_lookup (m_tz m) (clock w) (search_for c) ?f" by (simp add: started_search_def)
  moreover have "scra_lookup (m_tz m) (clock w) (search_for c) False \<noteq> None" by (simp add: scra_lookup_result)
  ultimately show ?thesis
    by (auto simp: K poll_ended_settled scra_report_def set_result_def mock_processed_def breaker_of_def
        mock_outcome_def assms(1) Let_def enc_ptr_def source_names_def intro!: exI)
qed

lemma source_processed:
  assumes "src_Source src \<in> set source_names" "cb_state (breaker_of (src_Source src) o0) = CBClosed"
    and "rl_live (courtLimiter o0)" "sees_mocks m c o0 (src_Source src) w"
  shows "\<exists>p o1 w1. processSource Background c src o0 w = Finished o1 w1 \<and> mock_processed m c src o0 w p o1 w1"
proof -
  consider (property) "src_Source src = SourcePropertyRecords"
    | (none) "src_Source src = SourceCourtRecords" "c_CourtCaseNumber c = None"
    | (court) number where "src_Source src = SourceCourtRecords" "c_CourtCaseNumber c = Some number"
    | (scra) "src_Source src = SourceSCRA"
    using assms(1) by (auto simp: source_names_def)
  then show ?thesis
  proof cases
    case property
    with assms property_processed [OF property] show ?thesis
      by (simp add: processSource_def breaker_of_def sees_mocks_def)
  next
    case none
    then show ?thesis
      by (simp add: processSource_def set_result_def mock_processed_def mock_outcome_def Let_def breaker_of_def)
        (auto intro!: exI)
  next
    case court
    with assms court_processed [OF court(1) _ assms(3) court(2)] show ?thesis
      by (simp add: processSource_def breaker_of_def sees_mocks_def)
  next
    case scra
    with assms scra_processed [OF scra] show ?thesis
      by (simp add: processSource_def breaker_of_def sees_mocks_def)
  qed
qed

section \<open>All sources of a run\<close>

lemma sources_processed:
  assumes "set (map src_Source ss) \<subseteq> set source_names" "distinct (map src_Source ss)"
    and "rl_live (courtLimiter o0)" "healthy (store o0)"
    and "\<forall>s \<in> set ss. cb_state (breaker_of (src_Source s) o0) = CBClosed"
    and "\<forall>s \<in> set ss. sees_mocks m c o0 (src_Source s) ((ws (src_ID s))\<lparr>clock := now\<rparr>)"
  shows "\<exists>o1 t ps. process_all c ws now ss o0 t0 = RunDone o1 t \<and>
    list_all2 (\<lambda>s q. p_SourceID (snd q) = src_ID s \<and>
      (p_Status (snd q), p_Data (snd q)) = mock_outcome m c (src_Source s) (length (sent (ws (src_ID s)))) now) ss ps \<and>
    results_written ps (store o0) (store o1)"
  using assms
proof (induction ss arbitrary: o0 t0)
  case Nil
  then show ?case by (auto simp: results_written_def same_server_def)
next
  case (Cons s ss)
  let ?w = "(ws (src_ID s))\<lparr>clock := now\<rparr>"
  obtain p o1 w1 where p: "processSource Background c s o0 ?w = Finished o1 w1" "mock_processed m c s o0 ?w p o1 w1"
    using source_processed [of s o0 m c ?w] Cons.prems by auto
  have o1: "store o1 = update_source (p_SourceID p) (result_row (clock w1) p) (next_stmt (store o0))"
    using p(2) Cons.prems(4) by (simp add: mock_processed_def healthy_writes)
  then have d1: "same_server (store o0) (store o1)" "lookup_runs (store o1) = lookup_runs (store o0)"
    "lookup_sources (store o1) = write_result (clock w1, p) (lookup_sources (store o0))"
    by (simp_all add: same_server_def write_result_def)
  have h1: "healthy (store o1)" using healthy_same_server [OF d1(1)] Cons.prems(4) by blast
  have rest: "breaker_of (src_Source x) o1 = breaker_of (src_Source x) o0" if "x \<in> set ss" for x
  proof -
    have "src_Source x \<noteq> src_Source s" using that Cons.prems(2) by (metis distinct.simps(2) imageI list.map(2) list.set_map)
    with that p(2) Cons.prems(1) show ?thesis by (auto simp: mock_processed_def)
  qed
  have sees: "\<forall>x \<in> set ss. sees_mocks m c o1 (src_Source x) ((ws (src_ID x))\<lparr>clock := now\<rparr>)"
    using Cons.prems(6) p(2) by (simp add: mock_processed_def sees_mocks_def)
  obtain o2 t ps where r: "process_all c ws now ss o1 (max t0 (clock w1)) = RunDone o2 t"
    "list_all2 (\<lambda>s q. p_SourceID (snd q) = src_ID s \<and>
      (p_Status (snd q), p_Data (snd q)) = mock_outcome m c (src_Source s) (length (sent (ws (src_ID s)))) now) ss ps"
    "results_written ps (store o1) (store o2)"
    using Cons.IH [of o1 "max t0 (clock w1)"] Cons.prems p(2) h1 rest sees by (auto simp: mock_processed_def)
  show ?case
    using p r results_written_Cons [OF d1 r(3)]
    by (intro exI [of _ o2] exI [of _ t] exI [of _ "(clock w1, p) # ps"]) (simp add: mock_processed_def)
qed

section \<open>A lookup of a case\<close>

text \<open>The overall status that the statuses of the three sources give.\<close>

definition mock_overall :: "mocks \<Rightarrow> case_row \<Rightarrow> time \<Rightarrow> string" where
  "mock_overall m c now =
     (let sts = map (\<lambda>source. fst (mock_outcome m c source 0 now)) source_names in
      if SourceStatusFailed \<notin> set sts then StatusComplete
      else if SourceStatusSuccess \<in> set sts then StatusPartial else StatusFailed)"

lemma mock_outcome_status:
  "fst (mock_outcome m c source n now) \<in> {SourceStatusSuccess, SourceStatusFailed, SourceStatusNotApplicable}"
  by (simp add: mock_outcome_def Let_def split: option.splits)

lemma overall_of_statuses:
  assumes "\<forall>s \<in> set ss. src_Status s \<in> insert SourceStatusNotApplicable outcomes"
  shows "computeOverallStatus ss =
    (if SourceStatusFailed \<notin> src_Status ` set ss then StatusComplete
     else if SourceStatusSuccess \<in> src_Status ` set ss then StatusPartial else StatusFailed)"
proof -
  define sts where "sts = src_Status ` set ss"
  have all: "(\<forall>s \<in> set ss. src_Status s \<in> X) \<longleftrightarrow> sts \<subseteq> X" for X by (auto simp: sts_def)
  have "sts \<subseteq> {SourceStatusSuccess, SourceStatusFailed, SourceStatusNotApplicable}"
    using assms by (auto simp: sts_def)
  then have "sts \<subseteq> {SourceStatusNotApplicable, SourceStatusSuccess} \<longleftrightarrow> SourceStatusFailed \<notin> sts"
    "sts \<subseteq> {SourceStatusNotApplicable, SourceStatusFailed} \<longleftrightarrow> SourceStatusSuccess \<notin> sts"
    by (auto simp: source_status_defs)
  then show ?thesis unfolding computeOverallStatus_eq all sts_def [symmetric] by auto
qed

lemma overall_from_mocks:
  assumes "src_Source ` set ss = set source_names"
    and "\<forall>s \<in> set ss. src_Status s = fst (mock_outcome m c (src_Source s) 0 now)"
  shows "computeOverallStatus ss = mock_overall m c now"
proof -
  have "src_Status ` set ss = (\<lambda>source. fst (mock_outcome m c source 0 now)) ` set source_names"
    unfolding assms(1) [symmetric] image_image using assms(2) by (intro image_cong) auto
  moreover have "\<forall>s \<in> set ss. src_Status s \<in> insert SourceStatusNotApplicable outcomes"
    using assms(2) mock_outcome_status [of m c _ 0 now] by auto
  ultimately show ?thesis
    by (simp add: overall_of_statuses mock_overall_def Let_def)
qed

text \<open>The sources of a run that are not resolved yet, processed in any order.\<close>

lemma unresolved_processed:
  assumes h: "healthy (store o0)" "db_inv (store o0)" and r0: "r0 \<in> set (lookup_runs (store o0))" "run_ID r0 = i"
    and o0: "rl_live (courtLimiter o0)" "cb_state (propertyCB o0) = CBClosed" "cb_state (courtCB o0) = CBClosed"
      "cb_state (scraCB o0) = CBClosed"
    and none: "\<And>j. sent (ws j) = []"
    and sees: "\<forall>source \<in> set source_names. \<forall>j. sees_mocks m c o0 source ((ws j)\<lparr>clock := now\<rparr>)"
    and xs: "set xs = {s \<in> set (lookup_sources (store o0)). src_RunID s = i \<and> unresolved s}" "distinct (map src_ID xs)"
  shows "\<exists>o2 t ps. process_all c ws now xs (o0\<lparr>store := next_stmt (store o0)\<rparr>) now = RunDone o2 t \<and>
    list_all2 (\<lambda>s q. p_SourceID (snd q) = src_ID s \<and>
      (p_Status (snd q), p_Data (snd q)) = mock_outcome m c (src_Source s) 0 now) xs ps \<and>
    results_written ps (next_stmt (store o0)) (store o2)"
proof -
  let ?o = "o0\<lparr>store := next_stmt (store o0)\<rparr>"
  have names: "map src_Source (sources_of i (store o0)) = source_names" using h(2) r0 by (auto simp: db_inv_def)
  have dn: "distinct (map src_Source (sources_of i (store o0)))" unfolding names by (simp add: source_names_def)
  have sub: "set xs \<subseteq> set (sources_of i (store o0))" unfolding xs(1) by (auto simp: sources_of_def)
  have "distinct xs" using xs(2) by (simp add: distinct_map)
  moreover have "inj_on src_Source (set xs)" using dn sub by (auto simp: distinct_map intro: inj_on_subset)
  ultimately have "distinct (map src_Source xs)" by (simp add: distinct_map)
  moreover have in_names: "set (map src_Source xs) \<subseteq> set source_names"
    unfolding names [symmetric] set_map by (rule image_mono [OF sub])
  moreover have "\<forall>s \<in> set xs. cb_state (breaker_of (src_Source s) ?o) = CBClosed"
    using o0(2-4) by (simp add: breaker_of_def)
  moreover have "\<forall>s \<in> set xs. sees_mocks m c ?o (src_Source s) ((ws (src_ID s))\<lparr>clock := now\<rparr>)"
  proof
    fix s assume "s \<in> set xs"
    with in_names have "src_Source s \<in> set source_names" by auto
    with sees have "sees_mocks m c o0 (src_Source s) ((ws (src_ID s))\<lparr>clock := now\<rparr>)" by blast
    then show "sees_mocks m c ?o (src_Source s) ((ws (src_ID s))\<lparr>clock := now\<rparr>)" by (simp add: sees_mocks_def)
  qed
  ultimately show ?thesis
    using sources_processed [of xs ?o m c now ws now] o0(1) h(1) none by simp
qed

text \<open>What a lookup of any run does: what is unresolved gets its outcome, all else stays.\<close>

lemma lookup_against_mocks:
  assumes h: "healthy (store o0)" "db_inv (store o0)" and r0: "r0 \<in> set (lookup_runs (store o0))" "run_ID r0 = run_ID r"
    and o0: "rl_live (courtLimiter o0)" "cb_state (propertyCB o0) = CBClosed" "cb_state (courtCB o0) = CBClosed"
      "cb_state (scraCB o0) = CBClosed"
    and sched: "\<And>ss. mset (sched ss) = mset ss" and none: "\<And>j. sent (ws j) = []"
    and sees: "\<forall>source \<in> set source_names. \<forall>j. sees_mocks m c o0 source ((ws j)\<lparr>clock := now\<rparr>)"
  shows "\<exists>o1 t f. runLookup sched ws now c r o0 = RunDone o1 t \<and>
    lookup_sources (store o1) = map f (lookup_sources (store o0)) \<and>
    (\<forall>s \<in> set (lookup_sources (store o0)). src_RunID (f s) = src_RunID s \<and> src_Source (f s) = src_Source s \<and>
       (if src_RunID s = run_ID r \<and> unresolved s
        then (src_Status (f s), Data (f s)) = mock_outcome m c (src_Source s) 0 now else f s = s))"
proof -
  let ?i = "run_ID r" and ?o = "o0\<lparr>store := next_stmt (store o0)\<rparr>"
  let ?rows = "{s \<in> set (lookup_sources (store o0)). src_RunID s = ?i \<and> unresolved s}"
  let ?Q = "\<lambda>s p. (p_Status p, p_Data p) = mock_outcome m c (src_Source s) 0 now"
  have run: "\<exists>o2 t ps. process_all c ws now xs ?o now = RunDone o2 t \<and>
      list_all2 (\<lambda>s q. p_SourceID (snd q) = src_ID s \<and> ?Q s (snd q)) xs ps \<and>
      results_written ps (next_stmt (store o0)) (store o2)"
    if "set xs = ?rows" "distinct (map src_ID xs)" for xs
    using unresolved_processed [OF h r0 o0 none sees that] .
  let ?xs = "sched (filter unresolved (sort_key src_Source (sources_of ?i (store o0))))"
  have set_xs: "set ?xs = ?rows" "distinct (map src_ID ?xs)"
    using todo_rows [where d = "store o0" and i = ?i, OF _ sched] h(2) by (simp_all add: db_inv_def)
  obtain o2 t where "process_all c ws now ?xs ?o now = RunDone o2 t" using run [OF set_xs] by blast
  then obtain o1 where lookup: "runLookup sched ws now c r o0 = RunDone o1 t"
    using h(1) by (simp add: runLookup_def healthy_reads Let_def split_beta)
  have all: "\<forall>xs o2 t. set xs = ?rows \<and> distinct (map src_ID xs) \<and> process_all c ws now xs ?o now = RunDone o2 t \<longrightarrow>
      (\<exists>ps. list_all2 (\<lambda>s q. p_SourceID (snd q) = src_ID s \<and> ?Q s (snd q)) xs ps \<and>
        results_written ps (next_stmt (store o0)) (store o2))"
  proof (intro allI impI, elim conjE)
    fix xs o2 t
    assume xs: "set xs = ?rows" "distinct (map src_ID xs)" and "process_all c ws now xs ?o now = RunDone o2 t"
    with run [OF xs] show "\<exists>ps. list_all2 (\<lambda>s q. p_SourceID (snd q) = src_ID s \<and> ?Q s (snd q)) xs ps \<and>
        results_written ps (next_stmt (store o0)) (store o2)" by auto
  qed
  obtain f where f: "lookup_sources (store o1) = map f (lookup_sources (store o0))"
    and fs: "\<forall>s \<in> set (lookup_sources (store o0)). if src_RunID s = ?i \<and> unresolved s
       then \<exists>u p. f s = result_row u p s \<and> ?Q s p else f s = s"
    using runLookup_rows [where Q = ?Q, OF lookup h(2,1) sched all] by (elim exE conjE) (rule that)
  have "src_RunID (f s) = src_RunID s \<and> src_Source (f s) = src_Source s \<and>
       (if src_RunID s = run_ID r \<and> unresolved s
        then (src_Status (f s), Data (f s)) = mock_outcome m c (src_Source s) 0 now else f s = s)"
    if "s \<in> set (lookup_sources (store o0))" for s
    using bspec [OF fs that] by (cases "src_RunID s = ?i \<and> unresolved s") (auto simp: result_row_def)
  with lookup f show ?thesis by blast
qed

text \<open>The rows of a run that was just created, after its lookup: every source has its outcome.\<close>

lemma first_lookup_against_mocks:
  assumes rc: "run_created now i r ss d d1" and inv: "db_inv d" "db_inv d1" and h1: "healthy d1"
    and o0: "rl_live (courtLimiter o0)" "cb_state (propertyCB o0) = CBClosed" "cb_state (courtCB o0) = CBClosed"
      "cb_state (scraCB o0) = CBClosed"
    and sched: "\<And>ss. mset (sched ss) = mset ss" and none: "\<And>j. sent (ws j) = []"
    and sees: "\<forall>source \<in> set source_names. \<forall>j. sees_mocks m c o0 source ((ws j)\<lparr>clock := now\<rparr>)"
  shows "\<exists>o1 t. runLookup sched ws now c r (o0\<lparr>store := d1\<rparr>) = RunDone o1 t \<and>
    src_Source ` set (sources_of (run_ID r) (store o1)) = set source_names \<and>
    (\<forall>s \<in> set (sources_of (run_ID r) (store o1)).
       (src_Status s, Data s) = mock_outcome m c (src_Source s) 0 now)"
proof -
  let ?o = "o0\<lparr>store := d1\<rparr>"
  have ss: "sources_of (run_ID r) d1 = ss" by (rule run_created_sources [OF inv(1) rc])
  have names: "map src_Source ss = source_names" and r: "r \<in> set (lookup_runs d1)"
    using rc by (simp_all add: run_created_def)
  have pend: "unresolved s" if "s \<in> set ss" for s
    using run_created_src(2) [OF rc that] by (simp add: unresolved_def source_status_defs)
  have sees': "\<forall>source \<in> set source_names. \<forall>j. sees_mocks m c ?o source ((ws j)\<lparr>clock := now\<rparr>)"
    using sees by (simp add: sees_mocks_def)
  have o: "healthy (store ?o)" "db_inv (store ?o)" "r \<in> set (lookup_runs (store ?o))" "rl_live (courtLimiter ?o)"
    "cb_state (propertyCB ?o) = CBClosed" "cb_state (courtCB ?o) = CBClosed" "cb_state (scraCB ?o) = CBClosed"
    using h1 inv(2) r o0 by simp_all
  obtain o1 t f where run: "runLookup sched ws now c r ?o = RunDone o1 t"
    and f: "lookup_sources (store o1) = map f (lookup_sources d1)"
    and fs: "\<forall>s \<in> set (lookup_sources d1). src_RunID (f s) = src_RunID s \<and> src_Source (f s) = src_Source s \<and>
       (if src_RunID s = run_ID r \<and> unresolved s
        then (src_Status (f s), Data (f s)) = mock_outcome m c (src_Source s) 0 now else f s = s)"
    using lookup_against_mocks [OF o(1-3) refl o(4-7) sched none sees'] by (elim exE conjE) (rule that, simp_all)
  have row: "s \<in> set (lookup_sources d1) \<and> src_RunID s = run_ID r" if "s \<in> set ss" for s
    using that unfolding ss [symmetric] by (simp add: sources_of_def)
  have "set (sources_of (run_ID r) (store o1)) = f ` set ss"
    using fs unfolding ss [symmetric] sources_of_def f by (auto simp: image_iff)
  moreover have "src_Source (f s) = src_Source s \<and> (src_Status (f s), Data (f s)) = mock_outcome m c (src_Source s) 0 now"
    if "s \<in> set ss" for s
    using bspec [OF fs conjunct1 [OF row [OF that]]] row [OF that] pend [OF that] by simp
  ultimately have "src_Source ` set (sources_of (run_ID r) (store o1)) = set source_names"
    "\<forall>s \<in> set (sources_of (run_ID r) (store o1)). (src_Status s, Data s) = mock_outcome m c (src_Source s) 0 now"
    unfolding names [symmetric] set_map by (auto simp: image_image)
  with run show ?thesis by blast
qed

text \<open>The services do not fail for good: some attempt of each kind gets through.\<close>

definition served_well :: "mocks \<Rightarrow> bool" where
  "served_well m \<longleftrightarrow>
     list_ex (\<lambda>i. \<not> m_property_rolls m i < PropertyFailRate (m_cfg m)) [0..<5] \<and>
     list_ex (\<lambda>i. fst (cl_allow (m_court_times m i) (m_court_limiters m i)) \<and>
       \<not> m_court_rolls m i < CourtCorruptRate (m_cfg m)) [0..<5] \<and>
     \<not> m_scra_roll m < SCRAFailRate (m_cfg m)"

lemma mock_outcome_well:
  assumes "served_well m"
  shows "mock_outcome m c source 0 now =
    (if source = SourcePropertyRecords then
       (case map_of propertyData (property_key (lower_str (c_State c)) (lower_str (c_County c)) (c_ParcelID c)) of
          None \<Rightarrow> (SourceStatusFailed, None) | Some r \<Rightarrow> (SourceStatusSuccess, Some (enc_property r)))
     else if source = SourceCourtRecords then
       (case c_CourtCaseNumber c of
          None \<Rightarrow> (SourceStatusNotApplicable, None)
        | Some number \<Rightarrow> (SourceStatusSuccess, map_option
            (\<lambda>r. enc_court (r\<lparr>cr_XMLName := ([], ''CourtRecordResponse'')\<rparr>)) (map_of courtData number)))
     else (SourceStatusSuccess, Some (enc_scra_result (the (scra_lookup (m_tz m) now (search_for c) False)))))"
proof -
  have "\<not> list_all (\<lambda>i. m_property_rolls m (0 + i) < PropertyFailRate (m_cfg m)) [0..<5]"
    using assms by (auto simp: served_well_def list_all_iff list_ex_iff)
  moreover have "list_ex (\<lambda>i. search_settles (m_cfg m) (m_court_rolls m (0 + i))
      (fst (cl_allow (m_court_times m (0 + i)) (m_court_limiters m (0 + i)))) number) [0..<5]" for number
    using assms by (auto simp: served_well_def search_settles_def list_ex_iff)
  moreover have "\<not> m_scra_roll m < SCRAFailRate (m_cfg m)" using assms by (simp add: served_well_def)
  ultimately show ?thesis by (simp add: mock_outcome_def Let_def split: option.splits)
qed

text \<open>The cases the repository ships, in the tables of the mock services.\<close>

lemma seeded_in_tables:
  "map (\<lambda>c. (c_ID c, Option.is_none (map_of propertyData
       (property_key (lower_str (c_State c)) (lower_str (c_County c)) (c_ParcelID c))),
     Option.is_none (c_CourtCaseNumber c))) seeded_cases =
   [(''case-001'', False, True), (''case-002'', False, False), (''case-003'', False, False),
    (''case-004'', False, False), (''case-005'', False, True), (''case-006'', True, False)]"
  unfolding seeded_cases_eq by code_simp

text \<open>The table of the test: case, overall status, statuses of the three sources.\<close>

definition expected_results :: "(string \<times> string \<times> string list) list" where
  "expected_results =
     [(''case-001'', ''complete'', [''success'', ''not_applicable'', ''success'']),
      (''case-002'', ''complete'', [''success'', ''success'', ''success'']),
      (''case-003'', ''complete'', [''success'', ''success'', ''success'']),
      (''case-004'', ''complete'', [''success'', ''success'', ''success'']),
      (''case-005'', ''complete'', [''success'', ''not_applicable'', ''success'']),
      (''case-006'', ''partial'', [''failed'', ''success'', ''success''])]"

lemma mock_statuses_well:
  assumes "served_well m"
  shows "map (\<lambda>source. fst (mock_outcome m c source 0 now)) source_names =
    [if Option.is_none (map_of propertyData
        (property_key (lower_str (c_State c)) (lower_str (c_County c)) (c_ParcelID c)))
     then SourceStatusFailed else SourceStatusSuccess,
     if Option.is_none (c_CourtCaseNumber c) then SourceStatusNotApplicable else SourceStatusSuccess,
     SourceStatusSuccess]"
proof -
  let ?x = "map_of propertyData (property_key (lower_str (c_State c)) (lower_str (c_County c)) (c_ParcelID c))"
  show ?thesis
    by (cases ?x; cases "c_CourtCaseNumber c")
      (simp_all add: mock_outcome_well [OF assms] source_names_def)
qed

lemma seeded_outcomes:
  assumes "served_well m"
  shows "map (\<lambda>c. (c_ID c, mock_overall m c now, map (\<lambda>source. fst (mock_outcome m c source 0 now)) source_names))
    seeded_cases = expected_results"
proof -
  let ?none = "\<lambda>c. Option.is_none (map_of propertyData
    (property_key (lower_str (c_State c)) (lower_str (c_County c)) (c_ParcelID c)))"
  let ?sts = "\<lambda>p n. [if p then SourceStatusFailed else SourceStatusSuccess,
    if n then SourceStatusNotApplicable else SourceStatusSuccess, SourceStatusSuccess]"
  let ?row = "\<lambda>(i, p, n). (i, if p then StatusPartial else StatusComplete, ?sts p n)"
  have all: "SourceStatusFailed \<notin> set (?sts p n) \<longleftrightarrow> \<not> p" "SourceStatusSuccess \<in> set (?sts p n)" for p n
    by (simp_all add: source_status_defs)
  have "(c_ID c, mock_overall m c now, map (\<lambda>source. fst (mock_outcome m c source 0 now)) source_names) =
      ?row (c_ID c, ?none c, Option.is_none (c_CourtCaseNumber c))" for c
    unfolding mock_overall_def mock_statuses_well [OF assms] Let_def all by (simp only: prod.case if_True) simp
  then have "map (\<lambda>c. (c_ID c, mock_overall m c now, map (\<lambda>source. fst (mock_outcome m c source 0 now)) source_names))
      seeded_cases = map ?row (map (\<lambda>c. (c_ID c, ?none c, Option.is_none (c_CourtCaseNumber c))) seeded_cases)"
    unfolding map_map comp_def by (simp only:)
  also have "\<dots> = expected_results"
    unfolding seeded_in_tables by (simp add: expected_results_def source_status_defs StatusPartial_def StatusComplete_def)
  finally show ?thesis .
qed

section \<open>A run that is started again\<close>

lemma retriggered:
  assumes "healthy d" "distinct (map src_ID (lookup_sources d))"
    and "find (\<lambda>c. c_ID c = i) (cases d) = Some c" "find (\<lambda>r. run_CaseID r = i) (lookup_runs d) = Some r"
    and "run_Status r = StatusPartial \<or> run_Status r = StatusFailed"
    and "s0 \<in> set (sources_of (run_ID r) d)" "src_Status s0 \<in> {''pending'', ''failed''}"
  shows "\<exists>d' ss. TriggerLookup now i d =
      (Inr (\<lparr>lr_Case = c, lr_Run = Some (r\<lparr>run_Status := StatusPending\<rparr>), lr_Sources = ss\<rparr>, 202,
        Some (c, r\<lparr>run_Status := StatusPending\<rparr>)), d') \<and>
    lookup_sources d' =
      map (\<lambda>s. if src_RunID s = run_ID r \<and> src_Status s \<in> {''pending'', ''failed''}
               then reset_row s else s) (lookup_sources d) \<and> same_server d d' \<and>
    lookup_runs d' = update_where (\<lambda>q. run_ID q = run_ID r)
      (\<lambda>q. q\<lparr>run_Status := ''pending'', CompletedAt := None\<rparr>) (lookup_runs d)"
proof -
  let ?d3 = "next_stmt (next_stmt (next_stmt d))"
  have "run_Status r \<noteq> StatusComplete" "run_Status r \<noteq> StatusPending" using assms(5) by auto
  then have "TriggerLookup now i d = retrigger now c r (sort_key src_Source (sources_of (run_ID r) d)) ?d3"
    using TriggerLookup_healthy_existing [OF assms(1,3,4), of now] assms(5) by (simp add: Let_def)
  with retrigger_healthy [of ?d3 s0 r now c] assms(1,2,6,7) show ?thesis
    by (fastforce simp: same_server_def)
qed

text \<open>The same seen from the handler, with what the lookup needs of the tables it finds.\<close>

lemma retry_started:
  assumes "healthy d" "db_inv d" "i \<noteq> []"
    and "find (\<lambda>c. c_ID c = i) (cases d) = Some c" "find (\<lambda>r. run_CaseID r = i) (lookup_runs d) = Some r"
    and "run_Status r = StatusPartial \<or> run_Status r = StatusFailed"
    and "s0 \<in> set (sources_of (run_ID r) d)" "src_Status s0 \<in> {''pending'', ''failed''}"
  shows "\<exists>body d1. LookupCase tz now i d = ((writeJSON 202 body, Some (c, r\<lparr>run_Status := StatusPending\<rparr>)), d1) \<and>
    lookup_sources d1 = map (\<lambda>s. if src_RunID s = run_ID r \<and> src_Status s \<in> {''pending'', ''failed''}
      then reset_row s else s) (lookup_sources d) \<and>
    healthy d1 \<and> db_inv d1 \<and> cases d1 = cases d \<and>
    r\<lparr>run_Status := ''pending'', CompletedAt := None\<rparr> \<in> set (lookup_runs d1)"
proof -
  let ?r = "r\<lparr>run_Status := StatusPending\<rparr>"
  have dist: "distinct (map src_ID (lookup_sources d))" using assms(2) by (simp add: db_inv_def)
  obtain d1 ss where t: "TriggerLookup now i d =
      (Inr (\<lparr>lr_Case = c, lr_Run = Some ?r, lr_Sources = ss\<rparr>, 202, Some (c, ?r)), d1)"
    and d1: "lookup_sources d1 = map (\<lambda>s. if src_RunID s = run_ID r \<and> src_Status s \<in> {''pending'', ''failed''}
      then reset_row s else s) (lookup_sources d)" "same_server d d1"
      "lookup_runs d1 = update_where (\<lambda>q. run_ID q = run_ID r)
        (\<lambda>q. q\<lparr>run_Status := ''pending'', CompletedAt := None\<rparr>) (lookup_runs d)"
    using retriggered [OF assms(1) dist assms(4-8)] by blast
  have "\<exists>body. LookupCase tz now i d = ((writeJSON 202 body, Some (c, ?r)), d1)"
    using t assms(3) by (auto simp: LookupCase_def)
  moreover have "db_inv d1" using TriggerLookup_ok [OF assms(2), of now i] t by simp
  moreover have "healthy d1" "cases d1 = cases d"
    using assms(1) d1(2) healthy_same_server [OF d1(2)] by (simp_all add: same_server_def)
  moreover have "r\<lparr>run_Status := ''pending'', CompletedAt := None\<rparr> \<in> set (lookup_runs d1)"
    using find_SomeD [OF assms(5)] by (simp add: d1(3) set_update_where)
  ultimately show ?thesis using d1(1) by blast
qed

text \<open>A row of the run through the reset and the lookup.\<close>

lemma row_after_retry:
  assumes "s \<in> set (sources_of i d)"
    and d1: "lookup_sources d1 = map (\<lambda>s. if src_RunID s = i \<and> src_Status s \<in> {''pending'', ''failed''}
      then reset_row s else s) (lookup_sources d)" and "db_inv d"
    and f: "lookup_sources d2 = map f (lookup_sources d1)"
    and fs: "\<forall>s \<in> set (lookup_sources d1). src_RunID (f s) = src_RunID s \<and> src_Source (f s) = src_Source s \<and>
       (if src_RunID s = i \<and> unresolved s then (src_Status (f s), Data (f s)) = X (src_Source s) else f s = s)"
  defines "s1 \<equiv> if src_RunID s = i \<and> src_Status s \<in> {''pending'', ''failed''} then reset_row s else s"
  shows "f s1 \<in> set (sources_of i d2) \<and> src_Source (f s1) = src_Source s \<and>
    (if src_Status s \<in> {''pending'', ''failed''} then (src_Status (f s1), Data (f s1)) = X (src_Source s) else f s1 = s)"
proof -
  have s: "s \<in> set (lookup_sources d)" "src_RunID s = i" using assms(1) by (simp_all add: sources_of_def)
  have st: "src_Status s \<in> source_statuses" using assms(3) s(1) by (simp add: db_inv_def)
  have s1: "s1 \<in> set (lookup_sources d1)" "src_RunID s1 = i" "src_Source s1 = src_Source s"
    using s unfolding d1 s1_def by auto
  have "unresolved s1 \<longleftrightarrow> src_Status s \<in> {''pending'', ''failed''}"
    using st s(2) by (auto simp: s1_def unresolved_def source_statuses_def source_status_defs)
  then have "src_RunID (f s1) = i" "src_Source (f s1) = src_Source s"
    "if src_Status s \<in> {''pending'', ''failed''} then (src_Status (f s1), Data (f s1)) = X (src_Source s) else f s1 = s1"
    using bspec [OF fs s1(1)] s1(2,3) by auto
  moreover have "s1 = s" if "src_Status s \<notin> {''pending'', ''failed''}" using that by (simp add: s1_def)
  ultimately show ?thesis using s1(1) by (auto simp: sources_of_def f)
qed

text \<open>What the status endpoint makes of such a row.\<close>

lemma row_reported:
  assumes "set resp = (\<lambda>s. (src_Source s, sourceResponse_of tz s)) ` rows" "s1 \<in> rows" "src_Source s1 = src_Source s"
    and "if P then (src_Status s1, Data s1) = y else s1 = s"
  shows "\<exists>x. (src_Source s, x) \<in> set resp \<and> (if P then (sr_Status x, sr_Data x) = y else x = sourceResponse_of tz s)"
proof (intro exI conjI)
  show "(src_Source s, sourceResponse_of tz s1) \<in> set resp" unfolding assms(1) by (rule image_eqI [where x = s1]) (simp_all add: assms(2,3))
  show "if P then (sr_Status (sourceResponse_of tz s1), sr_Data (sourceResponse_of tz s1)) = y
      else sourceResponse_of tz s1 = sourceResponse_of tz s"
    using assms(4) by (auto simp: sourceResponse_of_def split: if_splits)
qed

section \<open>A network for the examples\<close>

text \<open>All three services behind one base URL, told apart by the path; the lookup starts at 7.\<close>

definition net_mocks :: "case_row \<Rightarrow> mocks" where
  "net_mocks c =
     \<lparr>m_cfg = mock_config, m_tz = 0, m_property_rolls = one_failure, m_court_rolls = one_failure,
      m_cut_error = ''EOF'', m_court_times = (\<lambda>_. 0), m_court_limiters = (\<lambda>_. new_court_limiter mock_config 0),
      m_lag = 0, m_pick = 0, m_scra_roll = 1, m_scra_before = \<lparr>searches = [], timers = []\<rparr>,
      m_scra_after = one_search c\<rparr>"

definition path_of :: "http_request \<Rightarrow> string" where
  "path_of req = drop (length (sc_baseURL (scraClient sample_orc))) (req_url req)"

definition mock_world :: "case_row \<Rightarrow> world" where
  "mock_world c = scripted_world []\<lparr>clock := 7, net := (\<lambda>n req.
     if prefix_of ''/api/properties/'' (path_of req) then
       property_exchange mock_config (one_failure n) (propertyClient sample_orc) req
     else if path_of req = ''/api/court-records/search'' then
       court_exchange mock_config (one_failure n) ''EOF'' 0 (new_court_limiter mock_config 0) (courtClient sample_orc) req
     else
       scra_exchange mock_config 0 (7 + int n * Second) 0 1
         (if n = 0 then \<lparr>searches = [], timers = []\<rparr> else one_search c n) (scraClient sample_orc) req)\<rparr>"

lemma path_of_requests:
  "path_of (property_request (propertyClient sample_orc) st co p) = ''/api/properties/'' @ st @ ''/'' @ co @ ''/'' @ p"
  "path_of (court_request (courtClient sample_orc) number) = ''/api/court-records/search''"
  "path_of (submit_request (scraClient sample_orc) q) = ''/api/scra/search''"
  "path_of (poll_request (scraClient sample_orc) i) = ''/api/scra/results/'' @ i"
  by (simp_all add: path_of_def property_request_def court_request_def submit_request_def poll_request_def
      sample_orc_def NewOrchestrator_def NewSCRAClient_def NewPropertyClient_def NewCourtClient_def)

lemma mock_world_net:
  "net (mock_world c) n (property_request (propertyClient sample_orc) st co p) =
     property_exchange mock_config (one_failure n) (propertyClient sample_orc)
       (property_request (propertyClient sample_orc) st co p)"
  "net (mock_world c) n (court_request (courtClient sample_orc) number) =
     court_exchange mock_config (one_failure n) ''EOF'' 0 (new_court_limiter mock_config 0) (courtClient sample_orc)
       (court_request (courtClient sample_orc) number)"
  "net (mock_world c) n (submit_request (scraClient sample_orc) q) =
     scra_exchange mock_config 0 (7 + int n * Second) 0 1
       (if n = 0 then \<lparr>searches = [], timers = []\<rparr> else one_search c n) (scraClient sample_orc)
       (submit_request (scraClient sample_orc) q)"
  "net (mock_world c) n (poll_request (scraClient sample_orc) i) =
     scra_exchange mock_config 0 (7 + int n * Second) 0 1
       (if n = 0 then \<lparr>searches = [], timers = []\<rparr> else one_search c n) (scraClient sample_orc)
       (poll_request (scraClient sample_orc) i)"
proof -
  have eq: "net (mock_world c) n req =
    (if prefix_of ''/api/properties/'' (path_of req) then
       property_exchange mock_config (one_failure n) (propertyClient sample_orc) req
     else if path_of req = ''/api/court-records/search'' then
       court_exchange mock_config (one_failure n) ''EOF'' 0 (new_court_limiter mock_config 0) (courtClient sample_orc) req
     else
       scra_exchange mock_config 0 (7 + int n * Second) 0 1
         (if n = 0 then \<lparr>searches = [], timers = []\<rparr> else one_search c n) (scraClient sample_orc) req)" for req
    by (simp add: mock_world_def)
  have p: "prefix_of ''/api/properties/'' (''/api/properties/'' @ s)" for s by (rule prefix_of_append)
  have no: "\<not> prefix_of ''/api/properties/'' ''/api/court-records/search''"
    "\<not> prefix_of ''/api/properties/'' ''/api/scra/search''" "''/api/scra/search'' \<noteq> ''/api/court-records/search''"
    by code_simp+
  have poll: "\<not> prefix_of ''/api/properties/'' (''/api/scra/results/'' @ i)"
    "''/api/scra/results/'' @ i \<noteq> ''/api/court-records/search''" by (simp_all add: prefix_of_def)
  show "net (mock_world c) n (property_request (propertyClient sample_orc) st co p) =
     property_exchange mock_config (one_failure n) (propertyClient sample_orc)
       (property_request (propertyClient sample_orc) st co p)"
    unfolding eq path_of_requests by (simp only: p if_True)
  show "net (mock_world c) n (court_request (courtClient sample_orc) number) =
     court_exchange mock_config (one_failure n) ''EOF'' 0 (new_court_limiter mock_config 0) (courtClient sample_orc)
       (court_request (courtClient sample_orc) number)"
    unfolding eq path_of_requests by (simp only: no if_False if_True simp_thms)
  show "net (mock_world c) n (submit_request (scraClient sample_orc) q) =
     scra_exchange mock_config 0 (7 + int n * Second) 0 1
       (if n = 0 then \<lparr>searches = [], timers = []\<rparr> else one_search c n) (scraClient sample_orc)
       (submit_request (scraClient sample_orc) q)"
    unfolding eq path_of_requests by (simp only: no if_False simp_thms)
  show "net (mock_world c) n (poll_request (scraClient sample_orc) i) =
     scra_exchange mock_config 0 (7 + int n * Second) 0 1
       (if n = 0 then \<lparr>searches = [], timers = []\<rparr> else one_search c n) (scraClient sample_orc)
       (poll_request (scraClient sample_orc) i)"
    unfolding eq path_of_requests by (simp only: poll if_False simp_thms)
qed

lemma mock_world_sees:
  assumes "CHR ''/'' \<notin> set (c_State c)" "CHR ''/'' \<notin> set (c_County c)" "c_LastName c \<noteq> []"
    and "list_all plain_segment (c_State c # c_County c # split_slash (c_ParcelID c))"
    and "c_CourtCaseNumber c \<noteq> Some []"
    and "propertyClient o1 = propertyClient sample_orc" "courtClient o1 = courtClient sample_orc"
      "scraClient o1 = scraClient sample_orc"
  shows "sees_mocks (net_mocks c) c o1 source ((mock_world c)\<lparr>clock := 7\<rparr>)"
proof -
  have w: "(mock_world c)\<lparr>clock := 7\<rparr> = mock_world c" by (simp add: mock_world_def)
  have u: "url_error (mock_world c) = (\<lambda>_. None)" "clock (mock_world c) = 7" "sent (mock_world c) = []"
    by (simp_all add: mock_world_def scripted_world_def)
  have "scra_served mock_config 0 0 0 1 \<lparr>searches = [], timers = []\<rparr> (one_search c) (scraClient sample_orc)
      (search_for c) (mock_world c)"
    unfolding mock_config_def
    by (rule one_search_sees [OF assms(3)]) (simp_all add: u mock_world_net mock_config_def [symmetric])
  with assms show ?thesis
    unfolding w by (auto simp: sees_mocks_def net_mocks_def property_served_def court_served_def u mock_world_net)
qed

lemma net_mocks_well: "served_well (net_mocks c)"
proof -
  have "fst (cl_allow 0 (new_court_limiter mock_config 0))"
    by (simp add: mock_config_def loadConfig_def envInt_def new_court_limiter_def cl_allow_def Second_def Millisecond_def)
  then show ?thesis
    by (auto simp: served_well_def net_mocks_def mock_config one_failure_def list_ex_iff default_config
        mock_config_def [symmetric] intro!: bexI [of _ 1])
      (simp add: mock_config_def default_config)
qed

section \<open>Properties\<close>

lemma enriched:
  assumes "healthy (store o0)" "fresh_uuids (store o0)" "db_inv (store o0)" "rl_live (courtLimiter o0)"
    and "cb_state (propertyCB o0) = CBClosed" "cb_state (courtCB o0) = CBClosed" "cb_state (scraCB o0) = CBClosed"
    and "find (\<lambda>c. c_ID c = i) (cases (store o0)) = Some c" "i \<noteq> []"
    and "i \<notin> set (map run_CaseID (lookup_runs (store o0)))"
    and sched: "\<And>ss. mset (sched ss) = mset ss" and none: "\<And>j. sent (ws j) = []"
    and sees: "\<forall>source \<in> set source_names. \<forall>j. sees_mocks m c o0 source ((ws j)\<lparr>clock := now\<rparr>)"
  shows "\<exists>body r d1 o1 t resp d2.
    LookupCase tz now i (store o0) = ((writeJSON 202 body, Some (c, r)), d1) \<and>
    runLookup sched ws now c r (o0\<lparr>store := d1\<rparr>) = RunDone o1 t \<and>
    GetLookupStatus tz i (store o1) = (writeJSON 200 (enc_statusResponse resp), d2) \<and>
    st_Status resp = mock_overall m c now \<and>
    map (\<lambda>(source, x). (source, sr_Status x, sr_Data x)) (st_Sources resp) =
      map (\<lambda>source. (source, mock_outcome m c source 0 now)) [SourceCourtRecords, SourcePropertyRecords, SourceSCRA]"
proof -
  obtain r ss d1 where t: "TriggerLookup now i (store o0) =
      (Inr (\<lparr>lr_Case = c, lr_Run = Some r, lr_Sources = ss\<rparr>, 202, Some (c, r)), d1)"
    and rc: "run_created now i r ss (store o0) d1"
    using first_trigger [OF assms(1,2,3,8,10)] by blast
  have d1: "db_inv d1" using TriggerLookup_ok [OF assms(3), of now i] t by simp
  have h1: "healthy d1" using rc assms(1) healthy_same_server unfolding run_created_def by blast
  obtain o1 t1 where run: "runLookup sched ws now c r (o0\<lparr>store := d1\<rparr>) = RunDone o1 t1"
    and src: "src_Source ` set (sources_of (run_ID r) (store o1)) = set source_names"
    and out: "\<forall>s \<in> set (sources_of (run_ID r) (store o1)). (src_Status s, Data s) = mock_outcome m c (src_Source s) 0 now"
    using first_lookup_against_mocks [OF rc assms(3) d1 h1 assms(4-7) sched none sees] by blast
  from first_lookup_reported [OF assms(1,3,4,8,9) sched rc d1 run, of tz] obtain resp d2 where
    g: "GetLookupStatus tz i (store o1) = (writeJSON 200 (enc_statusResponse resp), d2)"
      "st_Status resp = computeOverallStatus (sources_of (run_ID r) (store o1))"
      "map fst (st_Sources resp) = [SourceCourtRecords, SourcePropertyRecords, SourceSCRA]"
      "set (st_Sources resp) = (\<lambda>s. (src_Source s, sourceResponse_of tz s)) ` set (sources_of (run_ID r) (store o1))"
    by (elim exE conjE) (rule that)
  have "\<forall>s \<in> set (sources_of (run_ID r) (store o1)). src_Status s = fst (mock_outcome m c (src_Source s) 0 now)"
    using out by (metis fst_conv)
  from overall_from_mocks [OF src this] have status: "st_Status resp = mock_overall m c now" by (simp add: g(2))
  have "\<forall>(source, x) \<in> set (st_Sources resp). (sr_Status x, sr_Data x) = mock_outcome m c source 0 now"
    unfolding g(4) using out by (auto simp: sourceResponse_of_def)
  then have "map (\<lambda>(source, x). (source, sr_Status x, sr_Data x)) (st_Sources resp) =
      map (\<lambda>source. (source, mock_outcome m c source 0 now)) (map fst (st_Sources resp))"
    unfolding map_map by (intro map_cong) auto
  moreover obtain body where "LookupCase tz now i (store o0) = ((writeJSON 202 body, Some (c, r)), d1)"
    using t assms(9) by (auto simp: LookupCase_def)
  ultimately show ?thesis
    using run g(1) status unfolding g(3) by (intro exI conjI) assumption+
qed

text \<open>
  Claim C8. The gateway and the mock services together: on a healthy database, with closed
  breakers, a case without a run is enriched, and the status endpoint then reports for every
  source what the tables of the services hold for the case and what their draws allow, with the
  data unchanged on its way through XML, JSON and the database, and the overall status that
  follows from the three. No order of the goroutines and no delay of the services changes this.
\<close>

theorem enrichment_against_mocks:
  assumes "healthy (store o0)" "fresh_uuids (store o0)" "db_inv (store o0)" "rl_live (courtLimiter o0)"
    and "cb_state (propertyCB o0) = CBClosed" "cb_state (courtCB o0) = CBClosed" "cb_state (scraCB o0) = CBClosed"
    and "find (\<lambda>c. c_ID c = i) (cases (store o0)) = Some c" "i \<noteq> []"
    and "i \<notin> set (map run_CaseID (lookup_runs (store o0)))"
    and "\<And>ss. mset (sched ss) = mset ss" and "\<And>j. sent (ws j) = []"
    and "\<forall>source \<in> set source_names. \<forall>j. sees_mocks m c o0 source ((ws j)\<lparr>clock := now\<rparr>)"
  shows "\<exists>body r d1 o1 t resp d2.
    LookupCase tz now i (store o0) = ((writeJSON 202 body, Some (c, r)), d1) \<and>
    runLookup sched ws now c r (o0\<lparr>store := d1\<rparr>) = RunDone o1 t \<and>
    GetLookupStatus tz i (store o1) = (writeJSON 200 (enc_statusResponse resp), d2) \<and>
    st_Status resp = mock_overall m c now \<and>
    map (\<lambda>(source, x). (source, sr_Status x, sr_Data x)) (st_Sources resp) =
      map (\<lambda>source. (source, mock_outcome m c source 0 now)) [SourceCourtRecords, SourcePropertyRecords, SourceSCRA]"
  by (rule enriched [OF assms])

theorem enrichment_against_mocks_witness:
  "\<exists>body r d1 o1 t resp d2.
    LookupCase 0 7 ''C1'' sample_db = ((writeJSON 202 body, Some (sample_case, r)), d1) \<and>
    runLookup rev (\<lambda>_. mock_world sample_case) 7 sample_case r (sample_orc\<lparr>store := d1\<rparr>) = RunDone o1 t \<and>
    GetLookupStatus 0 ''C1'' (store o1) = (writeJSON 200 (enc_statusResponse resp), d2) \<and>
    st_Status resp = StatusPartial"
proof -
  let ?o = "sample_orc\<lparr>store := sample_db\<rparr>"
  have c: "find (\<lambda>c. c_ID c = ''C1'') (cases (store ?o)) = Some sample_case"
    and r: "''C1'' \<notin> set (map run_CaseID (lookup_runs (store ?o)))"
    by (simp_all add: sample_db_def sample_case_def)
  have o: "healthy (store ?o)" "fresh_uuids (store ?o)" "db_inv (store ?o)" "rl_live (courtLimiter ?o)"
    using sample_db_ok by simp_all
  have b: "cb_state (propertyCB ?o) = CBClosed" "cb_state (courtCB ?o) = CBClosed" "cb_state (scraCB ?o) = CBClosed"
    by (simp_all add: NewCircuitBreaker_def)
  have m: "mset (rev ss) = mset ss" for ss :: "source_row list" by simp
  have n: "sent (mock_world sample_case) = []" by (simp add: mock_world_def scripted_world_def)
  have sees: "sees_mocks (net_mocks sample_case) sample_case ?o source ((mock_world sample_case)\<lparr>clock := 7\<rparr>)" for source
    by (rule mock_world_sees) (simp_all add: sample_case_def plain_segment_def)
  have none: "map_of propertyData ''tx:travis:p1'' = None" by (simp add: propertyData_def)
  have "property_key (lower_str (c_State sample_case)) (lower_str (c_County sample_case)) (c_ParcelID sample_case) =
      ''tx:travis:p1''" unfolding sample_case_def by code_simp
  then have overall: "mock_overall (net_mocks sample_case) sample_case 7 = StatusPartial"
    unfolding mock_overall_def mock_statuses_well [OF net_mocks_well]
    by (simp add: none source_status_defs sample_case_def)
  have "\<forall>source \<in> set source_names. \<forall>j. sees_mocks (net_mocks sample_case) sample_case ?o source
      (((\<lambda>_. mock_world sample_case) j)\<lparr>clock := 7\<rparr>)" using sees by simp
  from enrichment_against_mocks [OF o b c _ r m _ this, of 0] n overall show ?thesis by fastforce
qed

text \<open>
  Claim C5. Retrying against the mock services: a case whose run is partial or failed, with
  some source that is not resolved, is enriched again with 202 on the same run; after the lookup
  the status endpoint reports for every source that was failed or pending what its service
  has now, and for every other source exactly what it reported before, so a result once
  obtained is never lost or asked for again; the overall status follows from the three.
\<close>

theorem retry_against_mocks:
  assumes "healthy (store o0)" "db_inv (store o0)" "rl_live (courtLimiter o0)"
    and "cb_state (propertyCB o0) = CBClosed" "cb_state (courtCB o0) = CBClosed" "cb_state (scraCB o0) = CBClosed"
    and "find (\<lambda>c. c_ID c = i) (cases (store o0)) = Some c" "i \<noteq> []"
    and "find (\<lambda>r. run_CaseID r = i) (lookup_runs (store o0)) = Some r"
    and "run_Status r = StatusPartial \<or> run_Status r = StatusFailed"
    and "s0 \<in> set (sources_of (run_ID r) (store o0))" "src_Status s0 \<in> {''pending'', ''failed''}"
    and sched: "\<And>ss. mset (sched ss) = mset ss" and none: "\<And>j. sent (ws j) = []"
    and sees: "\<forall>source \<in> set source_names. \<forall>j. sees_mocks m c o0 source ((ws j)\<lparr>clock := now\<rparr>)"
  shows "\<exists>body r' d1 o1 t resp d2.
    LookupCase tz now i (store o0) = ((writeJSON 202 body, Some (c, r')), d1) \<and> run_ID r' = run_ID r \<and>
    runLookup sched ws now c r' (o0\<lparr>store := d1\<rparr>) = RunDone o1 t \<and>
    GetLookupStatus tz i (store o1) = (writeJSON 200 (enc_statusResponse resp), d2) \<and> st_RunID resp = run_ID r \<and>
    map fst (st_Sources resp) = [SourceCourtRecords, SourcePropertyRecords, SourceSCRA] \<and>
    (\<forall>s \<in> set (sources_of (run_ID r) (store o0)). \<exists>x. (src_Source s, x) \<in> set (st_Sources resp) \<and>
       (if src_Status s \<in> {''pending'', ''failed''}
        then (sr_Status x, sr_Data x) = mock_outcome m c (src_Source s) 0 now
        else x = sourceResponse_of tz s)) \<and>
    st_Status resp =
      (let sts = (sr_Status \<circ> snd) ` set (st_Sources resp) in
       if SourceStatusFailed \<notin> sts then StatusComplete
       else if SourceStatusSuccess \<in> sts then StatusPartial else StatusFailed)"
proof -
  let ?i = "run_ID r" and ?open = "\<lambda>s :: source_row. src_Status s \<in> {''pending'', ''failed''}"
  let ?r = "r\<lparr>run_Status := StatusPending\<rparr>" and ?d = "store o0"
  let ?reset = "r\<lparr>run_Status := ''pending'', CompletedAt := None\<rparr>"
  obtain body d1 where t: "LookupCase tz now i ?d = ((writeJSON 202 body, Some (c, ?r)), d1)"
    and d1: "lookup_sources d1 = map (\<lambda>s. if src_RunID s = ?i \<and> ?open s then reset_row s else s) (lookup_sources ?d)"
      "healthy d1" "db_inv d1" "cases d1 = cases ?d" "?reset \<in> set (lookup_runs d1)"
    using retry_started [OF assms(1,2,8,7,9-12)] by blast
  let ?o = "o0\<lparr>store := d1\<rparr>"
  have o: "healthy (store ?o)" "db_inv (store ?o)" "rl_live (courtLimiter ?o)"
    "cb_state (propertyCB ?o) = CBClosed" "cb_state (courtCB ?o) = CBClosed" "cb_state (scraCB ?o) = CBClosed"
    "find (\<lambda>c. c_ID c = i) (cases (store ?o)) = Some c" using assms(3-7) d1 by simp_all
  have r0: "?reset \<in> set (lookup_runs (store ?o))" "run_ID ?reset = run_ID ?r" "run_CaseID ?reset = i"
    using d1(5) find_SomeD [OF assms(9)] by simp_all
  have sees': "\<forall>source \<in> set source_names. \<forall>j. sees_mocks m c ?o source ((ws j)\<lparr>clock := now\<rparr>)"
    using sees by (simp add: sees_mocks_def)
  obtain o1 t1 f where run: "runLookup sched ws now c ?r ?o = RunDone o1 t1"
    and f: "lookup_sources (store o1) = map f (lookup_sources d1)"
    and fs: "\<forall>s \<in> set (lookup_sources d1). src_RunID (f s) = src_RunID s \<and> src_Source (f s) = src_Source s \<and>
       (if src_RunID s = ?i \<and> unresolved s
        then (src_Status (f s), Data (f s)) = mock_outcome m c (src_Source s) 0 now else f s = s)"
    using lookup_against_mocks [OF o(1,2) r0(1,2) o(3-6) sched none sees'] by auto
  from lookup_reported [OF run o(1-3,7) assms(8) sched r0, of tz] obtain resp d2 where
    g: "GetLookupStatus tz i (store o1) = (writeJSON 200 (enc_statusResponse resp), d2)"
      "st_RunID resp = run_ID ?r" "st_Status resp = computeOverallStatus (sources_of (run_ID ?r) (store o1))"
      "map fst (st_Sources resp) = [SourceCourtRecords, SourcePropertyRecords, SourceSCRA]"
      "set (st_Sources resp) = (\<lambda>s. (src_Source s, sourceResponse_of tz s)) ` set (sources_of (run_ID ?r) (store o1))"
      "\<forall>s \<in> set (sources_of (run_ID ?r) (store o1)). src_Status s \<in> insert SourceStatusNotApplicable outcomes"
    by (elim exE conjE) (rule that)
  have "\<exists>x. (src_Source s, x) \<in> set (st_Sources resp) \<and>
       (if ?open s then (sr_Status x, sr_Data x) = mock_outcome m c (src_Source s) 0 now else x = sourceResponse_of tz s)"
    if s: "s \<in> set (sources_of ?i ?d)" for s
  proof -
    note y = row_after_retry [OF s d1(1) assms(2) f fs]
    have "set (st_Sources resp) = (\<lambda>s. (src_Source s, sourceResponse_of tz s)) ` set (sources_of ?i (store o1))"
      using g(5) by simp
    from row_reported [OF this conjunct1 [OF y] conjunct1 [OF conjunct2 [OF y]] conjunct2 [OF conjunct2 [OF y]]]
    show ?thesis .
  qed
  moreover have "(sr_Status \<circ> snd) ` set (st_Sources resp) = src_Status ` set (sources_of ?i (store o1))"
    by (simp add: g(5) image_image sourceResponse_of_def)
  ultimately show ?thesis
    using t run g overall_of_statuses [OF g(6)] by (intro exI conjI) (assumption | simp add: Let_def)+
qed

theorem retry_against_mocks_witness:
  "\<exists>body r' d1 o1 t resp d2.
    LookupCase 0 7 ''C1'' (sample_run_db StatusPartial) = ((writeJSON 202 body, Some (sample_case, r')), d1) \<and>
    runLookup rev (\<lambda>_. mock_world sample_case) 7 sample_case r'
      (sample_orc\<lparr>store := d1\<rparr>) = RunDone o1 t \<and>
    GetLookupStatus 0 ''C1'' (store o1) = (writeJSON 200 (enc_statusResponse resp), d2) \<and>
    map_option sr_Status (map_of (st_Sources resp) SourcePropertyRecords) = Some SourceStatusSuccess"
proof -
  let ?o = "sample_orc\<lparr>store := sample_run_db StatusPartial\<rparr>"
  let ?p = "(new_source ''p'' ''R'' SourcePropertyRecords)\<lparr>src_Status := SourceStatusSuccess, Attempts := 1\<rparr>"
  have o: "healthy (store ?o)" "db_inv (store ?o)" "rl_live (courtLimiter ?o)"
    "cb_state (propertyCB ?o) = CBClosed" "cb_state (courtCB ?o) = CBClosed" "cb_state (scraCB ?o) = CBClosed"
    "find (\<lambda>c. c_ID c = ''C1'') (cases (store ?o)) = Some sample_case"
    "find (\<lambda>r. run_CaseID r = ''C1'') (lookup_runs (store ?o)) = Some (sample_run StatusPartial)"
    using sample_run_db_ok(5) by (simp_all add: sample_run_db_ok(1-4) NewCircuitBreaker_def)
  have s0: "new_source ''s'' ''R'' SourceSCRA \<in> set (sources_of (run_ID (sample_run StatusPartial)) (store ?o))"
    and p: "?p \<in> set (sources_of (run_ID (sample_run StatusPartial)) (store ?o))"
    by (simp_all add: sample_run_db_def sample_run_def sources_of_def)
  have m: "mset (rev ss) = mset ss" for ss :: "source_row list" by simp
  have n: "sent ((\<lambda>_. mock_world sample_case) j) = []" for j by (simp add: mock_world_def scripted_world_def)
  have "sees_mocks (net_mocks sample_case) sample_case ?o source ((mock_world sample_case)\<lparr>clock := 7\<rparr>)" for source
    by (rule mock_world_sees) (simp_all add: sample_case_def plain_segment_def)
  then have sees: "\<forall>source \<in> set source_names. \<forall>j. sees_mocks (net_mocks sample_case) sample_case ?o source
      (((\<lambda>_. mock_world sample_case) j)\<lparr>clock := 7\<rparr>)" by simp
  have i: "''C1'' \<noteq> []" and st: "run_Status (sample_run StatusPartial) = StatusPartial \<or>
      run_Status (sample_run StatusPartial) = StatusFailed"
    and s1: "src_Status (new_source ''s'' ''R'' SourceSCRA) \<in> {''pending'', ''failed''}"
    by (simp_all add: sample_run_db_ok)
  from retry_against_mocks [where tz = 0, OF o(1-7) i o(8) st s0 s1 m n sees] obtain body r' d1 o1 t resp d2 where
    e: "LookupCase 0 7 ''C1'' (store ?o) = ((writeJSON 202 body, Some (sample_case, r')), d1)"
      "runLookup rev (\<lambda>_. mock_world sample_case) 7 sample_case r' (?o\<lparr>store := d1\<rparr>) = RunDone o1 t"
      "GetLookupStatus 0 ''C1'' (store o1) = (writeJSON 200 (enc_statusResponse resp), d2)"
      "map fst (st_Sources resp) = [SourceCourtRecords, SourcePropertyRecords, SourceSCRA]"
    and rows: "\<forall>s \<in> set (sources_of (run_ID (sample_run StatusPartial)) (store ?o)).
      \<exists>x. (src_Source s, x) \<in> set (st_Sources resp) \<and>
       (if src_Status s \<in> {''pending'', ''failed''}
        then (sr_Status x, sr_Data x) = mock_outcome (net_mocks sample_case) sample_case (src_Source s) 0 7
        else x = sourceResponse_of 0 s)"
    by (elim exE conjE) (rule that)
  have "(SourcePropertyRecords, sourceResponse_of 0 ?p) \<in> set (st_Sources resp)"
    using bspec [OF rows p] by (simp add: source_status_defs)
  moreover have "distinct (map fst (st_Sources resp))" by (simp add: e(4))
  ultimately have "map_of (st_Sources resp) SourcePropertyRecords = Some (sourceResponse_of 0 ?p)"
    by (simp add: map_of_eq_Some_iff)
  then have "map_option sr_Status (map_of (st_Sources resp) SourcePropertyRecords) = Some SourceStatusSuccess"
    by (simp add: sourceResponse_of_def)
  with e(1-3) show ?thesis by (intro exI conjI) simp_all
qed

lemma seeded_distinct: "distinct (map c_ID seeded_cases)"
  by (simp add: seeded_cases_eq)

lemma seeded_case:
  assumes "served_well m" "(i, overall, statuses) \<in> set expected_results"
  shows "\<exists>c \<in> set seeded_cases. c_ID c = i \<and> find (\<lambda>c. c_ID c = i) seeded_cases = Some c \<and>
    mock_overall m c now = overall \<and> map (\<lambda>source. fst (mock_outcome m c source 0 now)) source_names = statuses"
proof -
  have "(i, overall, statuses) \<in> set (map (\<lambda>c. (c_ID c, mock_overall m c now,
      map (\<lambda>source. fst (mock_outcome m c source 0 now)) source_names)) seeded_cases)"
    unfolding seeded_outcomes [OF assms(1)] by (rule assms(2))
  then obtain c where c: "c \<in> set seeded_cases" "c_ID c = i" "mock_overall m c now = overall"
    "map (\<lambda>source. fst (mock_outcome m c source 0 now)) source_names = statuses" by auto
  from find_distinct [OF seeded_distinct c(1)] c show ?thesis by auto
qed

text \<open>
  Claim C20. The integration test of the repository, as a theorem: the cases it ships, enriched
  against the mock services it ships, end with the statuses that
  \<^verbatim>\<open>TestIntegration_AllCases\<close> expects, provided the mocks let one attempt of each kind
  through; the test itself can fail, since they draw their failures at random. In particular the
  parcel of case-006 is in no table: its run is partial, whatever is retried.
\<close>

theorem integration_all_cases:
  assumes "healthy (store o0)" "fresh_uuids (store o0)" "db_inv (store o0)" "rl_live (courtLimiter o0)"
    and "cb_state (propertyCB o0) = CBClosed" "cb_state (courtCB o0) = CBClosed" "cb_state (scraCB o0) = CBClosed"
    and "cases (store o0) = seeded_cases" "(i, overall, statuses) \<in> set expected_results"
    and "i \<notin> set (map run_CaseID (lookup_runs (store o0)))"
    and "\<And>ss. mset (sched ss) = mset ss" and "\<And>j. sent (ws j) = []" and "served_well m"
    and "\<forall>c \<in> set seeded_cases. c_ID c = i \<longrightarrow>
      (\<forall>source \<in> set source_names. \<forall>j. sees_mocks m c o0 source ((ws j)\<lparr>clock := now\<rparr>))"
  shows "\<exists>body c r d1 o1 t resp d2.
    LookupCase tz now i (store o0) = ((writeJSON 202 body, Some (c, r)), d1) \<and>
    runLookup sched ws now c r (o0\<lparr>store := d1\<rparr>) = RunDone o1 t \<and>
    GetLookupStatus tz i (store o1) = (writeJSON 200 (enc_statusResponse resp), d2) \<and>
    st_Status resp = overall \<and>
    map (\<lambda>source. map_option sr_Status (map_of (st_Sources resp) source)) source_names = map Some statuses"
proof -
  obtain c where c: "c \<in> set seeded_cases" "c_ID c = i" "find (\<lambda>c. c_ID c = i) (cases (store o0)) = Some c"
    "mock_overall m c now = overall" "map (\<lambda>source. fst (mock_outcome m c source 0 now)) source_names = statuses"
    using seeded_case [OF assms(13,9), of now] unfolding assms(8) by blast
  have "i \<noteq> []" using assms(9) by (auto simp: expected_results_def)
  moreover have "\<forall>source \<in> set source_names. \<forall>j. sees_mocks m c o0 source ((ws j)\<lparr>clock := now\<rparr>)"
    using assms(14) c(1,2) by blast
  ultimately obtain body r d1 o1 t resp d2 where e:
    "LookupCase tz now i (store o0) = ((writeJSON 202 body, Some (c, r)), d1)"
    "runLookup sched ws now c r (o0\<lparr>store := d1\<rparr>) = RunDone o1 t"
    "GetLookupStatus tz i (store o1) = (writeJSON 200 (enc_statusResponse resp), d2)"
    "st_Status resp = mock_overall m c now"
    "map (\<lambda>(source, x). (source, sr_Status x, sr_Data x)) (st_Sources resp) =
      map (\<lambda>source. (source, mock_outcome m c source 0 now)) [SourceCourtRecords, SourcePropertyRecords, SourceSCRA]"
    using enriched [where m = m and now = now and tz = tz and ws = ws, OF assms(1-7) c(3) _ assms(10-12)] by blast
  obtain a b s where src: "st_Sources resp = [(SourceCourtRecords, a), (SourcePropertyRecords, b), (SourceSCRA, s)]"
    "(sr_Status a, sr_Data a) = mock_outcome m c SourceCourtRecords 0 now"
    "(sr_Status b, sr_Data b) = mock_outcome m c SourcePropertyRecords 0 now"
    "(sr_Status s, sr_Data s) = mock_outcome m c SourceSCRA 0 now"
    using e(5) by (auto simp: map_eq_Cons_conv)
  from src(2-4) have "sr_Status a = fst (mock_outcome m c SourceCourtRecords 0 now)"
    "sr_Status b = fst (mock_outcome m c SourcePropertyRecords 0 now)"
    "sr_Status s = fst (mock_outcome m c SourceSCRA 0 now)" by (metis fst_conv)+
  have "map (\<lambda>source. map_option sr_Status (map_of (st_Sources resp) source)) source_names = map Some statuses"
    unfolding c(5) [symmetric] by (simp add: src(1) \<open>sr_Status a = _\<close> \<open>sr_Status b = _\<close> \<open>sr_Status s = _\<close> source_names_def)
  with e(1-4) c(4) show ?thesis by blast
qed

text \<open>The database after the start: the shipped cases, no run yet.\<close>

definition seeded_orc :: Orchestrator where
  "seeded_orc = sample_orc\<lparr>store := sample_db\<lparr>cases := seeded_cases\<rparr>\<rparr>"

lemma seeded_orc_ok:
  "healthy (store seeded_orc)" "fresh_uuids (store seeded_orc)" "db_inv (store seeded_orc)"
  "rl_live (courtLimiter seeded_orc)" "cases (store seeded_orc) = seeded_cases"
  "lookup_runs (store seeded_orc) = []"
  using seeded_distinct sample_db_ok
  by (simp_all add: seeded_orc_def sample_db_def healthy_def fresh_uuids_def db_inv_def)

theorem integration_all_cases_witness:
  "\<exists>body c r d1 o1 t resp d2.
    LookupCase 0 7 ''case-006'' (store seeded_orc) = ((writeJSON 202 body, Some (c, r)), d1) \<and>
    runLookup rev (\<lambda>_. mock_world (last seeded_cases)) 7 c r (seeded_orc\<lparr>store := d1\<rparr>) = RunDone o1 t \<and>
    GetLookupStatus 0 ''case-006'' (store o1) = (writeJSON 200 (enc_statusResponse resp), d2) \<and>
    st_Status resp = ''partial'' \<and>
    map (\<lambda>source. map_option sr_Status (map_of (st_Sources resp) source)) source_names =
      [Some ''failed'', Some ''success'', Some ''success'']"
proof -
  let ?c = "last seeded_cases"
  have b: "cb_state (propertyCB seeded_orc) = CBClosed" "cb_state (courtCB seeded_orc) = CBClosed"
    "cb_state (scraCB seeded_orc) = CBClosed"
    by (simp_all add: seeded_orc_def NewCircuitBreaker_def)
  have e: "(''case-006'', ''partial'', [''failed'', ''success'', ''success'']) \<in> set expected_results"
    by (simp add: expected_results_def)
  have r: "''case-006'' \<notin> set (map run_CaseID (lookup_runs (store seeded_orc)))" by (simp add: seeded_orc_ok)
  have m: "mset (rev ss) = mset ss" for ss :: "source_row list" by simp
  have n: "sent ((\<lambda>_. mock_world ?c) j) = []" for j by (simp add: mock_world_def scripted_world_def)
  have one: "\<forall>c \<in> set seeded_cases. c_ID c = ''case-006'' \<longrightarrow> c = ?c"
    by (simp add: seeded_cases_eq)
  have seg: "list_all plain_segment (c_State ?c # c_County ?c # split_slash (c_ParcelID ?c))"
    unfolding seeded_cases_eq by code_simp
  have sees: "sees_mocks (net_mocks ?c) ?c seeded_orc source ((mock_world ?c)\<lparr>clock := 7\<rparr>)" for source
    by (rule mock_world_sees [OF _ _ _ seg]) (simp_all add: seeded_cases_eq seeded_orc_def)
  have all: "\<forall>c \<in> set seeded_cases. c_ID c = ''case-006'' \<longrightarrow> (\<forall>source \<in> set source_names. \<forall>j.
      sees_mocks (net_mocks ?c) c seeded_orc source (((\<lambda>_. mock_world ?c) j)\<lparr>clock := 7\<rparr>))"
  proof (intro ballI impI allI)
    fix c source j
    assume "c \<in> set seeded_cases" "c_ID c = ''case-006''"
    with one have "c = ?c" by blast
    with sees show "sees_mocks (net_mocks ?c) c seeded_orc source (((\<lambda>_. mock_world ?c) j)\<lparr>clock := 7\<rparr>)" by metis
  qed
  from integration_all_cases [where tz = 0, OF seeded_orc_ok(1-4) b seeded_orc_ok(5) e r m n net_mocks_well all]
  show ?thesis by (simp only: list.map)
qed

end
