(* ===== verification/Settling.thy ===== *)
theory Settling
  imports Concurrency
begin

text \<open>
  What is left when all requests and lookups of an interleaving are done. On a healthy database
  no request leaves a run pending: whoever makes a run pending has a lookup of it started, and a
  lookup completes its run.
\<close>

section \<open>Programs that answer for the runs they make pending\<close>

definition sound :: "db \<Rightarrow> bool" where
  "sound d \<longleftrightarrow> healthy d \<and> db_inv d"

definition pending_run :: "string \<Rightarrow> db \<Rightarrow> bool" where
  "pending_run rid d \<longleftrightarrow> (\<exists>r \<in> set (lookup_runs d). run_ID r = rid \<and> run_Status r = StatusPending)"

text \<open>
  \<open>leads Q rid p\<close>: as long as the run stays pending after the statements of \<open>p\<close>, the program
  goes on towards a result with \<open>Q\<close>. With \<open>Q\<close> false it has to end the pending state itself.
\<close>

inductive leads :: "('a \<Rightarrow> bool) \<Rightarrow> string \<Rightarrow> 'a prog \<Rightarrow> bool" for Q rid where
  Return: "Q x \<Longrightarrow> leads Q rid (Return x)"
| Stmt: "(\<And>d. sound d \<Longrightarrow> pending_run rid (snd (g d)) \<Longrightarrow> leads Q rid (fst (g d))) \<Longrightarrow> leads Q rid (Stmt g)"

inductive_simps leads_Return [simp]: "leads Q rid (Return x)"
inductive_cases leads_StmtE: "leads Q rid (Stmt g)"

lemma leads_StmtD:
  "leads Q rid (Stmt g) \<Longrightarrow> sound d \<Longrightarrow> pending_run rid (snd (g d)) \<Longrightarrow> leads Q rid (fst (g d))"
  by (erule leads_StmtE) blast

lemma leads_call:
  "(\<And>d. sound d \<Longrightarrow> pending_run rid (snd (f d)) \<Longrightarrow> leads Q rid (k (fst (f d)))) \<Longrightarrow>
     leads Q rid (bind_prog (call f) k)"
  by (auto simp: call_def intro!: leads.Stmt)

text \<open>
  \<open>minds Q p\<close>: every statement of \<open>p\<close> keeps the database sound, and after one that makes a run
  pending the rest of the program leads to a result with \<open>Q\<close> for that run.
\<close>

inductive minds :: "(string \<Rightarrow> 'a \<Rightarrow> bool) \<Rightarrow> 'a prog \<Rightarrow> bool" for Q where
  Return: "minds Q (Return x)"
| Stmt: "(\<And>d. sound d \<Longrightarrow> sound (snd (g d))) \<Longrightarrow> (\<And>d. sound d \<Longrightarrow> minds Q (fst (g d))) \<Longrightarrow>
    (\<And>d rid. sound d \<Longrightarrow> pending_run rid (snd (g d)) \<Longrightarrow> pending_run rid d \<or> leads (Q rid) rid (fst (g d))) \<Longrightarrow>
    minds Q (Stmt g)"

inductive_simps minds_Return [simp]: "minds Q (Return x)"
inductive_cases minds_StmtE: "minds Q (Stmt g)"

lemma minds_StmtD:
  assumes "minds Q (Stmt g)" "sound d"
  shows "sound (snd (g d))" "minds Q (fst (g d))"
    "pending_run rid (snd (g d)) \<Longrightarrow> pending_run rid d \<or> leads (Q rid) rid (fst (g d))"
  using assms by (blast elim: minds_StmtE)+

lemma minds_call:
  assumes "\<And>d. sound d \<Longrightarrow> sound (snd (f d))" "\<And>d. sound d \<Longrightarrow> minds Q (k (fst (f d)))"
    and "\<And>d rid. sound d \<Longrightarrow> pending_run rid (snd (f d)) \<Longrightarrow>
      pending_run rid d \<or> leads (Q rid) rid (k (fst (f d)))"
  shows "minds Q (bind_prog (call f) k)"
  unfolding call_def bind_prog.simps
  by (rule minds.Stmt) (use assms in auto)

text \<open>The statements that make no run pending.\<close>

definition harmless :: "(db \<Rightarrow> 'a \<times> db) \<Rightarrow> bool" where
  "harmless f \<longleftrightarrow> (\<forall>d. sound d \<longrightarrow> sound (snd (f d)) \<and> (\<forall>rid. pending_run rid (snd (f d)) \<longrightarrow> pending_run rid d))"

lemma minds_harmless:
  "harmless f \<Longrightarrow> (\<And>d. sound d \<Longrightarrow> minds Q (k (fst (f d)))) \<Longrightarrow> minds Q (bind_prog (call f) k)"
  by (rule minds_call) (auto simp: harmless_def)

lemma pending_run_simps [simp]:
  "pending_run rid (next_stmt d) = pending_run rid d" "pending_run rid (update_source i g d) = pending_run rid d"
  by (simp_all add: pending_run_def)

lemma pending_run_same_tables: "same_tables d d' \<Longrightarrow> pending_run rid d' = pending_run rid d"
  by (simp add: same_tables_def pending_run_def)

lemma sound_same_tables:
  assumes "same_tables d d'"
  shows "sound d' = sound d"
proof -
  have "same_server d d'" using assms by (simp add: same_tables_def)
  then show ?thesis by (simp add: sound_def db_inv_same_tables [OF assms] healthy_same_server)
qed

lemma harmless_read:
  assumes "\<And>d. same_tables d (snd (f d))"
  shows "harmless f"
  unfolding harmless_def using pending_run_same_tables [OF assms] sound_same_tables [OF assms] by blast

lemma harmless_reads [simp]:
  "harmless (GetCaseByID i)" "harmless (GetLookupRunByCaseID i)" "harmless (GetSourcesByRunID i)"
  "harmless (GetRetryableSources i)"
  by (simp_all add: harmless_read)

lemma completed_not_pending:
  "st \<noteq> StatusPending \<Longrightarrow> \<not> pending_run i (update_run i (\<lambda>r. r\<lparr>run_Status := st, CompletedAt := t\<rparr>) d)"
  unfolding pending_run_def update_simps set_update_where bex_simps by (auto split: if_splits)

lemma pending_run_update:
  "pending_run rid (update_run i (\<lambda>r. r\<lparr>run_Status := st, CompletedAt := t\<rparr>) d) \<Longrightarrow>
     pending_run rid d \<or> rid = i \<and> st = StatusPending"
  unfolding pending_run_def update_simps set_update_where bex_simps by (auto split: if_splits)

lemma harmless_writes [simp]:
  "harmless (db_exec (update_source i reset_row))"
  "p_Status p \<in> source_statuses \<Longrightarrow> harmless (SetSourceResult t p)"
  "st \<in> run_statuses \<Longrightarrow> st \<noteq> StatusPending \<Longrightarrow> harmless (CompleteRun t i st)"
proof -
  show "harmless (db_exec (update_source i reset_row))"
    unfolding harmless_def
  proof (intro allI impI)
    fix d assume d: "sound d"
    then have e: "db_exec (update_source i reset_row) d = (None, update_source i reset_row (next_stmt d))"
      by (simp add: sound_def healthy_exec)
    have "db_inv (update_source i reset_row (next_stmt d))" using d by (intro db_inv_update_source) (simp_all add: sound_def)
    with d show "sound (snd (db_exec (update_source i reset_row) d)) \<and>
        (\<forall>rid. pending_run rid (snd (db_exec (update_source i reset_row) d)) \<longrightarrow> pending_run rid d)"
      unfolding e by (simp add: sound_def)
  qed
  show "harmless (SetSourceResult t p)" if st: "p_Status p \<in> source_statuses"
    unfolding harmless_def
  proof (intro allI impI)
    fix d assume d: "sound d"
    then have e: "SetSourceResult t p d = (None, update_source (p_SourceID p) (result_row t p) (next_stmt d))"
      by (simp add: sound_def healthy_writes)
    have "db_inv (snd (SetSourceResult t p d))" using d st by (simp add: sound_def SetSourceResult_inv)
    with d show "sound (snd (SetSourceResult t p d)) \<and>
        (\<forall>rid. pending_run rid (snd (SetSourceResult t p d)) \<longrightarrow> pending_run rid d)"
      unfolding e by (simp add: sound_def)
  qed
  show "harmless (CompleteRun t i st)" if st: "st \<in> run_statuses" "st \<noteq> StatusPending"
    unfolding harmless_def
  proof (intro allI impI)
    fix d assume d: "sound d"
    then have e: "CompleteRun t i st d =
        (None, update_run i (\<lambda>r. r\<lparr>run_Status := st, CompletedAt := Some t\<rparr>) (next_stmt d))"
      by (simp add: sound_def healthy_writes)
    have "db_inv (snd (CompleteRun t i st d))" using d st(1) by (simp add: sound_def CompleteRun_inv)
    with d st(2) show "sound (snd (CompleteRun t i st d)) \<and>
        (\<forall>rid. pending_run rid (snd (CompleteRun t i st d)) \<longrightarrow> pending_run rid d)"
      unfolding e by (auto simp: sound_def dest: pending_run_update)
  qed
qed

lemma reset_run_pending:
  assumes "sound d"
  shows "fst (ResetRunToPending i d) = None" "sound (snd (ResetRunToPending i d))"
    and "pending_run rid (snd (ResetRunToPending i d)) \<Longrightarrow> pending_run rid d \<or> rid = i"
proof -
  have e: "ResetRunToPending i d = (None, update_run i (\<lambda>r. r\<lparr>run_Status := ''pending'', CompletedAt := None\<rparr>) (next_stmt d))"
    using assms by (simp add: sound_def healthy_writes)
  show "fst (ResetRunToPending i d) = None" by (simp add: e)
  have "db_inv (snd (ResetRunToPending i d))" using assms by (simp add: sound_def ResetRunToPending_inv)
  with assms show "sound (snd (ResetRunToPending i d))" unfolding e by (simp add: sound_def)
  show "pending_run rid (snd (ResetRunToPending i d)) \<Longrightarrow> pending_run rid d \<or> rid = i"
    unfolding e by (auto dest: pending_run_update)
qed

section \<open>The programs of the gateway\<close>

definition starts_run :: "string \<Rightarrow> goerr + trigger_out \<Rightarrow> bool" where
  "starts_run rid out =
     (case out of
        Inl e \<Rightarrow> False
      | Inr (res, code, l) \<Rightarrow> (case l of None \<Rightarrow> False | Some (c, r) \<Rightarrow> run_ID r = rid))"

lemma starts_run_simps [simp]:
  "\<not> starts_run rid (Inl e)" "\<not> starts_run rid (Inr (res, code, None))"
  "starts_run rid (Inr (res, code, Some (c, r))) \<longleftrightarrow> run_ID r = rid"
  by (simp_all add: starts_run_def)

text \<open>On a healthy database a run appears only together with the answer that names it.\<close>

lemma create_pending:
  assumes "sound d"
  shows "sound (snd (CreateLookupRun now c d))"
    and "pending_run rid (snd (CreateLookupRun now c d)) \<Longrightarrow>
      pending_run rid d \<or> (\<exists>r ss. fst (CreateLookupRun now c d) = Inr (r, ss) \<and> run_ID r = rid)"
proof -
  let ?x = "CreateLookupRun now c d"
  have dist: "distinct (map src_ID (lookup_sources d))" and h: "healthy d"
    using assms by (simp_all add: sound_def db_inv_def)
  have srv: "same_server d (snd ?x)"
    using CreateLookupRun_cases [OF dist, of now c] by (auto simp: same_tables_def run_created_def)
  show "sound (snd ?x)"
    using assms CreateLookupRun_inv healthy_same_server [OF srv] by (simp add: sound_def)
  assume p: "pending_run rid (snd ?x)"
  obtain x d1 where x: "insert_run now c (next_stmt d) = (x, d1)" by fastforce
  show "pending_run rid d \<or> (\<exists>r ss. fst ?x = Inr (r, ss) \<and> run_ID r = rid)"
  proof (cases x)
    case (Inl e)
    with p x h show ?thesis by (simp add: CreateLookupRun_def healthy_exec rollback_def pending_run_def)
  next
    case (Inr r)
    obtain y d2 where y: "insert_sources (run_ID r) [SourcePropertyRecords, SourceCourtRecords, SourceSCRA] d1 = (y, d2)"
      by fastforce
    have d2: "lookup_runs d2 = lookup_runs d @ [r]" "same_server d1 d2"
      using insert_run_Inr [OF x [unfolded Inr]] insert_sources_frame [of d1 "run_ID r" "[SourcePropertyRecords, SourceCourtRecords, SourceSCRA]"] y
      by simp_all
    have "same_server (next_stmt d) d1" using insert_run_frame(1) [of "next_stmt d" now c] x by simp
    with d2(2) h have "healthy d2"
      using healthy_same_server [of d1 d2] healthy_same_server [of "next_stmt d" d1] by simp
    then have "exec_fate d2 (nstmts d2) = ExecOk" by (simp add: healthy_def)
    with p x y Inr h d2(1) show ?thesis
      by (cases y) (auto simp: CreateLookupRun_def healthy_exec rollback_def pending_run_def)
  qed
qed

lemma start_prog_minds: "minds starts_run (start_prog now i c)"
  unfolding start_prog_def
proof (rule minds_call)
  fix d rid assume d: "sound d"
  show "sound (snd (CreateLookupRun now i d))" by (rule create_pending(1) [OF d])
  assume "pending_run rid (snd (CreateLookupRun now i d))"
  from create_pending(2) [OF d this]
  show "pending_run rid d \<or> leads (starts_run rid) rid (Return (case fst (CreateLookupRun now i d) of
      Inl err \<Rightarrow> Inl (wrap_ctx ''create lookup run'' err)
    | Inr (run, sources) \<Rightarrow> Inr (\<lparr>lr_Case = c, lr_Run = Some run, lr_Sources = sources\<rparr>, 202, Some (c, run))))"
    by auto
qed simp

lemma reset_prog_minds: "(\<And>x. minds Q (k x)) \<Longrightarrow> minds Q (bind_prog (reset_prog is) k)"
proof (induction "is")
  case (Cons j "is")
  show ?case
    unfolding reset_prog.simps bind_assoc
    by (rule minds_harmless) (use Cons in \<open>auto split: option.splits\<close>)
qed simp

lemma retrigger_prog_minds: "minds starts_run (retrigger_prog now c r ss)"
proof -
  have leave: "minds starts_run (bind_prog (call (GetSourcesByRunID (run_ID run1))) (\<lambda>res.
      let sources1 = (case res of Inl _ \<Rightarrow> [] | Inr ss \<Rightarrow> ss) in
      Return (Inr (\<lparr>lr_Case = c, lr_Run = Some run1, lr_Sources = sources1\<rparr>, 202, Some (c, run1)))))" for run1
    by (rule minds_harmless) (simp_all add: Let_def)
  have pend: "minds starts_run (bind_prog (call (ResetRunToPending (run_ID r))) (\<lambda>x.
      case x of
        Some err \<Rightarrow> Return (Inl (wrap_ctx ''reset run'' err))
      | None \<Rightarrow>
          (let run1 = r\<lparr>run_Status := StatusPending\<rparr> in
           bind_prog (call (GetSourcesByRunID (run_ID run1))) (\<lambda>res.
             let sources1 = (case res of Inl _ \<Rightarrow> [] | Inr ss \<Rightarrow> ss) in
             Return (Inr (\<lparr>lr_Case = c, lr_Run = Some run1, lr_Sources = sources1\<rparr>, 202, Some (c, run1)))))))"
    (is "minds _ (bind_prog _ ?k)")
  proof (rule minds_call)
    fix d rid assume d: "sound d"
    note r = reset_run_pending [OF d, where i = "run_ID r"]
    show "sound (snd (ResetRunToPending (run_ID r) d))" by (rule r(2))
    show "minds starts_run (?k (fst (ResetRunToPending (run_ID r) d)))"
      using leave [of "r\<lparr>run_Status := StatusPending\<rparr>"] by (simp add: r(1) Let_def)
    assume "pending_run rid (snd (ResetRunToPending (run_ID r) d))"
    from r(3) [OF this] show "pending_run rid d \<or> leads (starts_run rid) rid (?k (fst (ResetRunToPending (run_ID r) d)))"
      unfolding r(1) Let_def option.case by (auto intro!: leads_call)
  qed
  show ?thesis
    unfolding retrigger_prog_def
    by (rule minds_harmless, simp, split sum.split, split if_split, intro conjI allI impI)
      (simp, rule minds_harmless, simp, simp, rule reset_prog_minds, split option.split, intro conjI allI impI, rule pend, simp)
qed

lemma Trigger_prog_minds: "minds starts_run (Trigger_prog now i)"
  unfolding Trigger_prog_def
  by (rule minds_harmless, simp)
    (auto intro!: minds_harmless start_prog_minds retrigger_prog_minds split: sum.splits option.splits)

section \<open>Lookups end the pending state\<close>

lemma sound_reads: "sound d \<Longrightarrow> fst (GetSourcesByRunID i d) = Inr (sort_key src_Source (sources_of i d))"
  by (simp add: sound_def healthy_reads)

lemma leads_write_prog: "(\<And>x. leads Q rid (k x)) \<Longrightarrow> leads Q rid (bind_prog (write_prog qs) k)"
  by (induction qs) (auto simp: bind_assoc intro!: leads_call)

lemma minds_write_prog:
  "\<forall>q \<in> set qs. p_Status (snd q) \<in> source_statuses \<Longrightarrow> (\<And>x. minds Q (k x)) \<Longrightarrow>
     minds Q (bind_prog (write_prog qs) k)"
  by (induction qs) (auto simp: bind_assoc intro!: minds_harmless)

lemma overall_not_pending: "computeOverallStatus ss \<noteq> StatusPending"
  by (simp add: computeOverallStatus_eq)

lemma complete_not_pending:
  "sound d \<Longrightarrow> st \<noteq> StatusPending \<Longrightarrow> \<not> pending_run i (snd (CompleteRun t i st d))"
  by (simp add: sound_def healthy_writes completed_not_pending)

lemma Lookup_prog_leads: "leads Q (run_ID run) (Lookup_prog sched results t run)"
  unfolding Lookup_prog_def Let_def
  by (intro leads_call)
    (auto simp: sound_reads complete_not_pending [OF _ overall_not_pending]
      intro!: leads_write_prog leads_call)

lemma Lookup_prog_minds:
  assumes "valid_results results"
  shows "minds (\<lambda>_ _. False) (Lookup_prog sched results t run)"
proof -
  have st: "\<forall>q \<in> set (results ss). p_Status (snd q) \<in> source_statuses" for ss
    using assms outcomes_ok by (auto simp: valid_results_def source_statuses_def)
  show ?thesis
    unfolding Lookup_prog_def Let_def
    by (rule minds_harmless)
      (auto simp: sound_reads computeOverallStatus_run_statuses overall_not_pending
        intro!: minds_write_prog [OF st] minds_harmless)
qed

section \<open>Every interleaving\<close>

primrec thread_minds :: "thread \<Rightarrow> bool" where
  "thread_minds (Trigger i p) = minds starts_run p"
| "thread_minds (Answered i out) = True"
| "thread_minds (Lookup i p) = minds (\<lambda>_ _. False) p"

primrec thread_leads :: "string \<Rightarrow> thread \<Rightarrow> bool" where
  "thread_leads rid (Trigger i p) = leads (starts_run rid) rid p"
| "thread_leads rid (Answered i out) = False"
| "thread_leads rid (Lookup i p) = leads (\<lambda>_. False) rid p"

lemma thread_leads_unfinished: "thread_leads rid t \<Longrightarrow> \<not> finished t"
  by (cases t) (auto split: prog.splits)

text \<open>\<open>answered_for d0\<close>: every run pending now was pending at the start, or a thread leads on.\<close>

definition answered_for :: "db \<Rightarrow> gateway \<Rightarrow> bool" where
  "answered_for d0 s \<longleftrightarrow> sound (snd s) \<and> (\<forall>t \<in> set (fst s). thread_minds t) \<and>
     (\<forall>rid. pending_run rid (snd s) \<longrightarrow> pending_run rid d0 \<or> (\<exists>t \<in> set (fst s). thread_leads rid t))"

lemma answered_forD:
  "answered_for d0 (ts, d) \<Longrightarrow> k < length ts \<Longrightarrow> sound d \<and> thread_minds (ts ! k)"
  by (simp add: answered_for_def)

lemma update_members:
  "k < length ts \<Longrightarrow> t \<in> set ts \<Longrightarrow> t \<noteq> ts ! k \<Longrightarrow> t \<in> set (ts[k := t'])"
  by (metis in_set_conv_nth length_list_update nth_list_update_neq)

lemma answered_for_statement:
  assumes "answered_for d0 (ts, d)" "k < length ts" "sound d'" "thread_minds t"
    and "\<And>rid. pending_run rid d' \<Longrightarrow> pending_run rid d \<and> \<not> thread_leads rid (ts ! k) \<or> thread_leads rid t"
  shows "answered_for d0 (ts[k := t], d')"
proof -
  have "pending_run rid d0 \<or> (\<exists>t' \<in> set (ts[k := t]). thread_leads rid t')" if p: "pending_run rid d'" for rid
  proof (cases "thread_leads rid t")
    case True
    with assms(2) show ?thesis by (auto intro!: bexI [OF _ set_update_memI])
  next
    case False
    with assms(5) [OF p] have "pending_run rid d" "\<not> thread_leads rid (ts ! k)" by auto
    with assms(1) consider "pending_run rid d0" | t' where "t' \<in> set ts" "thread_leads rid t'" "t' \<noteq> ts ! k"
      unfolding answered_for_def by auto
    then show ?thesis by cases (use update_members [OF assms(2)] in blast)+
  qed
  with assms(1,3,4) show ?thesis
    using set_update_subset_insert [of ts k t] unfolding answered_for_def fst_conv snd_conv by blast
qed

lemma answered_for_prog:
  assumes "answered_for d0 (ts, d)" "k < length ts" "minds Q (Stmt g)" "thread_minds t"
    and "\<And>rid. thread_leads rid (ts ! k) \<longleftrightarrow> leads (Q rid) rid (Stmt g)"
    and "\<And>rid. thread_leads rid t \<longleftrightarrow> leads (Q rid) rid (fst (g d))"
  shows "answered_for d0 (ts[k := t], snd (g d))"
proof -
  have d: "sound d" using answered_forD [OF assms(1,2)] by blast
  note m = minds_StmtD [OF assms(3) d]
  show ?thesis
  proof (rule answered_for_statement [OF assms(1,2) m(1) assms(4)])
    show "pending_run rid d \<and> \<not> thread_leads rid (ts ! k) \<or> thread_leads rid t"
      if "pending_run rid (snd (g d))" for rid
      using m(3) [OF that] leads_StmtD [where g = g and d = d, OF _ d that] unfolding assms(5,6) by blast
  qed
qed

lemma answered_for_answer:
  assumes "answered_for d0 (ts, d)" "k < length ts" "ts ! k = Trigger i (Return out)" "lookup_threads i new out"
  shows "answered_for d0 (ts[k := Answered i out] @ new, d)"
proof -
  let ?ts = "ts[k := Answered i out] @ new"
  have starts: "\<exists>t \<in> set new. thread_leads rid t" if "starts_run rid out" for rid
    using that assms(4) Lookup_prog_leads by (cases out) (auto split: option.splits)
  have "\<forall>t \<in> set new. thread_minds t"
    using assms(4) Lookup_prog_minds by (cases out) (auto split: option.splits)
  then have "\<forall>t \<in> set ?ts. thread_minds t"
    using assms(1) set_update_subset_insert [of ts k "Answered i out"] by (auto simp: answered_for_def)
  moreover have "pending_run rid d0 \<or> (\<exists>t' \<in> set ?ts. thread_leads rid t')" if "pending_run rid d" for rid
  proof (cases "starts_run rid out")
    case True
    with starts show ?thesis by auto
  next
    case False
    then have "\<not> thread_leads rid (ts ! k)" using assms(3) by simp
    with that assms(1) consider "pending_run rid d0" | t' where "t' \<in> set ts" "t' \<noteq> ts ! k" "thread_leads rid t'"
      unfolding answered_for_def fst_conv snd_conv by blast
    then show ?thesis by cases (use update_members [OF assms(2)] in auto)
  qed
  ultimately show ?thesis using assms(1) by (simp add: answered_for_def)
qed

lemma answered_for_step:
  assumes "gw_step l (ts, d) (ts', d')" "answered_for d0 (ts, d)"
  shows "answered_for d0 (ts', d')"
  using assms(1)
proof (cases rule: gw_step_cases [consumes 1, case_names request statement answer lookup])
  case (request i now)
  with assms(2) Trigger_prog_minds show ?thesis by (auto simp: answered_for_def)
next
  case (statement k i g p)
  have d: "sound d" and m: "minds starts_run (Stmt g)" using answered_forD [OF assms(2), of k] statement by auto
  have e: "d' = snd (g d)" "ts' = ts[k := Trigger i (fst (g d))]" "k < length ts" "ts ! k = Trigger i (Stmt g)"
    using statement by auto
  show ?thesis
    unfolding e(1,2)
    by (rule answered_for_prog [OF assms(2) e(3) m]) (use minds_StmtD(2) [OF m d] in \<open>simp_all add: e(4)\<close>)
next
  case (answer k i out new)
  with answered_for_answer [OF assms(2)] show ?thesis by simp
next
  case (lookup k i g p)
  have d: "sound d" and m: "minds (\<lambda>_ _. False) (Stmt g)" using answered_forD [OF assms(2), of k] lookup by auto
  have e: "d' = snd (g d)" "ts' = ts[k := Lookup i (fst (g d))]" "k < length ts" "ts ! k = Lookup i (Stmt g)"
    using lookup by auto
  show ?thesis
    unfolding e(1,2)
    by (rule answered_for_prog [OF assms(2) e(3) m]) (use minds_StmtD(2) [OF m d] in \<open>simp_all add: e(4)\<close>)
qed

lemma answered_for_path: "gw_path ls s s' \<Longrightarrow> answered_for d0 s \<Longrightarrow> answered_for d0 s'"
proof (induction rule: gw_path.induct)
  case (more ls s s' l s'')
  then show ?case using answered_for_step by (cases s', cases s'') auto
qed

text \<open>Every interleaving can be continued until all its threads are done.\<close>

lemma can_finish:
  assumes "gw_path ls ([], d0) (ts, d)" "db_inv d0"
  shows "\<exists>ls' ts' d'. gw_path (ls @ ls') ([], d0) (ts', d') \<and> Request \<notin> set ls' \<and> (\<forall>t \<in> set ts'. finished t)"
  using assms
proof (induction "16 * count_list ls Request - length (filter (\<lambda>l. l \<noteq> Request) ls)" arbitrary: ls ts d rule: less_induct)
  case less
  show ?case
  proof (cases "\<forall>t \<in> set ts. finished t")
    case True
    with less.prems show ?thesis by (intro exI [of _ "[]"] exI [of _ ts] exI [of _ d]) simp
  next
    case False
    from kept.gw_path_steps [OF less.prems(1), of "{}" "[]"] less.prems(2) obtain l s where
      s: "l \<noteq> Request" "gw_step l (ts, d) s" using False unfinished_step [of _ ts d] by blast
    obtain ts1 d1 where s1: "s = (ts1, d1)" by fastforce
    have p: "gw_path (ls @ [l]) ([], d0) (ts1, d1)" using gw_path.more [OF less.prems(1) s(2)] s1 by simp
    from kept.gw_path_steps [OF p, of "{}" "[]"] less.prems(2)
    have "length (filter (\<lambda>l. l \<noteq> Request) (ls @ [l])) \<le> 16 * count_list (ls @ [l]) Request" by auto
    with s(1) have "16 * count_list (ls @ [l]) Request - length (filter (\<lambda>l. l \<noteq> Request) (ls @ [l])) <
        16 * count_list ls Request - length (filter (\<lambda>l. l \<noteq> Request) ls)" by simp
    from less.hyps [OF this p less.prems(2)] s(1) show ?thesis
      by (elim exE conjE) (rule exI [of _ "l # _"], auto)
  qed
qed

section \<open>Properties\<close>

text \<open>
  Claim C14. Pending runs settle. On a healthy database, however requests and lookups interleave,
  a run that is pending was pending at the start or some request or lookup is still to go on;
  when all of them are done (which at most 16 steps per request bring about, under any
  scheduler), no run is pending that was not pending before the first request.
\<close>

theorem pending_runs_settle:
  assumes "gw_path ls ([], d0) (ts, d)" and "healthy d0" and "db_inv d0"
    and "r \<in> set (lookup_runs d)" and "run_Status r = StatusPending"
  shows "(\<exists>r0 \<in> set (lookup_runs d0). run_ID r0 = run_ID r \<and> run_Status r0 = StatusPending) \<or>
    (\<exists>t \<in> set ts. \<not> finished t)"
proof -
  have "answered_for d0 ([], d0)" using assms(2,3) by (simp add: answered_for_def sound_def)
  from answered_for_path [OF assms(1) this] have "answered_for d0 (ts, d)" .
  moreover have "pending_run (run_ID r) d" using assms(4,5) by (auto simp: pending_run_def)
  ultimately show ?thesis
    using thread_leads_unfinished unfolding answered_for_def pending_run_def snd_conv fst_conv by blast
qed

theorem pending_runs_settle_witness:
  "\<exists>ls ts d. gw_path ([Request, Request, Statement 0, Statement 1] @ ls) ([], sample_db) (ts, d) \<and>
     (\<forall>t \<in> set ts. finished t) \<and> (\<forall>r \<in> set (lookup_runs d). run_Status r \<noteq> StatusPending)"
proof -
  obtain ts d where "gw_path [Request, Request, Statement 0, Statement 1] ([], sample_db) (ts, d)"
    using sample_path by blast
  from can_finish [OF this sample_db_ok(1)] obtain ls ts' d' where
    p: "gw_path ([Request, Request, Statement 0, Statement 1] @ ls) ([], sample_db) (ts', d')"
      "\<forall>t \<in> set ts'. finished t" by blast
  have "healthy sample_db" "lookup_runs sample_db = []" by (simp_all add: sample_db_def healthy_def)
  with pending_runs_settle [OF p(1) _ sample_db_ok(1)] p show ?thesis by fastforce
qed

end
