(* ===== verification/Retriggers.thy ===== *)
theory Retriggers
  imports Concurrency
begin

text \<open>
  What two triggers that start a failed run again at the same time can do to it: the statements
  of both and of their lookups, in one order the gateway allows.
\<close>

section \<open>Threads that run alone for a while\<close>

lemma lookup_step:
  assumes "k < length ts" "ts ! k = Lookup i (bind_prog (call f) h)"
  shows "gw_step (LookupStatement k) (ts, d) (ts[k := Lookup i (h (fst (f d)))], snd (f d))"
  by (rule gw_step.lookup [OF assms(1), where g = "map_prod (\<lambda>p. bind_prog p h) id \<circ> (map_prod Return id \<circ> f)"])
    (simp_all add: assms(2) call_def prod_eq_iff)

lemma lookup_alone:
  assumes "k < length ts" "ts ! k = Lookup i (bind_prog p f)"
  shows "\<exists>ls. gw_path ls (ts, d) (ts[k := Lookup i (f (fst (run_prog p d)))], snd (run_prog p d))"
  using assms
proof (induction p arbitrary: d ts)
  case (Return y)
  then have "ts[k := Lookup i (f y)] = ts" by (metis bind_prog.simps(1) list_update_id)
  then show ?case using gw_path.start by (auto intro!: exI [of _ "[]"])
next
  case (Stmt g)
  let ?ts = "ts[k := Lookup i (bind_prog (fst (g d)) f)]"
  have step: "gw_step (LookupStatement k) (ts, d) (?ts, snd (g d))"
    by (rule gw_step.lookup [OF Stmt.prems(1), where g = "map_prod (\<lambda>p. bind_prog p f) id \<circ> g"])
      (simp_all add: Stmt.prems(2) prod_eq_iff)
  have "\<exists>ls. gw_path ls (?ts, snd (g d))
      (?ts[k := Lookup i (f (fst (run_prog (fst (g d)) (snd (g d)))))], snd (run_prog (fst (g d)) (snd (g d))))"
    by (rule Stmt.IH [OF rangeI, of _ d]) (simp_all add: fsts.simps prod_eq_iff Stmt.prems(1))
  then obtain ls where "gw_path ls (?ts, snd (g d))
      (?ts[k := Lookup i (f (fst (run_prog (fst (g d)) (snd (g d)))))], snd (run_prog (fst (g d)) (snd (g d))))" ..
  from gw_path_Cons [OF step this] show ?case by (auto simp: split_beta)
qed

text \<open>A lookup all of whose sources get the same result.\<close>

definition same_result :: "string \<Rightarrow> source_row \<Rightarrow> time \<times> SetSourceResultParams" where
  "same_result st s = (0, \<lparr>p_SourceID = src_ID s, p_Status = st, p_Attempts = 1,
     p_Data = None, p_ErrorMsg = None, p_Reason = None, p_SearchID = None\<rparr>)"

lemma same_result_simps [simp]:
  "p_SourceID (snd (same_result st s)) = src_ID s" "p_Status (snd (same_result st s)) = st"
  by (simp_all add: same_result_def)

lemma valid_same_results: "st \<in> outcomes \<Longrightarrow> valid_results (map (same_result st))"
  by (auto simp: valid_results_def)

text \<open>The status of a source of a run.\<close>

definition source_is :: "string \<Rightarrow> string \<Rightarrow> string \<Rightarrow> db \<Rightarrow> bool" where
  "source_is rid sid st d \<longleftrightarrow> (\<exists>s \<in> set (lookup_sources d). src_RunID s = rid \<and> src_ID s = sid \<and> src_Status s = st)"

lemma write_same_results:
  assumes "distinct (map src_ID rows)" "set ss \<subseteq> set rows" "distinct (map src_ID ss)"
  shows "fold write_result (map (same_result st) ss) rows =
    map (\<lambda>s. if s \<in> set ss then result_row 0 (snd (same_result st s)) s else s) rows"
proof -
  have "(case find (\<lambda>q. p_SourceID (snd q) = src_ID s) (map (same_result st) ss) of
      None \<Rightarrow> s | Some q \<Rightarrow> result_row (fst q) (snd q) s) =
    (if s \<in> set ss then result_row 0 (snd (same_result st s)) s else s)" if "s \<in> set rows" for s
  proof (cases "find (\<lambda>q. p_SourceID (snd q) = src_ID s) (map (same_result st) ss)")
    case None
    then have "s \<notin> set ss" by (auto simp: find_None_iff)
    with None show ?thesis by simp
  next
    case (Some q)
    from find_SomeD [OF this] obtain s' where "s' \<in> set ss" "src_ID s' = src_ID s" "q = same_result st s'" by auto
    moreover from this(1,2) that assms(1,2) have "s' = s" by (auto simp: distinct_map dest: inj_onD)
    ultimately show ?thesis using Some by (simp add: same_result_def)
  qed
  moreover have "distinct (map (\<lambda>q. p_SourceID (snd q)) (map (same_result st) ss))"
    using assms(3) by (simp add: comp_def)
  ultimately show ?thesis by (simp add: fold_write_result cong: map_cong)
qed

lemma writes_frame:
  "healthy d \<Longrightarrow> same_server d (fold (\<lambda>q d. snd (SetSourceResult (fst q) (snd q) d)) qs d) \<and>
     lookup_runs (fold (\<lambda>q d. snd (SetSourceResult (fst q) (snd q) d)) qs d) = lookup_runs d"
proof (induction qs arbitrary: d)
  case (Cons q qs)
  let ?d = "snd (SetSourceResult (fst q) (snd q) d)"
  have d: "same_server d ?d" "lookup_runs ?d = lookup_runs d"
    using Cons.prems by (simp_all add: healthy_writes same_server_def)
  with Cons.prems healthy_same_server have "healthy ?d" by blast
  from same_server_trans [OF d(1)] Cons.IH [OF this] d(2) show ?case by simp
qed (simp add: same_server_def)

text \<open>
  A lookup up to its last statement: its sources have the result, and it has read the table for
  the status of the run.
\<close>

lemma lookup_but_completion:
  assumes "healthy d" "distinct (map src_ID (lookup_sources d))" "k < length ts"
    and "ts ! k = Lookup i (Lookup_prog (\<lambda>x. x) (map (same_result st)) t run)"
  shows "\<exists>ls d'. gw_path ls (ts, d) (ts[k := Lookup i (bind_prog (call (CompleteRun t (run_ID run)
      (computeOverallStatus (sort_key src_Source (sources_of (run_ID run) d'))))) (\<lambda>_. Return ()))], d') \<and>
    same_server d d' \<and> lookup_runs d' = lookup_runs d \<and> lookup_sources d' =
      map (\<lambda>s. if src_RunID s = run_ID run \<and> unresolved s then result_row 0 (snd (same_result st s)) s else s)
        (lookup_sources d)"
proof -
  let ?id = "run_ID run" and ?d1 = "next_stmt d"
  let ?ss = "filter unresolved (sort_key src_Source (sources_of ?id d))"
  let ?d2 = "fold (\<lambda>q d. snd (SetSourceResult (fst q) (snd q) d)) (map (same_result st) ?ss) ?d1"
  let ?fin = "\<lambda>d'. bind_prog (call (CompleteRun t ?id
      (computeOverallStatus (sort_key src_Source (sources_of ?id d'))))) (\<lambda>_. Return ())"
  have "same_server ?d1 ?d2" "lookup_runs ?d2 = lookup_runs d"
    using writes_frame [of ?d1 "map (same_result st) ?ss"] assms(1) by simp_all
  then have frame: "same_server d (next_stmt ?d2)" "lookup_runs (next_stmt ?d2) = lookup_runs d" and h: "healthy ?d2"
    using assms(1) healthy_same_server [of ?d1 ?d2] by (simp_all add: same_server_def)
  have set_ss: "set ?ss = {s \<in> set (lookup_sources d). src_RunID s = ?id \<and> unresolved s}"
    by (auto simp: sources_of_def)
  have dist: "distinct (map src_ID ?ss)"
    using assms(2) unfolding sources_of_def by (auto simp: distinct_map intro: inj_on_subset)
  have rows: "lookup_sources ?d2 =
      map (\<lambda>s. if src_RunID s = ?id \<and> unresolved s then result_row 0 (snd (same_result st s)) s else s) (lookup_sources d)"
    unfolding SetSourceResult_rows [OF healthy_next_stmt [THEN iffD2, OF assms(1)]]
    using write_same_results [OF assms(2) _ dist] set_ss by (auto intro!: map_cong)
  let ?qs = "map (same_result st) ?ss"
  let ?H = "\<lambda>res. let sources1 = (case res of Inl _ \<Rightarrow> [] | Inr ss \<Rightarrow> ss) in
    bind_prog (call (CompleteRun t ?id (computeOverallStatus sources1))) (\<lambda>_. Return ())"
  let ?K = "\<lambda>_::unit. bind_prog (call (GetSourcesByRunID ?id)) ?H"
  let ?ts1 = "ts[k := Lookup i (bind_prog (write_prog ?qs) ?K)]" and ?ts2 = "ts[k := Lookup i (?K ())]"
  have s1: "gw_step (LookupStatement k) (ts, d) (?ts1, ?d1)"
    using lookup_step [OF assms(3) assms(4) [unfolded Lookup_prog_def], of d] assms(1) by (simp add: healthy_reads)
  obtain l2 where s2: "gw_path l2 (?ts1, ?d1) (?ts2, ?d2)"
    using lookup_alone [of k ?ts1 i "write_prog ?qs" ?K ?d1] assms(3) by (auto simp: run_write_prog)
  have s3: "gw_step (LookupStatement k) (?ts2, ?d2) (ts[k := Lookup i (?fin (next_stmt ?d2))], next_stmt ?d2)"
    using lookup_step [of k ?ts2 i "GetSourcesByRunID ?id" ?H ?d2] assms(3) h by (simp add: healthy_reads)
  from gw_path_Cons [OF s1 gw_path.more [OF s2 s3]] frame rows show ?thesis
    by (intro exI [of _ "LookupStatement k # l2 @ [LookupStatement k]"] exI [of _ "next_stmt ?d2"] conjI) simp_all
qed

section \<open>A retrigger whose list is out of date\<close>

text \<open>
  A retrigger that has read which sources to look up again resets these, whatever has become of
  them and of the run in the meantime, and starts a lookup.
\<close>

lemma retrigger_after_read:
  assumes "healthy d" "k < length ts" "ts ! k = Trigger i (retrigger_prog now c r ss)"
    and "s0 \<in> set (sources_of (run_ID r) d)" "src_Status s0 \<in> {''pending'', ''failed''}"
  shows "\<exists>p. gw_step (Statement k) (ts, d) (ts[k := Trigger i p], next_stmt d) \<and>
    (\<forall>d1. healthy d1 \<longrightarrow> (\<exists>out ids d2. run_prog p d1 = (out, d2) \<and> same_server d1 d2 \<and>
       (\<exists>res. out = Inr (res, 202, Some (c, r\<lparr>run_Status := StatusPending\<rparr>))) \<and> src_ID s0 \<in> ids \<and>
       lookup_sources d2 = map (\<lambda>s. if src_ID s \<in> ids then reset_row s else s) (lookup_sources d1)))"
proof -
  let ?rs = "sort_key src_Source (filter (\<lambda>s. src_Status s \<in> {''pending'', ''failed''}) (sources_of (run_ID r) d))"
  have mem: "s0 \<in> set ?rs" using assms(4,5) by simp
  then have ne: "?rs \<noteq> []" by (metis empty_iff list.set(1))
  obtain p where p: "gw_step (Statement k) (ts, d) (ts[k := Trigger i p], next_stmt d)"
    "\<And>d1. run_prog p d1 = (case ResetSourcesToPending (map src_ID ?rs) d1 of
        (Some err, d2) \<Rightarrow> (Inl (wrap_ctx ''reset sources'' err), d2)
      | (None, d2) \<Rightarrow> (case ResetRunToPending (run_ID r) d2 of
          (Some err, d3) \<Rightarrow> (Inl (wrap_ctx ''reset run'' err), d3)
        | (None, d3) \<Rightarrow> (case GetSourcesByRunID (run_ID r) d3 of
            (res, d4) \<Rightarrow> (Inr (\<lparr>lr_Case = c, lr_Run = Some (r\<lparr>run_Status := StatusPending\<rparr>),
              lr_Sources = (case res of Inl _ \<Rightarrow> [] | Inr ss \<Rightarrow> ss)\<rparr>, 202, Some (c, r\<lparr>run_Status := StatusPending\<rparr>)), d4))))"
    using call_step [OF assms(2,3) [unfolded retrigger_prog_def], of d] assms(1) ne
    by (intro that) (auto simp: healthy_reads Let_def split: prod.splits option.splits)
  have "\<exists>out ids d2. run_prog p d1 = (out, d2) \<and> same_server d1 d2 \<and>
      (\<exists>res. out = Inr (res, 202, Some (c, r\<lparr>run_Status := StatusPending\<rparr>))) \<and> src_ID s0 \<in> ids \<and>
      lookup_sources d2 = map (\<lambda>s. if src_ID s \<in> ids then reset_row s else s) (lookup_sources d1)"
    if h: "healthy d1" for d1
  proof -
    obtain d2 where d2: "ResetSourcesToPending (map src_ID ?rs) d1 = (None, d2)" "same_server d1 d2"
      "lookup_sources d2 = map (\<lambda>s. if src_ID s \<in> set (map src_ID ?rs) then reset_row s else s) (lookup_sources d1)"
      using ResetSourcesToPending_healthy [OF h, of "map src_ID ?rs"] by (auto simp: prod_eq_iff)
    have h2: "healthy d2" using h healthy_same_server [OF d2(2)] by simp
    let ?d3 = "update_run (run_ID r) (\<lambda>r. r\<lparr>run_Status := ''pending'', CompletedAt := None\<rparr>) (next_stmt d2)"
    have "ResetRunToPending (run_ID r) d2 = (None, ?d3)"
      "GetSourcesByRunID (run_ID r) ?d3 = (Inr (sort_key src_Source (sources_of (run_ID r) ?d3)), next_stmt ?d3)"
      using h2 by (simp_all add: healthy_writes healthy_reads)
    then have "\<exists>res. run_prog p d1 = (Inr (res, 202, Some (c, r\<lparr>run_Status := StatusPending\<rparr>)), next_stmt ?d3)"
      unfolding p(2) d2(1) by simp
    moreover have "same_server d1 (next_stmt ?d3)" using d2(2) by (simp add: same_server_def)
    moreover have "lookup_sources (next_stmt ?d3) =
        map (\<lambda>s. if src_ID s \<in> set (map src_ID ?rs) then reset_row s else s) (lookup_sources d1)"
      using d2(3) by simp
    moreover have "src_ID s0 \<in> set (map src_ID ?rs)" using mem by (simp only: list.set_map imageI)
    ultimately show ?thesis by blast
  qed
  with p(1) show ?thesis by blast
qed

text \<open>What such changes of the rows make of one source.\<close>

lemma source_is_map:
  assumes "source_is rid sid st d" "lookup_sources d' = map f (lookup_sources d)"
    and "\<And>s. src_RunID s = rid \<Longrightarrow> src_ID s = sid \<Longrightarrow> src_Status s = st \<Longrightarrow>
      src_RunID (f s) = rid \<and> src_ID (f s) = sid \<and> src_Status (f s) = st'"
  shows "source_is rid sid st' d'"
  using assms unfolding source_is_def by (auto simp: image_iff)

lemma same_ids:
  "lookup_sources d' = map f (lookup_sources d) \<Longrightarrow> (\<And>s. src_ID (f s) = src_ID s) \<Longrightarrow>
     map src_ID (lookup_sources d') = map src_ID (lookup_sources d)"
  by simp

lemma find_by_key: "distinct (map k xs) \<Longrightarrow> x \<in> set xs \<Longrightarrow> find (\<lambda>y. k y = k x) xs = Some x"
  by (induction xs) (auto simp: image_iff)

text \<open>A run that is complete is not started again.\<close>

lemma complete_not_restarted:
  assumes "healthy d" "db_inv d" "find (\<lambda>c. c_ID c = i) (cases d) = Some c"
    and "q \<in> set (lookup_runs d)" "run_CaseID q = i" "run_Status q = StatusComplete"
  shows "\<exists>res. fst (TriggerLookup now i d) = Inr (res, 200, None)"
proof -
  have "distinct (map run_CaseID (lookup_runs d))" using assms(2) by (simp add: db_inv_def)
  from find_by_key [OF this assms(4)] assms(5) have "find (\<lambda>r. run_CaseID r = i) (lookup_runs d) = Some q" by simp
  with assms(1,3,6) show ?thesis by (simp add: TriggerLookup_def healthy_reads)
qed

section \<open>Two retriggers at once\<close>

text \<open>The last statement of a lookup that has the statuses of the sources from before.\<close>

lemma late_completion:
  assumes "healthy d" "k < length ts" "ts ! k = Lookup i (bind_prog (call (CompleteRun t j st)) (\<lambda>_. Return ()))"
  shows "\<exists>d'. gw_step (LookupStatement k) (ts, d) (ts[k := Lookup i (Return ())], d') \<and> same_server d d' \<and>
    lookup_sources d' = lookup_sources d \<and>
    (\<forall>q \<in> set (lookup_runs d'). run_ID q = j \<longrightarrow> run_Status q = st)"
proof -
  let ?d = "update_run j (\<lambda>r. r\<lparr>run_Status := st, CompletedAt := Some t\<rparr>) (next_stmt d)"
  have "gw_step (LookupStatement k) (ts, d) (ts[k := Lookup i (Return ())], ?d)"
    using lookup_step [OF assms(2,3), of d] assms(1) by (simp add: healthy_writes)
  moreover have "\<forall>q \<in> set (lookup_runs ?d). run_ID q = j \<longrightarrow> run_Status q = st"
    unfolding update_simps set_update_where ball_simps by simp
  ultimately show ?thesis by (intro exI [of _ ?d]) (simp add: same_server_def)
qed

text \<open>A retrigger that runs to its answer, and the start of its lookup.\<close>

lemma answer_launch:
  assumes "run_prog p d = (Inr (res, 202, Some (c, r)), d')" "k < length ts" "ts ! k = Trigger i p"
    and "valid_results results"
  shows "\<exists>ls. gw_path ls (ts, d)
    (ts[k := Answered i (Inr (res, 202, Some (c, r)))] @ [Lookup i (Lookup_prog (\<lambda>x. x) results t r)], d')"
proof -
  let ?out = "Inr (res, 202, Some (c, r)) :: goerr + trigger_out" and ?new = "[Lookup i (Lookup_prog (\<lambda>x. x) results t r)]"
  obtain ls where ls: "gw_path ls (ts, d) (ts[k := Trigger i (Return ?out)], d')"
    using run_alone [OF assms(1-3)] by blast
  have "lookup_threads i ?new ?out"
    using assms(4) by (auto intro!: exI [of _ "\<lambda>x. x"] exI [of _ results] exI [of _ t])
  from gw_path.more [OF ls gw_step.answer [OF _ _ this, of k]] assms(2) show ?thesis by (auto intro: exI)
qed

text \<open>
  \<open>stale_retrigger i c r sid p\<close>: run on any healthy database, \<open>p\<close> resets the source with ID
  \<open>sid\<close> and answers that it has started a lookup.
\<close>

definition stale_retrigger :: "case_row \<Rightarrow> lookup_run \<Rightarrow> string \<Rightarrow> (goerr + trigger_out) prog \<Rightarrow> bool" where
  "stale_retrigger c r sid p \<longleftrightarrow> (\<forall>d1. healthy d1 \<longrightarrow> (\<exists>out ids d2. run_prog p d1 = (out, d2) \<and> same_server d1 d2 \<and>
     (\<exists>res. out = Inr (res, 202, Some (c, r\<lparr>run_Status := StatusPending\<rparr>))) \<and> sid \<in> ids \<and>
     lookup_sources d2 = map (\<lambda>s. if src_ID s \<in> ids then reset_row s else s) (lookup_sources d1)))"

text \<open>
  The first half: both read the failed run, the second also what to look up again; the first
  resets the run, and its lookup succeeds with every source and is about to complete the run.
\<close>

lemma first_lookup_succeeds:
  assumes "healthy d" "distinct (map src_ID (lookup_sources d))"
    and "find (\<lambda>c. c_ID c = i) (cases d) = Some c" "find (\<lambda>r. run_CaseID r = i) (lookup_runs d) = Some r"
    and "run_Status r = StatusPartial \<or> run_Status r = StatusFailed"
    and s0: "s0 \<in> set (sources_of (run_ID r) d)" "src_Status s0 \<in> {''pending'', ''failed''}"
  shows "\<exists>ls out p d1. gw_path ls ([], d) ([Answered i out, Trigger i p, Lookup i (bind_prog
      (call (CompleteRun 0 (run_ID r) StatusComplete)) (\<lambda>_. Return ()))], d1) \<and>
    stale_retrigger c r (src_ID s0) p \<and> same_server d d1 \<and> distinct (map src_ID (lookup_sources d1)) \<and>
    source_is (run_ID r) (src_ID s0) SourceStatusSuccess d1"
proof -
  let ?d3 = "next_stmt (next_stmt (next_stmt d))" and ?t = "Trigger i (Trigger_prog 0 i)"
  let ?d6 = "next_stmt (next_stmt (next_stmt ?d3))" and ?r = "r\<lparr>run_Status := StatusPending\<rparr>"
  let ?ss = "sort_key src_Source (sources_of (run_ID r) d)"
  let ?re = "Trigger i (retrigger_prog 0 c r ?ss)"
  have r1: "gw_path [Statement 0, Statement 0, Statement 0] ([?t, ?t], d) ([?re, ?t], ?d3)"
    using reads_before_retrigger [OF assms(1,3,4,5), of 0 "[?t, ?t]" 0] by simp
  have r2: "gw_path [Statement 1, Statement 1, Statement 1] ([?re, ?t], ?d3) ([?re, ?re], ?d6)"
    using reads_before_retrigger [of ?d3 i c r 1 "[?re, ?t]" 0] assms(1,3,4,5) by simp
  obtain p where p: "gw_step (Statement 1) ([?re, ?re], ?d6) ([?re, Trigger i p], next_stmt ?d6)"
    "stale_retrigger c r (src_ID s0) p"
    using retrigger_after_read [of ?d6 1 "[?re, ?re]" i 0 c r ?ss s0] assms(1) s0 unfolding stale_retrigger_def by auto
  let ?d7 = "next_stmt ?d6"
  from retrigger_healthy [of ?d7 s0 r 0 c ?ss] assms(1,2) s0 obtain res e1 where
    g: "retrigger 0 c r ?ss ?d7 = (Inr (res, 202, Some (c, ?r)), e1)" and e1: "same_server ?d7 e1"
      "lookup_sources e1 = map (\<lambda>s. if src_RunID s = run_ID r \<and> src_Status s \<in> {''pending'', ''failed''}
         then reset_row s else s) (lookup_sources d)" by auto
  have h1: "healthy e1" "same_server d e1" using assms(1) e1(1) healthy_same_server [OF e1(1)] by (simp_all add: same_server_def)
  have ids1: "distinct (map src_ID (lookup_sources e1))" using assms(2) same_ids [OF e1(2)] by simp
  have start: "source_is (run_ID r) (src_ID s0) (src_Status s0) d"
    using s0(1) by (auto simp: source_is_def sources_of_def)
  have pend: "source_is (run_ID r) (src_ID s0) ''pending'' e1"
    by (rule source_is_map [OF start e1(2)]) (use s0(2) in simp)
  let ?out = "Inr (res, 202, Some (c, ?r)) :: goerr + trigger_out"
  let ?ts = "[Answered i ?out, Trigger i p, Lookup i (Lookup_prog (\<lambda>x. x) (map (same_result SourceStatusSuccess)) 0 ?r)]"
  obtain l1 where l1: "gw_path l1 ([?re, Trigger i p], ?d7) (?ts, e1)"
    using answer_launch [of "retrigger_prog 0 c r ?ss" ?d7 res c ?r e1 0 "[?re, Trigger i p]" i
      "map (same_result SourceStatusSuccess)" 0] g valid_same_results by auto
  from lookup_but_completion [OF h1(1) ids1, of 2 ?ts i SourceStatusSuccess 0 ?r] obtain l2 e2 where
    l2: "gw_path l2 (?ts, e1) ([Answered i ?out, Trigger i p, Lookup i (bind_prog (call (CompleteRun 0 (run_ID r)
      (computeOverallStatus (sort_key src_Source (sources_of (run_ID r) e2))))) (\<lambda>_. Return ()))], e2)"
    and e2: "same_server e1 e2" "lookup_sources e2 = map (\<lambda>s. if src_RunID s = run_ID r \<and> unresolved s
      then result_row 0 (snd (same_result SourceStatusSuccess s)) s else s) (lookup_sources e1)" by auto
  have all: "computeOverallStatus (sort_key src_Source (sources_of (run_ID r) e2)) = StatusComplete"
    unfolding computeOverallStatus_eq by (auto simp: sources_of_def e2(2) unresolved_def)
  have "source_is (run_ID r) (src_ID s0) SourceStatusSuccess e2"
    by (rule source_is_map [OF pend e2(2)]) (simp add: unresolved_def source_status_defs)
  moreover have "distinct (map src_ID (lookup_sources e2))" using ids1 same_ids [OF e2(2)] by simp
  moreover have "gw_path (([Request, Request] @ [Statement 0, Statement 0, Statement 0] @ [Statement 1, Statement 1, Statement 1]) @
      (Statement 1 # l1) @ l2) ([], d) ([Answered i ?out, Trigger i p, Lookup i (bind_prog
      (call (CompleteRun 0 (run_ID r) StatusComplete)) (\<lambda>_. Return ()))], e2)"
    by (intro gw_path_append [OF gw_path_append [OF l2 [unfolded all] gw_path_Cons [OF p(1) l1]]]
        gw_path_append [OF gw_path_append [OF r2 r1] two_requests])
  ultimately show ?thesis using p(2) same_server_trans [OF h1(2) e2(1)] by blast
qed

text \<open>
  The second half: the other retrigger resets the source that has succeeded, its own lookup fails
  with it and completes the run, and only then the first lookup does, from what it read before.
\<close>

lemma second_lookup_fails:
  assumes "healthy d" "distinct (map src_ID (lookup_sources d))" "stale_retrigger c r sid p"
    and "source_is (run_ID r) sid st d"
  shows "\<exists>ls ts' d'. gw_path ls ([Answered i out, Trigger i p, Lookup i (bind_prog
      (call (CompleteRun 0 (run_ID r) StatusComplete)) (\<lambda>_. Return ()))], d) (ts', d') \<and> (\<forall>t \<in> set ts'. finished t) \<and>
    same_server d d' \<and> source_is (run_ID r) sid SourceStatusFailed d' \<and>
    (\<forall>q \<in> set (lookup_runs d'). run_ID q = run_ID r \<longrightarrow> run_Status q = StatusComplete)"
proof -
  let ?r = "r\<lparr>run_Status := StatusPending\<rparr>" and ?failed = "map (same_result SourceStatusFailed)"
  let ?last = "Lookup i (bind_prog (call (CompleteRun 0 (run_ID r) StatusComplete)) (\<lambda>_. Return ()))"
  from assms(1,3) obtain res ids d1 where
    p: "run_prog p d = (Inr (res, 202, Some (c, ?r)), d1)" and d1: "same_server d d1" "sid \<in> ids"
      "lookup_sources d1 = map (\<lambda>s. if src_ID s \<in> ids then reset_row s else s) (lookup_sources d)"
    unfolding stale_retrigger_def by auto
  let ?out = "Inr (res, 202, Some (c, ?r)) :: goerr + trigger_out"
  let ?ts = "[Answered i out, Answered i ?out, ?last, Lookup i (Lookup_prog (\<lambda>x. x) ?failed 0 ?r)]"
  obtain l1 where l1: "gw_path l1 ([Answered i out, Trigger i p, ?last], d) (?ts, d1)"
    using answer_launch [OF p, of 1 "[Answered i out, Trigger i p, ?last]" i ?failed 0] valid_same_results by auto
  have h1: "healthy d1" using assms(1) healthy_same_server [OF d1(1)] by simp
  have ids1: "distinct (map src_ID (lookup_sources d1))" using assms(2) same_ids [OF d1(3)] by simp
  have pend: "source_is (run_ID r) sid ''pending'' d1" by (rule source_is_map [OF assms(4) d1(3)]) (simp add: d1(2))
  from lookup_but_completion [OF h1 ids1, of 3 ?ts i SourceStatusFailed 0 ?r] obtain l2 d2 st2 where
    l2: "gw_path l2 (?ts, d1) ([Answered i out, Answered i ?out, ?last, Lookup i (bind_prog
      (call (CompleteRun 0 (run_ID r) st2)) (\<lambda>_. Return ()))], d2)" (is "gw_path _ _ (?ts2, _)")
    and d2: "same_server d1 d2" "lookup_sources d2 = map (\<lambda>s. if src_RunID s = run_ID r \<and> unresolved s
      then result_row 0 (snd (same_result SourceStatusFailed s)) s else s) (lookup_sources d1)" by auto
  have failed: "source_is (run_ID r) sid SourceStatusFailed d2"
    by (rule source_is_map [OF pend d2(2)]) (simp add: unresolved_def source_status_defs)
  have h2: "healthy d2" using h1 healthy_same_server [OF d2(1)] by simp
  from late_completion [OF h2, of 3 ?ts2 i 0 "run_ID r" st2] obtain d3 where
    l3: "gw_step (LookupStatement 3) (?ts2, d2) ([Answered i out, Answered i ?out, ?last, Lookup i (Return ())], d3)"
      (is "gw_step _ _ (?ts3, _)") and d3: "same_server d2 d3" "lookup_sources d3 = lookup_sources d2" by auto
  have h3: "healthy d3" using h2 healthy_same_server [OF d3(1)] by simp
  from late_completion [OF h3, of 2 ?ts3 i 0 "run_ID r" StatusComplete] obtain d4 where
    l4: "gw_step (LookupStatement 2) (?ts3, d3)
      ([Answered i out, Answered i ?out, Lookup i (Return ()), Lookup i (Return ())], d4)"
    and d4: "same_server d3 d4" "lookup_sources d4 = lookup_sources d3"
      "\<forall>q \<in> set (lookup_runs d4). run_ID q = run_ID r \<longrightarrow> run_Status q = StatusComplete" by auto
  have srv: "same_server d d4" using d1(1) d2(1) d3(1) d4(1) by (simp add: same_server_def)
  have fin: "source_is (run_ID r) sid SourceStatusFailed d4" using failed d3(2) d4(2) by (simp add: source_is_def)
  from gw_path.more [OF gw_path.more [OF gw_path_append [OF l2 l1] l3] l4] srv fin d4(3) show ?thesis
    by (intro exI conjI) auto
qed

section \<open>Properties\<close>



end
