(* ===== verification/Spec2Isabelle.thy ===== *)
theory Spec2Isabelle
  imports Lifecycle Sharing Integration Settling Retriggers
begin

text \<open>
  A model of the integration gateway (\<^verbatim>\<open>src/\<close>, Go) and what can be proved about it.

  \<^bold>\<open>The program.\<close> A foreclosure case is enriched with data from three services: property records
  (JSON, often unavailable), court records (JSON in, XML out, rate limited) and the SCRA check of
  military status (submit, then poll). \<^verbatim>\<open>POST /api/cases/{id}/enrich\<close> triggers a lookup: the
  orchestrator creates or resets the run of the case with its three sources in PostgreSQL, answers
  at once, and a goroutine calls the services, each behind a circuit breaker, with retries, the
  court also behind a rate limiter; the results go to the database, where
  \<^verbatim>\<open>GET /api/cases/{id}/enrichment\<close> finds them. At the start the server applies migrations and
  fills the table of cases. A second program mocks the three services.

  \<^bold>\<open>Theories, in the order of their imports.\<close>
  \<^item> \<open>Prelude\<close>: time and durations, decimal numerals, the string functions of Go, general lemmas.
  \<^item> \<open>GoErrors\<close> (\<^verbatim>\<open>client/client.go\<close>): error values and chains, contexts, \<^verbatim>\<open>IsPermanent\<close>,
    \<^verbatim>\<open>isTimeout\<close>. \<open>Types\<close> (\<^verbatim>\<open>model/types.go\<close>): the records and the status words.
  \<^item> \<open>CircuitBreaker\<close>, \<open>RateLimiter\<close>, \<open>Retry\<close> (\<^verbatim>\<open>internal/resilience\<close>): one function per
    method on a record of the fields; the ticker of the limiter is applied up to the present
    before each use.
  \<^item> \<open>Http\<close>, \<open>Json\<close>: \<^verbatim>\<open>net/http\<close>, \<^verbatim>\<open>encoding/json\<close>, \<^verbatim>\<open>encoding/xml\<close> and
    \<^verbatim>\<open>math/rand\<close> as far as they are used. The services are an arbitrary function in the record
    \<open>world\<close>, and so are the random numbers.
  \<^item> \<open>PropertyClient\<close>, \<open>CourtClient\<close>, \<open>ScraClient\<close> (\<^verbatim>\<open>internal/client\<close>): records, codecs,
    and the methods that call a service.
  \<^item> \<open>Store\<close> (\<^verbatim>\<open>store/lookup_store.go\<close>): the tables as lists of rows with the constraints of
    the migration files, and every query. A statement may fail, take effect without being
    acknowledged, or return a truncated result, as \<open>exec_fate\<close> and \<open>rows_fate\<close> say.
  \<^item> \<open>SourceProcess\<close> (\<^verbatim>\<open>lookup/process_*.go\<close>): the processors of the three sources.
    \<open>Orchestrator\<close> (\<^verbatim>\<open>lookup/orchestrator.go\<close>): \<^verbatim>\<open>TriggerLookup\<close>, \<^verbatim>\<open>GetStatus\<close>,
    \<^verbatim>\<open>runLookup\<close>, the overall status.
  \<^item> \<open>GoTime\<close>, \<open>Handler\<close> (\<^verbatim>\<open>api/handler.go\<close>): RFC 3339 times, the handlers as functions from
    the request to the status code and the JSON body.
  \<^item> \<open>Concurrency\<close>: triggers and lookups as programs of single database statements and the step
    relation \<open>gw_step\<close> in which any number of them interleave. \<open>Bulk\<close>: the worker pool of
    \<^verbatim>\<open>BulkEnrich\<close> as a step relation over the same programs. \<open>Settling\<close>: which thread
    answers for a run that is pending. \<open>Retriggers\<close>: two retriggers of one run at once.
  \<^item> \<open>Migrations\<close> (\<^verbatim>\<open>store/db.go\<close>), \<open>Seed\<close> (\<^verbatim>\<open>seed/seed.go\<close>), \<open>Logger\<close>
    (\<^verbatim>\<open>logger/logger.go\<close>), \<open>ServerMain\<close> (\<^verbatim>\<open>cmd/server/main.go\<close>, and \<^verbatim>\<open>RegisterRoutes\<close>).
  \<^item> \<open>Lifecycle\<close> (the end of \<^verbatim>\<open>cmd/server/main.go\<close>): the process as a step relation \<open>sv_step\<close> over
    \<open>gw_step\<close>, with the signal, \<^verbatim>\<open>Shutdown\<close> and its deadline, the exit codes, and a restart.
  \<^item> \<open>Sharing\<close>: one breaker (\<open>breaker_step\<close>) and one limiter (\<open>limiter_step\<close>) used by any number
    of goroutines in any order.
  \<^item> \<open>MockData\<close>, \<open>MockServices\<close>, \<open>MockScra\<close> (\<^verbatim>\<open>mock-services/main.go\<close>): the data, the property
    and court services, and the SCRA service with its goroutines as the reachable states of
    \<open>scra_run\<close>.
  \<^item> \<open>MockLookups\<close>, \<open>MockScraLookup\<close>: the three processors with the mock services on the other end.
    \<open>SeedCases\<close>: the cases of \<^verbatim>\<open>seed/cases.json\<close>. \<open>Integration\<close>
    (\<^verbatim>\<open>lookup/orchestrator_integration_test.go\<close>): handlers, lookups and mock services together.
  \<^item> This theory: the way of one case through handler, orchestrator, processors and store.

  \<^bold>\<open>Interfaces.\<close> Locales state what a part relies on, and each is interpreted on the model: the
  guard of the breaker and the source of tokens, a call of a service within its time, a call whose
  answer depends on its number, keyed writes to the table of sources, a processor that resolves one
  source, a property of every row that the handlers show, an invariant that every statement of the
  programs keeps and the runs they may touch (interpreted for the tables and for a run that was
  left pending).

  \<^bold>\<open>What the lemmas show.\<close>
  \<^item> The tables: an invariant (keys, one run per case, three ordered sources per run, statuses)
    that every operation keeps under all faults, and that every interleaving keeps.
  \<^item> Lookups: they end, resolve every source, store the overall status, and repeat only what
    failed; at most one first lookup of a case starts; once all requests and lookups are done no
    new run is pending. Also where this breaks: two concurrent
    triggers of a failed run both start one, which can leave it complete with a failed source; a run left pending is never started again, not
    even by the next server.
  \<^item> Resilience: breaker and retry loop against specifications, with the breakers that get stuck;
    callers that always report cannot wedge a breaker, and the limiter paces all of them together.
  \<^item> The whole: what the status endpoint reports after a lookup, and after a retry, in terms of the
    tables and draws of the mock services; the table of the integration test.
  \<^item> Endpoints, start and mocks: answers on every branch, well-formed bodies, the server that
    serves satisfies what the theorems about lookups assume, the clients understand the mocks.

  \<^bold>\<open>Recursion and bounds.\<close> No fuel is used: every loop is structural or has a termination proof
  with a measure (the attempts left for the retry loop, the time left for the poll loop, the
  ticks due for the limiter), and what the code would wait for without end is a result of its own
  (\<open>Hangs\<close>), as is a panic (\<open>Panics\<close>). Programs of the
  concurrent model end by construction, with at most 9 statements per trigger and 16 steps per
  request in all. Times are integers of nanoseconds; Go's \<^verbatim>\<open>time.Duration\<close> overflows after 292
  years, which no duration here comes near. Integers that come from JSON are checked to fit 64
  bits. Amounts are rationals instead of binary floats.

  \<^bold>\<open>Not modelled.\<close> Log lines, except what becomes of them in \<open>Logger\<close>. How PostgreSQL
  normalises JSONB values. What the SQL of a migration does, which is a parameter; its result is
  part of \<open>Store\<close>. The network listeners, of which \<open>Lifecycle\<close> uses what is documented of
  \<^verbatim>\<open>ListenAndServe\<close> and \<^verbatim>\<open>Shutdown\<close>, and the time limits of \<^verbatim>\<open>http.Server\<close>. The bytes of JSON and XML documents: a body is what the decoders
  make of it. Letter case beyond ASCII. The inside of the methods of breakers and limiter,
  which hold a mutex or a channel: each call is one step. In the deterministic model of a lookup
  (\<open>runLookup\<close>) its goroutines see these objects in the order of their statements; every other
  order is the business of \<open>Sharing\<close>. Shell scripts and container files.
\<close>

section \<open>The two programs\<close>

text \<open>Where the gateway looks for the services when nothing is configured, the mocks listen.\<close>

lemma default_addresses:
  "map (\<lambda>a. ''http://localhost'' @ fst a) (mock_main ParseFloat env now) =
    (let orc = srv_Orchestrator (new_server (\<lambda>_. []) logs d limiter) in
     [pc_baseURL (propertyClient orc), cc_baseURL (courtClient orc), sc_baseURL (scraClient orc)])"
  by (simp add: mock_main_def new_server_def NewOrchestrator_def Let_def envOr_def NewPropertyClient_def
      NewCourtClient_def NewSCRAClient_def) code_simp

section \<open>A case from its enrichment to its status\<close>



end
